(* ===== verification/Flow_Prelude.thy ===== *)
theory Flow_Prelude
  imports
    Main
    "HOL-Library.Word"
    "HOL-Library.Sublist"
    "HOL-Library.AList"
    "HOL-Library.Char_ord"
    "HOL-Library.List_Lexorder"
    "HOL-Library.Multiset"
begin

text \<open>
  Shared ground of the development: the names of the model's basic types, the theorem
  collections the component theories extend, and the generic facts on lists, association lists
  and sorting that several components use.

  A Go string is a sequence of bytes, which is what HOL's \<open>string\<close> (a list of 8-bit characters)
  is; the order of \<open>List_Lexorder\<close> over \<open>Char_ord\<close> is the byte-wise order of Go's \<open><\<close> on strings.
  A Go map is an association list with distinct keys whose order stands for the (unspecified)
  order in which a \<^verbatim>\<open>range\<close> loop of the run visits the entries; lookups go through \<open>map_of\<close> and
  assignments through \<open>AList.update\<close>.
\<close>

type_synonym u32 = "32 word"
type_synonym u64 = "64 word"
type_synonym go_map = "(string \<times> string) list"

named_theorems go_str \<open>rewrite rules for the strings and strconv functions\<close>
named_theorems go_path \<open>rewrite rules for the path functions on clean component lists\<close>
named_theorems key_simps \<open>the etcd keys of a flow or schema as component lists\<close>
named_theorems flow_defs \<open>definitions unfolded when an operation is run on a concrete state\<close>

section \<open>Lists\<close>

lemma prefix_append_cancel: "prefix (xs @ ys) (xs @ zs) \<longleftrightarrow> prefix ys zs"
  by simp

lemma suffix_iff_drop: "suffix xs ys \<longleftrightarrow> length xs \<le> length ys \<and> drop (length ys - length xs) ys = xs"
proof
  assume "suffix xs ys"
  then show "length xs \<le> length ys \<and> drop (length ys - length xs) ys = xs"
    by (auto simp: suffix_def)
next
  assume "length xs \<le> length ys \<and> drop (length ys - length xs) ys = xs"
  then show "suffix xs ys"
    by (metis suffix_drop)
qed

lemma prefix_iff_take: "prefix xs ys \<longleftrightarrow> length xs \<le> length ys \<and> take (length xs) ys = xs"
  by (metis prefix_def append_eq_conv_conj prefix_length_le take_is_prefix)

lemma list_all_set: "list_all P xs \<longleftrightarrow> (\<forall>x\<in>set xs. P x)"
  by (simp add: list_all_iff)

section \<open>Association lists as Go maps\<close>

text \<open>A Go map never holds a key twice.\<close>

definition wf_map :: "('k \<times> 'v) list \<Rightarrow> bool" where
  "wf_map m \<longleftrightarrow> distinct (map fst m)"

lemma wf_map_Nil [simp]: "wf_map []"
  by (simp add: wf_map_def)

lemma wf_map_update [simp]: "wf_map m \<Longrightarrow> wf_map (AList.update k v m)"
  by (simp add: wf_map_def distinct_update)

lemma map_of_update [simp]: "map_of (AList.update k v m) = (map_of m)(k \<mapsto> v)"
  by (simp add: update_conv')

text \<open>
  Two association lists that hold the same entries in another order are the same Go map.
\<close>

lemma map_of_perm:
  assumes "wf_map m" "mset m = mset m'"
  shows "map_of m = map_of m'"
proof -
  have "mset (map fst m) = mset (map fst m')"
    using assms(2) by simp
  then have "distinct (map fst m')"
    using assms(1) unfolding wf_map_def using mset_eq_imp_distinct_iff by blast
  moreover have "set m = set m'"
    using assms(2) by (rule mset_eq_setD)
  ultimately show ?thesis
    using assms(1) unfolding wf_map_def by (intro map_of_eqI) (auto simp: map_of_eq_Some_iff)
qed

section \<open>Sorting\<close>

text \<open>
  Go's \<^verbatim>\<open>sort.Slice\<close> promises a sorted permutation and nothing about equal elements. Where no
  two elements have the same key the promise determines the result.
\<close>

definition is_sort :: "('a \<Rightarrow> 'k::linorder) \<Rightarrow> ('a list \<Rightarrow> 'a list) \<Rightarrow> bool" where
  "is_sort key srt \<longleftrightarrow> (\<forall>xs. mset (srt xs) = mset xs \<and> sorted (map key (srt xs)))"

lemma is_sortD:
  assumes "is_sort key srt"
  shows "mset (srt xs) = mset xs" "sorted (map key (srt xs))" "set (srt xs) = set xs"
    "length (srt xs) = length xs"
proof -
  show m: "mset (srt xs) = mset xs" and "sorted (map key (srt xs))"
    using assms by (auto simp: is_sort_def)
  show "set (srt xs) = set xs" using m by (rule mset_eq_setD)
  show "length (srt xs) = length xs" using m by (rule mset_eq_length)
qed

lemma is_sort_sort_key: "is_sort key (sort_key key)"
  by (simp add: is_sort_def)

text \<open>Sorted permutations of a list with distinct keys are equal.\<close>

lemma sorted_perm_unique:
  assumes "mset xs = mset ys" "sorted (map key xs)" "sorted (map key ys)" "distinct (map key xs)"
  shows "xs = ys"
proof (rule map_sorted_distinct_set_unique [where f = key])
  show "inj_on key (set xs \<union> set ys)"
    using assms(1,4) mset_eq_setD by (metis distinct_map sup.idem)
  show "sorted (map key xs)" "sorted (map key ys)" "distinct (map key xs)"
    using assms by auto
  show "distinct (map key ys)"
    using assms(1,4) by (metis mset_eq_imp_distinct_iff mset_map)
  show "set xs = set ys"
    using assms(1) by (rule mset_eq_setD)
qed

lemma is_sort_perm:
  assumes "is_sort key f" "is_sort key g" "mset xs = mset ys" "distinct (map key ys)"
  shows "f xs = g ys"
proof (rule sorted_perm_unique [where key = key])
  show m: "mset (f xs) = mset (g ys)" and "sorted (map key (f xs))" "sorted (map key (g ys))"
    using assms(1-3) by (simp_all add: is_sortD)
  have "mset (map key (f xs)) = mset (map key ys)"
    using is_sortD(1) [OF assms(1), of xs] assms(3) by simp
  then show "distinct (map key (f xs))"
    using assms(4) mset_eq_imp_distinct_iff by blast
qed

end
