(* ===== verification/Flow_Types.thy ===== *)
theory Flow_Types
  imports Flow_Prelude
begin

text \<open>
  The messages of the control plane (\<^verbatim>\<open>gen/go/flowpipe/v1/flow.pb.go\<close> and \<^verbatim>\<open>service.pb.go\<close>, from
  \<^verbatim>\<open>proto/flowpipe/v1\<close>) as records, with a prefix per message on the field names. A pointer that may
  be nil is an \<open>option\<close>, a repeated field a list (the decoders never put a nil element into one), a
  map field a \<^typ>\<open>go_map\<close>, an unsigned integer a word of its width. Protobuf enums are open: a number
  without a name is the last constructor of its type. Plugin configuration (\<^verbatim>\<open>structpb.Struct\<close>) and the
  observability overrides are carried through unread by the Go code, as their encoded bytes.
\<close>

type_synonym opaque_msg = string
type_synonym Timestamp = int

section \<open>Enums\<close>

datatype CronConcurrencyPolicy =
    CRON_CONCURRENCY_POLICY_UNSPECIFIED
  | CRON_CONCURRENCY_POLICY_ALLOW
  | CRON_CONCURRENCY_POLICY_FORBID
  | CRON_CONCURRENCY_POLICY_REPLACE
  | CRON_CONCURRENCY_POLICY_OTHER u32

datatype StreamingWorkloadKind =
    STREAMING_WORKLOAD_KIND_UNSPECIFIED
  | STREAMING_WORKLOAD_KIND_DEPLOYMENT
  | STREAMING_WORKLOAD_KIND_DAEMONSET
  | STREAMING_WORKLOAD_KIND_OTHER u32

datatype ImagePullPolicy =
    IMAGE_PULL_POLICY_UNSPECIFIED
  | IMAGE_PULL_POLICY_ALWAYS
  | IMAGE_PULL_POLICY_IF_NOT_PRESENT
  | IMAGE_PULL_POLICY_NEVER
  | IMAGE_PULL_POLICY_OTHER u32

datatype RestartPolicy =
    RESTART_POLICY_UNSPECIFIED
  | RESTART_POLICY_ALWAYS
  | RESTART_POLICY_ON_FAILURE
  | RESTART_POLICY_NEVER
  | RESTART_POLICY_OTHER u32

datatype ExecutionMode =
    EXECUTION_MODE_UNSPECIFIED
  | EXECUTION_MODE_STREAMING
  | EXECUTION_MODE_JOB
  | EXECUTION_MODE_OTHER u32

datatype InMemorySchemaFormat =
    IN_MEMORY_SCHEMA_FORMAT_UNSPECIFIED
  | IN_MEMORY_SCHEMA_FORMAT_ARROW
  | IN_MEMORY_SCHEMA_FORMAT_PROTOBUF
  | IN_MEMORY_SCHEMA_FORMAT_FLATBUFFERS
  | IN_MEMORY_SCHEMA_FORMAT_JSON
  | IN_MEMORY_SCHEMA_FORMAT_OTHER u32

datatype QueueType =
    QUEUE_TYPE_UNSPECIFIED
  | QUEUE_TYPE_IN_MEMORY
  | QUEUE_TYPE_OTHER u32

datatype FlowState =
    FLOW_STATE_UNSPECIFIED
  | FLOW_STATE_PENDING
  | FLOW_STATE_DEPLOYING
  | FLOW_STATE_RUNNING
  | FLOW_STATE_SUCCEEDED
  | FLOW_STATE_FAILED
  | FLOW_STATE_STOPPED
  | FLOW_STATE_OTHER u32

section \<open>The flow specification\<close>

record Execution =
  ex_Mode :: ExecutionMode

record Resources =
  rs_CpuCores :: "u32 option"
  rs_MemoryMb :: "u32 option"
  rs_Profile :: "string option"

record CpuSet =
  cs_Cpu :: "u32 list"

record KubernetesSettings =
  ks_Image :: "string option"
  ks_ImagePullPolicy :: ImagePullPolicy
  ks_RestartPolicy :: RestartPolicy
  ks_CpuPinning :: "(string \<times> CpuSet) list"
  ks_Resources :: "Resources option"

record KubernetesCronOptions =
  co_Schedule :: string
  co_TimeZone :: "string option"
  co_Suspend :: "bool option"
  co_StartingDeadlineSeconds :: "64 word option"
  co_ConcurrencyPolicy :: CronConcurrencyPolicy
  co_SuccessfulJobsHistoryLimit :: "32 word option"
  co_FailedJobsHistoryLimit :: "32 word option"

record KubernetesOptions =
  ko_PodLabels :: go_map
  ko_PodAnnotations :: go_map
  ko_ServiceAccountName :: "string option"
  ko_ImagePullSecrets :: "string list"
  ko_RuntimeClassName :: "string option"
  ko_StreamingWorkloadKind :: StreamingWorkloadKind
  ko_Cron :: "KubernetesCronOptions option"

record QueueSchema =
  qs_Format :: InMemorySchemaFormat
  qs_SchemaId :: string
  qs_Version :: "u32 option"
  qs_RegistryUrl :: "string option"

record QueueSpec =
  q_Name :: string
  q_Capacity :: u32
  q_Schema :: "QueueSchema option"
  q_Type :: "QueueType option"

record StageSpec =
  st_Name :: string
  st_Type :: string
  st_Threads :: u32
  st_InputQueue :: "string option"
  st_OutputQueue :: "string option"
  st_Config :: "opaque_msg option"
  st_Plugin :: "string option"
  st_RealtimePriority :: "u32 option"

record FlowSpec =
  fs_Name :: string
  fs_Version :: u64
  fs_Execution :: "Execution option"
  fs_Stages :: "StageSpec list"
  fs_Queues :: "QueueSpec list"
  fs_Labels :: go_map
  fs_Observability :: "opaque_msg option"
  fs_Kubernetes :: "KubernetesSettings option"
  fs_KubernetesOptions :: "KubernetesOptions option"
  fs_Env :: go_map

section \<open>Status, flows and service messages\<close>

record FlowStatus =
  fst_State :: FlowState
  fst_Message :: string
  fst_ActiveVersion :: u64
  fst_Workload :: string
  fst_LastUpdated :: "Timestamp option"

record Flow =
  fl_Name :: string
  fl_Version :: u64
  fl_Spec :: "FlowSpec option"
  fl_Status :: "FlowStatus option"

record FlowSummary =
  sum_Name :: string
  sum_Status :: "FlowStatus option"

record CreateFlowRequest =
  cfr_Spec :: "FlowSpec option"

record UpdateFlowRequest =
  ufr_Name :: string
  ufr_Spec :: "FlowSpec option"

record RollbackFlowRequest =
  rfr_Name :: string
  rfr_Version :: u64

text \<open>The schema definition of the API (\<^verbatim>\<open>service.pb.go\<close>).\<close>

record SchemaDefinition =
  sd_SchemaId :: string
  sd_Version :: u32
  sd_Format :: InMemorySchemaFormat
  sd_RawSchema :: string

section \<open>Getters\<close>

text \<open>The generated getters accept a nil receiver and return the zero value for it.\<close>

fun FlowSpec_GetName :: "FlowSpec option \<Rightarrow> string" where
  "FlowSpec_GetName (Some x) = fs_Name x"
| "FlowSpec_GetName None = ''''"

fun FlowSpec_GetVersion :: "FlowSpec option \<Rightarrow> u64" where
  "FlowSpec_GetVersion (Some x) = fs_Version x"
| "FlowSpec_GetVersion None = 0"

fun GetKubernetesOptions :: "FlowSpec option \<Rightarrow> KubernetesOptions option" where
  "GetKubernetesOptions (Some x) = fs_KubernetesOptions x"
| "GetKubernetesOptions None = None"

fun GetEnv :: "FlowSpec option \<Rightarrow> go_map" where
  "GetEnv (Some x) = fs_Env x"
| "GetEnv None = []"

fun GetSchedule :: "KubernetesCronOptions option \<Rightarrow> string" where
  "GetSchedule (Some x) = co_Schedule x"
| "GetSchedule None = ''''"

fun Flow_GetName :: "Flow option \<Rightarrow> string" where
  "Flow_GetName (Some x) = fl_Name x"
| "Flow_GetName None = ''''"

fun Flow_GetStatus :: "Flow option \<Rightarrow> FlowStatus option" where
  "Flow_GetStatus (Some x) = fl_Status x"
| "Flow_GetStatus None = None"

fun GetSchemaId :: "SchemaDefinition option \<Rightarrow> string" where
  "GetSchemaId (Some x) = sd_SchemaId x"
| "GetSchemaId None = ''''"

fun Schema_GetVersion :: "SchemaDefinition option \<Rightarrow> u32" where
  "Schema_GetVersion (Some x) = sd_Version x"
| "Schema_GetVersion None = 0"

fun Schema_GetFormat :: "SchemaDefinition option \<Rightarrow> InMemorySchemaFormat" where
  "Schema_GetFormat (Some x) = sd_Format x"
| "Schema_GetFormat None = IN_MEMORY_SCHEMA_FORMAT_UNSPECIFIED"

fun GetRawSchema :: "SchemaDefinition option \<Rightarrow> string" where
  "GetRawSchema (Some x) = sd_RawSchema x"
| "GetRawSchema None = ''''"

section \<open>A small flow\<close>

text \<open>
  The empty message and a two-stage flow over one queue, the data of the concrete runs in the
  component theories.
\<close>

definition empty_spec :: FlowSpec where
  "empty_spec = \<lparr>fs_Name = '''', fs_Version = 0, fs_Execution = None, fs_Stages = [],
     fs_Queues = [], fs_Labels = [], fs_Observability = None, fs_Kubernetes = None,
     fs_KubernetesOptions = None, fs_Env = []\<rparr>"

definition mk_stage :: "string \<Rightarrow> string option \<Rightarrow> string option \<Rightarrow> StageSpec" where
  "mk_stage n i out = \<lparr>st_Name = n, st_Type = ''noop'', st_Threads = 1, st_InputQueue = i,
     st_OutputQueue = out, st_Config = None, st_Plugin = None, st_RealtimePriority = None\<rparr>"

definition mk_queue :: "string \<Rightarrow> u32 \<Rightarrow> QueueSpec" where
  "mk_queue n c = \<lparr>q_Name = n, q_Capacity = c, q_Schema = None, q_Type = None\<rparr>"

definition demo_spec :: FlowSpec where
  "demo_spec = empty_spec\<lparr>fs_Name := ''f'',
     fs_Stages := [mk_stage ''src'' None (Some ''q''), mk_stage ''dst'' (Some ''q'') None],
     fs_Queues := [mk_queue ''q'' 0],
     fs_Kubernetes := Some \<lparr>ks_Image = Some ''rt:1'', ks_ImagePullPolicy = IMAGE_PULL_POLICY_ALWAYS,
       ks_RestartPolicy = RESTART_POLICY_UNSPECIFIED, ks_CpuPinning = [], ks_Resources = None\<rparr>\<rparr>"

text \<open>The same flow in its normalized form.\<close>

definition demo_sorted :: FlowSpec where
  "demo_sorted = demo_spec\<lparr>fs_Stages := [mk_stage ''dst'' (Some ''q'') None, mk_stage ''src'' None (Some ''q'')],
     fs_Queues := [mk_queue ''q'' 128]\<rparr>"

end
