(* ===== verification/Go_Strings.thy ===== *)
theory Go_Strings
  imports Flow_Prelude
begin

text \<open>
  The functions of Go's \<^verbatim>\<open>strings\<close>, \<^verbatim>\<open>strconv\<close> and \<^verbatim>\<open>encoding/hex\<close> packages that the control
  plane calls, on byte strings: prefix and suffix tests, trimming, case folding, splitting at a
  separator, and the decimal rendering and parsing of unsigned integers. The lemmas give what the
  key layout and the token parsing rely on: decimal rendering is injective, free of slashes and
  inverted by parsing; trimming is idempotent; splitting is inverted by joining.
\<close>

section \<open>Prefixes and suffixes\<close>

definition HasPrefix :: "string \<Rightarrow> string \<Rightarrow> bool" where
  "HasPrefix s p \<longleftrightarrow> length p \<le> length s \<and> take (length p) s = p"

definition HasSuffix :: "string \<Rightarrow> string \<Rightarrow> bool" where
  "HasSuffix s p \<longleftrightarrow> length p \<le> length s \<and> drop (length s - length p) s = p"

definition TrimPrefix :: "string \<Rightarrow> string \<Rightarrow> string" where
  "TrimPrefix s p = (if HasPrefix s p then drop (length p) s else s)"

definition TrimSuffix :: "string \<Rightarrow> string \<Rightarrow> string" where
  "TrimSuffix s p = (if HasSuffix s p then take (length s - length p) s else s)"

lemma HasPrefix_iff: "HasPrefix s p \<longleftrightarrow> prefix p s"
  by (simp add: HasPrefix_def prefix_iff_take)

lemma HasSuffix_iff: "HasSuffix s p \<longleftrightarrow> suffix p s"
  by (simp add: HasSuffix_def suffix_iff_drop)

lemma HasPrefix_append [go_str]: "HasPrefix (p @ s) p"
  by (simp add: HasPrefix_def)

lemma HasSuffix_append [go_str]: "HasSuffix (s @ p) p"
  by (simp add: HasSuffix_def)

lemma TrimPrefix_append [go_str]: "TrimPrefix (p @ s) p = s"
  by (simp add: TrimPrefix_def HasPrefix_def)

lemma TrimSuffix_append [go_str]: "TrimSuffix (s @ p) p = s"
  by (simp add: TrimSuffix_def HasSuffix_def)

section \<open>Splitting and joining\<close>

text \<open>\<^verbatim>\<open>strings.Split\<close> with a separator of one byte: one piece more than there are separators.\<close>

fun split_on :: "char \<Rightarrow> string \<Rightarrow> string list" where
  "split_on c [] = [[]]"
| "split_on c (x # xs) =
     (if x = c then [] # split_on c xs
      else (case split_on c xs of [] \<Rightarrow> [[x]] | p # ps \<Rightarrow> (x # p) # ps))"

fun join_with :: "char \<Rightarrow> string list \<Rightarrow> string" where
  "join_with c [] = []"
| "join_with c [p] = p"
| "join_with c (p # q # ps) = p @ c # join_with c (q # ps)"

lemma split_on_nonempty [simp]: "split_on c s \<noteq> []"
  by (induction s) (auto split: list.splits)

lemma split_on_notin: "c \<notin> set s \<Longrightarrow> split_on c s = [s]"
  by (induction s) auto

lemma split_on_append: "c \<notin> set p \<Longrightarrow> split_on c (p @ c # s) = p # split_on c s"
  by (induction p) auto

lemma join_split: "join_with c (split_on c s) = s"
proof (induction s)
  case (Cons x xs)
  then show ?case
    by (cases "split_on c xs" rule: list.exhaust; cases "tl (split_on c xs)")
       (auto split: list.splits)
qed simp

lemma split_on_pieces: "p \<in> set (split_on c s) \<Longrightarrow> c \<notin> set p"
  by (induction s arbitrary: p) (auto split: list.splits if_splits)

lemma split_join:
  assumes "ps \<noteq> []" "\<forall>p\<in>set ps. c \<notin> set p"
  shows "split_on c (join_with c ps) = ps"
  using assms
proof (induction ps rule: join_with.induct)
  case (3 c p q ps)
  then show ?case by (simp add: split_on_append)
qed (auto simp: split_on_notin)

section \<open>White space and letter case\<close>

text \<open>
  \<^verbatim>\<open>unicode.IsSpace\<close> holds for the six ASCII characters \<^verbatim>\<open>\t \n \v \f \r\<close> and space, and for the
  runes U+0085, U+00A0, U+1680, U+2000 to U+200A, U+2028, U+2029, U+202F, U+205F and U+3000, listed
  here by their UTF-8 bytes. The first byte of an encoding never occurs later in one, so cutting
  an encoding off either end of a byte string is what decoding a rune there does.
\<close>

definition space_runes :: "string list" where
  "space_runes =
     [[CHR 0x09], [CHR 0x0A], [CHR 0x0B], [CHR 0x0C], [CHR 0x0D], [CHR 0x20],
      [CHR 0xC2, CHR 0x85], [CHR 0xC2, CHR 0xA0], [CHR 0xE1, CHR 0x9A, CHR 0x80]]
     @ map (\<lambda>b. [CHR 0xE2, CHR 0x80, b])
        [CHR 0x80, CHR 0x81, CHR 0x82, CHR 0x83, CHR 0x84, CHR 0x85, CHR 0x86, CHR 0x87,
         CHR 0x88, CHR 0x89, CHR 0x8A, CHR 0xA8, CHR 0xA9, CHR 0xAF]
     @ [[CHR 0xE2, CHR 0x81, CHR 0x9F], [CHR 0xE3, CHR 0x80, CHR 0x80]]"

text \<open>Cut the runes of a list off the front of a string while one of them is there.\<close>

function trim_front :: "string list \<Rightarrow> string \<Rightarrow> string" where
  "trim_front rs s =
     (case find (\<lambda>r. r \<noteq> [] \<and> take (length r) s = r) rs of
        None \<Rightarrow> s
      | Some r \<Rightarrow> trim_front rs (drop (length r) s))"
  by pat_completeness auto
termination
proof (relation "measure (\<lambda>(rs, s). length s)")
  fix rs s r
  assume "find (\<lambda>r. r \<noteq> [] \<and> take (length r) s = r) rs = Some r"
  then have "r \<noteq> []" "take (length r) s = r"
    by (auto simp: find_Some_iff)
  then show "((rs, drop (length r) s), rs, s) \<in> measure (\<lambda>(rs, s). length s)"
    by (cases s; cases r) auto
qed simp

declare trim_front.simps [simp del]

definition TrimSpace :: "string \<Rightarrow> string" where
  "TrimSpace s =
     rev (trim_front (map rev space_runes) (rev (trim_front space_runes s)))"

lemma trim_front_fix:
  "find (\<lambda>r. r \<noteq> [] \<and> take (length r) s = r) rs = None \<Longrightarrow> trim_front rs s = s"
  by (subst trim_front.simps) simp

lemma trim_front_step:
  "find (\<lambda>r. r \<noteq> [] \<and> take (length r) s = r) rs = Some r \<Longrightarrow>
    trim_front rs s = trim_front rs (drop (length r) s)"
  by (subst trim_front.simps) simp

lemma trim_front_suffix: "suffix (trim_front rs s) s"
proof (induction rs s rule: trim_front.induct)
  case (1 rs s)
  show ?case
  proof (cases "find (\<lambda>r. r \<noteq> [] \<and> take (length r) s = r) rs")
    case None
    then show ?thesis by (simp add: trim_front_fix)
  next
    case (Some r)
    then have "suffix (trim_front rs (drop (length r) s)) (drop (length r) s)"
      by (rule "1.IH")
    then show ?thesis
      unfolding trim_front_step [OF Some] by (rule suffix_order.trans [OF _ suffix_drop])
  qed
qed

lemma trim_front_no_rune:
  "find (\<lambda>r. r \<noteq> [] \<and> take (length r) (trim_front rs s) = r) rs = None"
proof (induction rs s rule: trim_front.induct)
  case (1 rs s)
  show ?case
  proof (cases "find (\<lambda>r. r \<noteq> [] \<and> take (length r) s = r) rs")
    case None
    then show ?thesis unfolding trim_front_fix [OF None] .
  next
    case (Some r)
    then show ?thesis unfolding trim_front_step [OF Some] by (rule "1.IH")
  qed
qed

lemma trim_front_idem: "trim_front rs (trim_front rs s) = trim_front rs s"
  by (rule trim_front_fix) (rule trim_front_no_rune)

text \<open>
  No white-space rune starts a prefix of a string that it does not start: cutting at the back
  leaves the front trimmed.
\<close>

lemma trim_front_prefix_fix:
  assumes "trim_front rs s = s" "prefix t s"
  shows "trim_front rs t = t"
proof (rule trim_front_fix)
  have none: "\<not> (r \<noteq> [] \<and> take (length r) s = r)" if "r \<in> set rs" for r
    using trim_front_no_rune [of rs s] that assms(1) by (auto simp: find_None_iff)
  show "find (\<lambda>r. r \<noteq> [] \<and> take (length r) t = r) rs = None"
    unfolding find_None_iff
  proof (intro notI, elim exE conjE)
    fix r assume r: "r \<in> set rs" "r \<noteq> []" "take (length r) t = r"
    then have "prefix r t" by (metis take_is_prefix)
    then have "prefix r s" using assms(2) by (rule prefix_order.trans)
    then have "take (length r) s = r" by (auto simp: prefix_def)
    then show False using none r by blast
  qed
qed

lemma TrimSpace_idem [go_str]: "TrimSpace (TrimSpace s) = TrimSpace s"
proof -
  let ?f = "trim_front space_runes" and ?b = "trim_front (map rev space_runes)"
  have "prefix (rev (?b (rev (?f s)))) (?f s)"
    using trim_front_suffix [of "map rev space_runes" "rev (?f s)"] by (simp add: suffix_to_prefix)
  then have "?f (rev (?b (rev (?f s)))) = rev (?b (rev (?f s)))"
    by (rule trim_front_prefix_fix [OF trim_front_idem])
  then show ?thesis by (simp add: TrimSpace_def trim_front_idem)
qed

lemma TrimSpace_sublist: "sublist (TrimSpace s) s"
proof -
  let ?f = "trim_front space_runes s"
  have "prefix (TrimSpace s) ?f"
    using trim_front_suffix [of "map rev space_runes" "rev ?f"]
    by (simp add: TrimSpace_def suffix_to_prefix)
  then show ?thesis
    using trim_front_suffix by (meson prefix_imp_sublist sublist_order.order.trans suffix_imp_sublist)
qed

lemma TrimSpace_Nil [go_str]: "TrimSpace [] = []"
  using TrimSpace_sublist [of "[]"] by simp

text \<open>
  \<^verbatim>\<open>strings.ToLower\<close> maps every rune with \<^verbatim>\<open>unicode.ToLower\<close>. The code compares its result with
  ASCII constants only. Two runes beyond ASCII have an ASCII lower case, U+0130 (\<^verbatim>\<open>i\<close>) and the Kelvin
  sign U+212A (\<^verbatim>\<open>k\<close>); the bytes of every other rune beyond ASCII stay beyond ASCII, and the model
  leaves them as they are.
\<close>

definition lower_byte :: "char \<Rightarrow> char" where
  "lower_byte c = (if of_char c \<in> {65..90::nat} then char_of (of_char c + 32 :: nat) else c)"

fun ToLower :: "string \<Rightarrow> string" where
  "ToLower [] = []"
| "ToLower (c # s) =
     (case (c, s) of
        (CHR 0xC4, CHR 0xB0 # t) \<Rightarrow> CHR ''i'' # ToLower t
      | (CHR 0xE2, CHR 0x84 # CHR 0xAA # t) \<Rightarrow> CHR ''k'' # ToLower t
      | _ \<Rightarrow> lower_byte c # ToLower s)"

section \<open>Decimal integers\<close>

definition digit_char :: "nat \<Rightarrow> char" where
  "digit_char d = char_of (48 + d)"

definition digit_value :: "char \<Rightarrow> nat" where
  "digit_value c = of_char c - 48"

definition is_digit :: "char \<Rightarrow> bool" where
  "is_digit c \<longleftrightarrow> 48 \<le> (of_char c :: nat) \<and> (of_char c :: nat) \<le> 57"

text \<open>\<^verbatim>\<open>strconv.FormatUint(v, 10)\<close>: most significant digit first, no leading zeros.\<close>

fun format_nat :: "nat \<Rightarrow> string" where
  "format_nat n =
     (if n < 10 then [digit_char n] else format_nat (n div 10) @ [digit_char (n mod 10)])"

declare format_nat.simps [simp del]

definition FormatUint :: "u64 \<Rightarrow> string" where
  "FormatUint v = format_nat (unat v)"

text \<open>
  \<^verbatim>\<open>strconv.ParseUint(s, 10, bitSize)\<close>: \<open>None\<close> for the syntax error (an empty string, a byte that is
  not a digit) and for the range error (a value above \<open>2 ^ bitSize - 1\<close>, found while reading).
\<close>

fun parse_digits :: "nat \<Rightarrow> nat \<Rightarrow> string \<Rightarrow> nat option" where
  "parse_digits maxVal n [] = Some n"
| "parse_digits maxVal n (c # s) =
     (if is_digit c
      then (let n1 = n * 10 + digit_value c
            in if n1 > maxVal then None else parse_digits maxVal n1 s)
      else None)"

definition ParseUint :: "string \<Rightarrow> nat \<Rightarrow> nat option" where
  "ParseUint s bitSize = (if s = [] then None else parse_digits (2 ^ bitSize - 1) 0 s)"

lemma of_char_digit: "d < 10 \<Longrightarrow> of_char (digit_char d) = 48 + d"
  by (simp add: digit_char_def of_char_of)

lemma digit_char [simp]: "d < 10 \<Longrightarrow> is_digit (digit_char d)" "d < 10 \<Longrightarrow> digit_value (digit_char d) = d"
  by (simp_all add: is_digit_def digit_value_def of_char_digit)

lemma format_nat_digits: "c \<in> set (format_nat n) \<Longrightarrow> is_digit c"
proof (induction n rule: format_nat.induct)
  case (1 n)
  then show ?case by (subst (asm) format_nat.simps) (auto split: if_splits)
qed

lemma format_nat_nonempty [simp]: "format_nat n \<noteq> []"
  by (subst format_nat.simps) simp

lemma parse_digits_append:
  "parse_digits m n (s @ t) = (case parse_digits m n s of None \<Rightarrow> None | Some n' \<Rightarrow> parse_digits m n' t)"
  by (induction s arbitrary: n) (auto simp: Let_def)

lemma parse_format_digits: "n \<le> m \<Longrightarrow> parse_digits m 0 (format_nat n) = Some n"
proof (induction n rule: format_nat.induct)
  case (1 n)
  show ?case
  proof (cases "n < 10")
    case True
    with 1 show ?thesis by (subst format_nat.simps) simp
  next
    case False
    then have "parse_digits m 0 (format_nat (n div 10)) = Some (n div 10)"
      using 1 by simp
    then show ?thesis
      using False 1(2) by (subst format_nat.simps) (simp add: parse_digits_append)
  qed
qed

lemma ParseUint_format [go_str]: "n < 2 ^ b \<Longrightarrow> ParseUint (format_nat n) b = Some n"
  by (simp add: ParseUint_def parse_format_digits)

lemma ParseUint_FormatUint [go_str]: "ParseUint (FormatUint v) 64 = Some (unat v)"
  unfolding FormatUint_def by (rule ParseUint_format) (use unsigned_less [of v] in simp)

lemma parse_digits_bound: "parse_digits m n s = Some v \<Longrightarrow> n \<le> m \<Longrightarrow> v \<le> m"
  by (induction s arbitrary: n) (auto simp: Let_def split: if_splits)

lemma ParseUint_bound: "ParseUint s b = Some v \<Longrightarrow> v < 2 ^ b"
proof -
  assume "ParseUint s b = Some v"
  then have "v \<le> 2 ^ b - 1"
    using parse_digits_bound [of "2 ^ b - 1" 0 s v] by (simp add: ParseUint_def split: if_splits)
  moreover have "0 < (2::nat) ^ b" by simp
  ultimately show ?thesis by linarith
qed

lemma format_nat_inject [simp]: "format_nat m = format_nat n \<longleftrightarrow> m = n"
proof
  assume eq: "format_nat m = format_nat n"
  have "Some m = parse_digits (m + n) 0 (format_nat m)"
    by (rule parse_format_digits [symmetric]) simp
  also have "\<dots> = parse_digits (m + n) 0 (format_nat n)"
    unfolding eq ..
  also have "\<dots> = Some n"
    by (rule parse_format_digits) simp
  finally show "m = n" by simp
qed simp

lemma FormatUint_inject [simp]: "FormatUint v = FormatUint w \<longleftrightarrow> v = w"
  by (auto simp: FormatUint_def intro: unsigned_word_eqI)

lemma FormatUint_digits: "c \<in> set (FormatUint v) \<Longrightarrow> is_digit c"
  unfolding FormatUint_def by (rule format_nat_digits)

lemma FormatUint_nonempty [simp]: "FormatUint v \<noteq> []"
  by (simp add: FormatUint_def)

text \<open>
  A code equation that reads the digits into a binary integer, so that evaluation by rewriting does
  not build the bound \<open>2 ^ bitSize\<close> in unary.
\<close>

fun parse_digits_int :: "int \<Rightarrow> int \<Rightarrow> string \<Rightarrow> int option" where
  "parse_digits_int maxVal n [] = Some n"
| "parse_digits_int maxVal n (c # s) =
     (if is_digit c
      then (let n1 = n * 10 + int (digit_value c)
            in if n1 > maxVal then None else parse_digits_int maxVal n1 s)
      else None)"

lemma parse_digits_int: "parse_digits_int (int m) (int n) s = map_option int (parse_digits m n s)"
proof (induction s arbitrary: n)
  case (Cons c s)
  have "int n * 10 + int (digit_value c) = int (n * 10 + digit_value c)" by simp
  then show ?case using Cons [of "n * 10 + digit_value c"] by (simp only: parse_digits_int.simps
      parse_digits.simps Let_def of_nat_less_iff) simp
qed simp

lemma ParseUint_code [code]:
  "ParseUint s bitSize =
     (if s = [] then None else map_option nat (parse_digits_int (2 ^ bitSize - 1) 0 s))"
proof -
  have "int (2 ^ bitSize - 1) = 2 ^ bitSize - 1" by (simp add: of_nat_diff)
  then show ?thesis
    using parse_digits_int [of "2 ^ bitSize - 1" 0 s]
    by (simp add: ParseUint_def option.map_comp comp_def option.map_ident)
qed

section \<open>Hexadecimal\<close>

text \<open>\<^verbatim>\<open>hex.EncodeToString\<close>: two lower-case digits per byte.\<close>

definition hex_digit :: "nat \<Rightarrow> char" where
  "hex_digit d = (if d < 10 then char_of (48 + d) else char_of (87 + d))"

definition EncodeToString :: "string \<Rightarrow> string" where
  "EncodeToString s = concat (map (\<lambda>c. [hex_digit (of_char c div 16), hex_digit (of_char c mod 16)]) s)"

end
