(* ===== verification/Go_Path.thy ===== *)
theory Go_Path
  imports Go_Strings
begin

text \<open>
  Go's \<^verbatim>\<open>path\<close> package on byte strings: \<^verbatim>\<open>Clean\<close>, \<^verbatim>\<open>Join\<close>, \<^verbatim>\<open>Dir\<close> and \<^verbatim>\<open>Base\<close>. The store builds every
  etcd key with \<^verbatim>\<open>path.Join\<close>, which cleans the result, so a flow name with slashes or dot
  components is rewritten before it becomes a key. \<open>abspath\<close> is the rooted path of a list of
  components; on \<open>plain\<close> components the functions are the obvious ones, which is what the
  collection \<open>go_path\<close> holds.
\<close>

abbreviation slash :: char where
  "slash \<equiv> CHR ''/''"

section \<open>The functions\<close>

text \<open>
  \<^verbatim>\<open>Clean\<close> reads the components from left to right: empty ones and \<^verbatim>\<open>.\<close> vanish, \<^verbatim>\<open>..\<close> removes the
  component before it, or vanishes at the root, or stays at the start of a relative path. The
  second argument is the output so far, last component first.
\<close>

fun clean_components :: "bool \<Rightarrow> string list \<Rightarrow> string list \<Rightarrow> string list" where
  "clean_components rooted out [] = rev out"
| "clean_components rooted out (c # cs) =
     (if c = '''' \<or> c = ''.'' then clean_components rooted out cs
      else if c = ''..'' then
        (case out of
           [] \<Rightarrow> clean_components rooted (if rooted then [] else [c]) cs
         | t # ts \<Rightarrow> clean_components rooted (if t = ''..'' then c # out else ts) cs)
      else clean_components rooted (c # out) cs)"

definition path_Clean :: "string \<Rightarrow> string" where
  "path_Clean p =
     (if p = '''' then ''.''
      else let rooted = (hd p = slash);
               cs = clean_components rooted [] (split_on slash p)
           in if rooted then slash # join_with slash cs
              else if cs = [] then ''.'' else join_with slash cs)"

fun join_buf :: "string \<Rightarrow> string list \<Rightarrow> string" where
  "join_buf buf [] = buf"
| "join_buf buf (e # es) =
     join_buf (if buf \<noteq> '''' then buf @ ''/'' @ e else e) es"

definition path_Join :: "string list \<Rightarrow> string" where
  "path_Join elem = (if concat elem = '''' then '''' else path_Clean (join_buf '''' elem))"

definition path_Dir :: "string \<Rightarrow> string" where
  "path_Dir p = path_Clean (rev (dropWhile (\<lambda>c. c \<noteq> slash) (rev p)))"

definition path_Base :: "string \<Rightarrow> string" where
  "path_Base p =
     (if p = '''' then ''.''
      else let q = dropWhile (\<lambda>c. c = slash) (rev p);
               b = rev (takeWhile (\<lambda>c. c \<noteq> slash) q)
           in if b = '''' then ''/'' else b)"

section \<open>Plain components and rooted paths\<close>

definition plain :: "string \<Rightarrow> bool" where
  "plain c \<longleftrightarrow> c \<noteq> '''' \<and> slash \<notin> set c \<and> c \<noteq> ''.'' \<and> c \<noteq> ''..''"

definition abspath :: "string list \<Rightarrow> string" where
  "abspath cs = concat (map (\<lambda>c. slash # c) cs)"

lemma plainD [dest]: "plain c \<Longrightarrow> c \<noteq> ''''" "plain c \<Longrightarrow> slash \<notin> set c"
  by (auto simp: plain_def)

lemma abspath_simps [simp]:
  "abspath [] = ''''" "abspath (c # cs) = slash # c @ abspath cs"
  "abspath (cs @ ds) = abspath cs @ abspath ds"
  by (simp_all add: abspath_def)

lemma abspath_eq_Nil [simp]: "abspath cs = '''' \<longleftrightarrow> cs = []"
  by (cases cs) auto

lemma split_on_component:
  "slash \<notin> set c \<Longrightarrow> \<forall>d\<in>set cs. slash \<notin> set d \<Longrightarrow> split_on slash (c @ abspath cs) = c # cs"
  by (induction cs arbitrary: c) (simp_all add: split_on_notin split_on_append)

lemma split_on_abspath: "\<forall>c\<in>set cs. slash \<notin> set c \<Longrightarrow> split_on slash (abspath cs) = '''' # cs"
  using split_on_component [of "''''" cs] by simp

lemma abspath_inject:
  assumes "\<forall>c\<in>set cs. slash \<notin> set c" "\<forall>d\<in>set ds. slash \<notin> set d" "abspath cs = abspath ds"
  shows "cs = ds"
  by (metis split_on_abspath assms list.inject)

lemma join_with_abspath: "cs \<noteq> [] \<Longrightarrow> slash # join_with slash cs = abspath cs"
  by (induction slash cs rule: join_with.induct) auto

lemma clean_components_plain: "\<forall>c\<in>set cs. plain c \<Longrightarrow> clean_components r out cs = rev out @ cs"
  by (induction cs arbitrary: out) (auto simp: plain_def)

lemma path_Clean_abspath [go_path]:
  assumes "cs \<noteq> []" "\<forall>c\<in>set cs. plain c"
  shows "path_Clean (abspath cs) = abspath cs"
proof -
  obtain d ds where cs: "cs = d # ds" using assms(1) by (cases cs) auto
  have "split_on slash (abspath cs) = '''' # cs"
    using assms(2) by (intro split_on_abspath) auto
  then have "clean_components True [] (split_on slash (abspath cs)) = cs"
    using clean_components_plain [OF assms(2)] by simp
  then show ?thesis
    using join_with_abspath [OF assms(1)] by (simp add: path_Clean_def cs)
qed

lemma join_buf_abspath: "cs \<noteq> [] \<Longrightarrow> join_buf (abspath cs) ds = abspath (cs @ ds)"
proof (induction ds arbitrary: cs)
  case (Cons d ds)
  then show ?case using Cons.IH [of "cs @ [d]"] by simp
qed simp

lemma path_Join_abspath [go_path]:
  assumes "cs \<noteq> []" "\<forall>c\<in>set cs. plain c" "\<forall>d\<in>set ds. plain d"
  shows "path_Join (abspath cs # ds) = abspath (cs @ ds)"
proof -
  have "path_Clean (abspath (cs @ ds)) = abspath (cs @ ds)"
    by (rule path_Clean_abspath) (use assms in auto)
  moreover have "abspath cs \<noteq> ''''" using assms(1) by simp
  ultimately show ?thesis
    using join_buf_abspath [OF assms(1)] by (simp add: path_Join_def)
qed

lemma dir_split: "slash \<notin> set x \<Longrightarrow> rev (dropWhile (\<lambda>c. c \<noteq> slash) (rev (p @ slash # x))) = p @ ''/''"
  by (simp add: dropWhile_append)

lemma split_on_trailing: "split_on slash (p @ ''/'') = split_on slash p @ ['''']"
  by (induction p) (auto split: list.splits)

lemma clean_components_trailing:
  "clean_components r out (cs @ ['''']) = clean_components r out cs"
  by (induction r out cs rule: clean_components.induct) (auto split: list.splits)

lemma path_Clean_trailing: "p \<noteq> '''' \<Longrightarrow> path_Clean (p @ ''/'') = path_Clean p"
  by (cases p) (simp_all add: path_Clean_def split_on_trailing clean_components_trailing
      del: split_on.simps flip: append_Cons)

lemma path_Dir_abspath [go_path]:
  assumes "cs \<noteq> []" "\<forall>c\<in>set cs. plain c" "slash \<notin> set x"
  shows "path_Dir (abspath (cs @ [x])) = abspath cs"
proof -
  have "path_Dir (abspath (cs @ [x])) = path_Clean (abspath cs @ ''/'')"
    using dir_split [OF assms(3), of "abspath cs"] by (simp add: path_Dir_def)
  also have "\<dots> = abspath cs"
    using assms by (simp add: path_Clean_trailing path_Clean_abspath)
  finally show ?thesis .
qed

lemma path_Base_abspath [go_path]:
  assumes "plain c"
  shows "path_Base (abspath (cs @ [c])) = c"
proof -
  have c: "c \<noteq> ''''" "slash \<notin> set c" using assms by auto
  then have "dropWhile (\<lambda>x. x = slash) (rev c @ slash # rev (abspath cs)) = rev c @ slash # rev (abspath cs)"
    by (cases c rule: rev_cases) auto
  moreover have "takeWhile (\<lambda>x. x \<noteq> slash) (rev c @ slash # rev (abspath cs)) = rev c"
    using c(2) by (auto simp: takeWhile_append)
  ultimately show ?thesis
    using c by (simp add: path_Base_def)
qed

section \<open>Prefixes of rooted paths\<close>

lemma prefix_slash_free:
  assumes "slash \<notin> set a"
  shows "prefix a (b @ abspath ds) \<longleftrightarrow> prefix a b"
proof (cases ds)
  case (Cons d ds')
  show ?thesis
  proof
    assume p: "prefix a (b @ abspath ds)"
    show "prefix a b"
    proof (rule ccontr)
      assume "\<not> prefix a b"
      with p have "prefix b a" by (meson prefix_same_cases prefix_def)
      then obtain r where r: "a = b @ r" by (auto simp: prefix_def)
      with \<open>\<not> prefix a b\<close> have "r \<noteq> []" by auto
      moreover have "prefix r (abspath ds)" using p r by simp
      ultimately have "slash \<in> set r" using Cons by (cases r) auto
      then show False using assms r by simp
    qed
  qed (auto simp: prefix_def)
qed simp

lemma prefix_abspath:
  assumes "slash \<notin> set a"
  shows "prefix (abspath (cs @ [a])) (abspath (cs @ b # ds)) \<longleftrightarrow> prefix a b"
  using prefix_slash_free [OF assms] by simp

section \<open>Joining a name below a root\<close>

text \<open>
  \<^verbatim>\<open>path.Join(root, name)\<close> for an arbitrary \<open>name\<close>: the components that are left once the name's dot
  components are resolved, which may have climbed above \<open>root\<close>. Joining further plain components
  onto the result appends them, so every key the stores build is a list of plain components.
\<close>

definition resolve :: "string list \<Rightarrow> string \<Rightarrow> string list" where
  "resolve root name = clean_components True (rev root) (split_on slash name)"

definition rooted :: "string list \<Rightarrow> string" where
  "rooted cs = (if cs = [] then ''/'' else abspath cs)"

lemma clean_components_all_plain:
  "\<forall>c\<in>set out. plain c \<Longrightarrow> \<forall>c\<in>set cs. slash \<notin> set c \<Longrightarrow>
     \<forall>c\<in>set (clean_components True out cs). plain c"
proof (induction cs arbitrary: out)
  case (Cons c cs)
  have "\<exists>out'. clean_components True out (c # cs) = clean_components True out' cs
      \<and> (\<forall>c\<in>set out'. plain c)"
  proof (cases "c = '''' \<or> c = ''.'' \<or> c = ''..''")
    case True
    then show ?thesis
      using Cons.prems(1)
      by (intro exI [of _ "if c = ''..'' then tl out else out"]; cases out) (auto simp: plain_def)
  next
    case False
    then have "plain c" using Cons.prems(2) by (simp add: plain_def)
    with False Cons.prems(1) show ?thesis by (intro exI [of _ "c # out"]) simp
  qed
  then obtain out' where "clean_components True out (c # cs) = clean_components True out' cs"
    "\<forall>c\<in>set out'. plain c" by blast
  then show ?case using Cons.IH [of out'] Cons.prems(2) by simp
qed simp

lemma resolve_plain: "\<forall>c\<in>set root. plain c \<Longrightarrow> \<forall>c\<in>set (resolve root name). plain c"
  unfolding resolve_def by (rule clean_components_all_plain) (auto dest: split_on_pieces)

lemma resolve_plain_name [go_path]: "plain name \<Longrightarrow> resolve root name = root @ [name]"
  by (auto simp: resolve_def split_on_notin plain_def)

lemma clean_components_append_plain:
  "\<forall>c\<in>set cs. plain c \<Longrightarrow> clean_components r out (cs @ ds) = clean_components r (rev cs @ out) ds"
  by (induction cs arbitrary: out) (auto simp: plain_def)

lemma split_on_join:
  "\<forall>c\<in>set cs. slash \<notin> set c \<Longrightarrow> split_on slash (abspath cs @ slash # s) = '''' # cs @ split_on slash s"
proof (induction cs)
  case (Cons c cs)
  have "split_on slash (c @ abspath cs @ slash # s) = c # cs @ split_on slash s"
  proof (cases cs)
    case Nil
    then show ?thesis using Cons.prems by (simp add: split_on_append)
  next
    case (Cons d ds)
    then show ?thesis using Cons.IH Cons.prems split_on_append [of slash c "d @ abspath ds @ slash # s"] by simp
  qed
  then show ?case by simp
qed simp

lemma path_Join_name:
  assumes "root \<noteq> []" "\<forall>c\<in>set root. plain c"
  shows "path_Join [abspath root, name] = rooted (resolve root name)"
proof -
  have "split_on slash (abspath root @ ''/'' @ name) = '''' # root @ split_on slash name"
    using assms(2) split_on_join [of root name] by auto
  then have "clean_components True [] (split_on slash (abspath root @ ''/'' @ name)) = resolve root name"
    using assms(2) by (simp add: resolve_def clean_components_append_plain)
  moreover obtain r rs where "root = r # rs" using assms(1) by (cases root) auto
  ultimately have "path_Clean (abspath root @ ''/'' @ name) = rooted (resolve root name)"
    using join_with_abspath [of "resolve root name"] by (auto simp: path_Clean_def rooted_def)
  then show ?thesis using assms(1) by (simp add: path_Join_def)
qed

lemma join_buf_append: "p \<noteq> '''' \<Longrightarrow> join_buf p ds = p @ abspath ds"
  by (induction ds arbitrary: p) auto

lemma path_Join_rooted:
  assumes "\<forall>c\<in>set cs. plain c" "ds \<noteq> []" "\<forall>d\<in>set ds. plain d"
  shows "path_Join (rooted cs # ds) = abspath (cs @ ds)"
proof (cases "cs = []")
  case True
  have "clean_components True [] (split_on slash (''/'' @ abspath ds)) = ds"
    using split_on_abspath [of ds] plainD(2) clean_components_plain [OF assms(3)] assms(3) by simp
  then show ?thesis
    using True assms(2) join_with_abspath [of ds]
    by (simp add: path_Join_def rooted_def join_buf_append path_Clean_def)
next
  case False
  then show ?thesis using assms path_Join_abspath [of cs ds] by (simp add: rooted_def)
qed

lemma takeWhile_component: "slash \<notin> set k \<Longrightarrow> takeWhile (\<lambda>c. c \<noteq> slash) (k @ abspath ks) = k"
  by (cases ks) (auto simp: takeWhile_append)

lemma prefix_component:
  assumes "slash \<notin> set c" "slash \<notin> set k" "prefix (c @ slash # x) (k @ abspath ks)"
  shows "c = k \<and> prefix (slash # x) (abspath ks)"
proof -
  obtain z where z: "k @ abspath ks = c @ slash # (x @ z)"
    using assms(3) by (auto simp: prefix_def)
  have "k = takeWhile (\<lambda>c. c \<noteq> slash) (c @ slash # (x @ z))"
    using takeWhile_component [OF assms(2), of ks] z by simp
  also have "\<dots> = c" using assms(1) by (simp add: takeWhile_append)
  finally show ?thesis using z by simp
qed

text \<open>Which component lists a path is a string prefix of: the last component may be cut short.\<close>

lemma prefix_abspath_iff:
  assumes "\<forall>c\<in>set cs. slash \<notin> set c" "slash \<notin> set a" "\<forall>k\<in>set ks. slash \<notin> set k"
  shows "prefix (abspath (cs @ [a])) (abspath ks) \<longleftrightarrow> (\<exists>b ds. ks = cs @ b # ds \<and> prefix a b)"
  using assms
proof (induction cs arbitrary: ks)
  case Nil
  then show ?case using prefix_slash_free [OF Nil(2)] by (cases ks) auto
next
  case (Cons c cs)
  show ?case
  proof (cases ks)
    case (Cons k ks')
    obtain r where r: "abspath (cs @ [a]) = slash # r" by (cases cs) auto
    have "prefix (c @ slash # r) (k @ abspath ks') \<longleftrightarrow> c = k \<and> prefix (slash # r) (abspath ks')"
      using prefix_component [of c k r ks'] Cons.prems Cons by auto
    then show ?thesis
      using Cons.IH [of ks'] Cons.prems Cons r by auto
  qed simp
qed

end
