(* ===== verification/Etcd_Client.thy ===== *)
theory Etcd_Client
  imports Flow_Types Go_Path
begin

text \<open>
  The external services behind the stores. The etcd client (\<^verbatim>\<open>go.etcd.io/etcd/client/v3\<close>) and the
  protobuf codec (\<^verbatim>\<open>google.golang.org/protobuf/proto\<close>) are not part of the repository: the store
  operations take them as arguments, as records of functions over a world \<open>'w\<close>, and the locales \<open>etcd\<close>
  and \<open>proto_spec\<close> state the documented behaviour the stores rely on. \<open>kvs w\<close> is the content of the key space
  at the latest revision. A call that returns an error may or may not have taken effect.

  An in-memory key space with a schedule of injected faults and a small codec interpret the locales,
  so that the stores can be run on concrete inputs.
\<close>

section \<open>The client\<close>

record kv =
  kv_Key :: string
  kv_Value :: string

text \<open>
  The comparisons \<^verbatim>\<open>Compare(CreateRevision(k), "=", 0)\<close> and \<^verbatim>\<open>Compare(Value(k), "=", v)\<close>, and the
  operation \<^verbatim>\<open>OpPut(k, v)\<close>.
\<close>

datatype etcd_cmp = CreateRevisionIsZero string | ValueEquals string string

datatype etcd_op = OpPut string string

record 'w etcd_client =
  cli_Get :: "string \<Rightarrow> 'w \<Rightarrow> (string + kv list) \<times> 'w"
  cli_GetPrefix :: "string \<Rightarrow> 'w \<Rightarrow> (string + kv list) \<times> 'w"
  cli_Put :: "string \<Rightarrow> string \<Rightarrow> 'w \<Rightarrow> (string + unit) \<times> 'w"
  cli_DeletePrefix :: "string \<Rightarrow> 'w \<Rightarrow> (string + unit) \<times> 'w"
  cli_Txn :: "etcd_cmp list \<Rightarrow> etcd_op list \<Rightarrow> 'w \<Rightarrow> (string + bool) \<times> 'w"

section \<open>The documented behaviour\<close>

type_synonym keyspace = "string \<rightharpoonup> string"

fun cmp_holds :: "keyspace \<Rightarrow> etcd_cmp \<Rightarrow> bool" where
  "cmp_holds m (CreateRevisionIsZero k) \<longleftrightarrow> m k = None"
| "cmp_holds m (ValueEquals k v) \<longleftrightarrow> m k = Some v"

fun apply_ops :: "etcd_op list \<Rightarrow> keyspace \<Rightarrow> keyspace" where
  "apply_ops [] m = m"
| "apply_ops (OpPut k v # ops) m = apply_ops ops (m(k \<mapsto> v))"

definition delete_prefix :: "string \<Rightarrow> keyspace \<Rightarrow> keyspace" where
  "delete_prefix p m = (\<lambda>k. if prefix p k then None else m k)"

locale etcd =
  fixes cli :: "'w etcd_client" and kvs :: "'w \<Rightarrow> keyspace"
  assumes Get_law: "cli_Get cli k w = (r, w') \<Longrightarrow> kvs w' = kvs w
      \<and> (\<forall>xs. r = Inr xs \<longrightarrow> xs = (case kvs w k of None \<Rightarrow> [] | Some v \<Rightarrow> [\<lparr>kv_Key = k, kv_Value = v\<rparr>]))"
    and GetPrefix_law: "cli_GetPrefix cli p w = (r, w') \<Longrightarrow> kvs w' = kvs w
      \<and> (\<forall>xs. r = Inr xs \<longrightarrow> sorted_wrt (<) (map kv_Key xs)
           \<and> set xs = {\<lparr>kv_Key = k, kv_Value = v\<rparr> | k v. prefix p k \<and> kvs w k = Some v})"
    and Put_ok: "cli_Put cli k v w = (Inr (), w') \<Longrightarrow> kvs w' = (kvs w)(k \<mapsto> v)"
    and Put_err: "cli_Put cli k v w = (Inl e, w') \<Longrightarrow> kvs w' = kvs w \<or> kvs w' = (kvs w)(k \<mapsto> v)"
    and DeletePrefix_ok: "cli_DeletePrefix cli p w = (Inr (), w') \<Longrightarrow> kvs w' = delete_prefix p (kvs w)"
    and DeletePrefix_err: "cli_DeletePrefix cli p w = (Inl e, w') \<Longrightarrow>
      kvs w' = kvs w \<or> kvs w' = delete_prefix p (kvs w)"
    and Txn_ok: "cli_Txn cli cs ops w = (Inr b, w') \<Longrightarrow> b = list_all (cmp_holds (kvs w)) cs
      \<and> kvs w' = (if b then apply_ops ops (kvs w) else kvs w)"
    and Txn_err: "cli_Txn cli cs ops w = (Inl e, w') \<Longrightarrow> kvs w' = kvs w
      \<or> (list_all (cmp_holds (kvs w)) cs \<and> kvs w' = apply_ops ops (kvs w))"
begin

lemma Get_view:
  "cli_Get cli k w = (Inr xs, w') \<Longrightarrow>
     kvs w' = kvs w \<and> xs = (case kvs w k of None \<Rightarrow> [] | Some v \<Rightarrow> [\<lparr>kv_Key = k, kv_Value = v\<rparr>])"
  using Get_law by blast

lemma Get_pure: "kvs (snd (cli_Get cli k w)) = kvs w"
  using Get_law by (metis prod.collapse)

lemma Get_Nil_iff: "cli_Get cli k w = (Inr [], w') \<Longrightarrow> kvs w k = None"
  by (drule Get_view) (auto split: option.splits)

lemma Get_ConsD:
  "cli_Get cli k w = (Inr (x # xs), w') \<Longrightarrow> kvs w k = Some (kv_Value x) \<and> xs = [] \<and> kv_Key x = k"
  by (drule Get_view) (auto split: option.splits)

end

section \<open>The protobuf codec\<close>

record proto_codec =
  marshal_spec :: "FlowSpec \<Rightarrow> string + string"
  unmarshal_spec :: "string \<Rightarrow> string + FlowSpec"
  marshal_status :: "FlowStatus \<Rightarrow> string + string"
  unmarshal_status :: "string \<Rightarrow> string + FlowStatus"

text \<open>Decoding inverts encoding wherever a message can be encoded.\<close>

locale proto_spec =
  fixes pc :: proto_codec
  assumes spec_roundtrip: "marshal_spec pc s = Inr b \<Longrightarrow> unmarshal_spec pc b = Inr s"
    and status_roundtrip: "marshal_status pc t = Inr b \<Longrightarrow> unmarshal_status pc b = Inr t"

section \<open>An in-memory key space\<close>

text \<open>
  \<open>mem_faults\<close> says for each coming call whether it fails before it reaches the store; a call beyond
  the end of the list succeeds.
\<close>

record etcd_mem =
  mem_kvs :: "(string \<times> string) list"
  mem_faults :: "bool list"

definition mem_view :: "etcd_mem \<Rightarrow> keyspace" where
  "mem_view w = map_of (mem_kvs w)"

definition faulty :: "etcd_mem \<Rightarrow> bool" where
  "faulty w \<longleftrightarrow> (case mem_faults w of [] \<Rightarrow> False | f # _ \<Rightarrow> f)"

definition mem_call :: "(etcd_mem \<Rightarrow> 'a \<times> etcd_mem) \<Rightarrow> etcd_mem \<Rightarrow> (string + 'a) \<times> etcd_mem" where
  "mem_call f w =
     (let w1 = w\<lparr>mem_faults := tl (mem_faults w)\<rparr>
      in if faulty w then (Inl ''unavailable'', w1)
         else (case f w1 of (a, w2) \<Rightarrow> (Inr a, w2)))"

definition mem_keys :: "etcd_mem \<Rightarrow> string list" where
  "mem_keys w = sort (remdups (map fst (mem_kvs w)))"

definition mem_entry :: "etcd_mem \<Rightarrow> string \<Rightarrow> kv list" where
  "mem_entry w k = (case map_of (mem_kvs w) k of None \<Rightarrow> [] | Some v \<Rightarrow> [\<lparr>kv_Key = k, kv_Value = v\<rparr>])"

fun mem_cmp :: "etcd_mem \<Rightarrow> etcd_cmp \<Rightarrow> bool" where
  "mem_cmp w (CreateRevisionIsZero k) \<longleftrightarrow> map_of (mem_kvs w) k = None"
| "mem_cmp w (ValueEquals k v) \<longleftrightarrow> map_of (mem_kvs w) k = Some v"

fun mem_put :: "etcd_op \<Rightarrow> etcd_mem \<Rightarrow> etcd_mem" where
  "mem_put (OpPut k v) w = w\<lparr>mem_kvs := AList.update k v (mem_kvs w)\<rparr>"

definition mem_client :: "etcd_mem etcd_client" where
  "mem_client =
     \<lparr>cli_Get = (\<lambda>k. mem_call (\<lambda>w. (mem_entry w k, w))),
      cli_GetPrefix = (\<lambda>p. mem_call (\<lambda>w.
        (concat (map (mem_entry w) (filter (prefix p) (mem_keys w))), w))),
      cli_Put = (\<lambda>k v. mem_call (\<lambda>w. ((), mem_put (OpPut k v) w))),
      cli_DeletePrefix = (\<lambda>p. mem_call (\<lambda>w.
        ((), w\<lparr>mem_kvs := filter (\<lambda>(k, v). \<not> prefix p k) (mem_kvs w)\<rparr>))),
      cli_Txn = (\<lambda>cs ops. mem_call (\<lambda>w.
        if list_all (mem_cmp w) cs then (True, fold mem_put ops w) else (False, w)))\<rparr>"

lemmas mem_defs = mem_client_def mem_call_def mem_entry_def mem_view_def

lemma mem_call_Inr:
  "mem_call f w = (Inr a, w') \<Longrightarrow> f (w\<lparr>mem_faults := tl (mem_faults w)\<rparr>) = (a, w')"
  by (auto simp: mem_call_def Let_def split: if_splits prod.splits)

lemma mem_call_Inl: "mem_call f w = (Inl e, w') \<Longrightarrow> w' = w\<lparr>mem_faults := tl (mem_faults w)\<rparr>"
  by (auto simp: mem_call_def Let_def split: if_splits prod.splits)

lemma mem_view_faults [simp]: "mem_view (w\<lparr>mem_faults := fs\<rparr>) = mem_view w"
  by (simp add: mem_view_def)

lemma mem_cmp_view: "mem_cmp w c = cmp_holds (mem_view w) c"
  by (cases c) (simp_all add: mem_view_def)

lemma mem_put_view: "mem_view (fold mem_put ops w) = apply_ops ops (mem_view w)"
proof (induction ops arbitrary: w)
  case (Cons op ops)
  obtain k v where "op = OpPut k v" by (cases op)
  then show ?case using Cons by (simp add: mem_view_def fun_upd_def)
qed simp

lemma map_of_filter_key: "map_of (filter (\<lambda>(k, v). P k) m) = (\<lambda>k. if P k then map_of m k else None)"
  by (induction m) (auto simp: fun_eq_iff)

lemma mem_range:
  fixes w p
  defines "xs \<equiv> concat (map (mem_entry w) (filter (prefix p) (mem_keys w)))"
  shows "sorted_wrt (<) (map kv_Key xs)
    \<and> set xs = {\<lparr>kv_Key = k, kv_Value = v\<rparr> | k v. prefix p k \<and> mem_view w k = Some v}"
proof -
  have dom: "map_of (mem_kvs w) k \<noteq> None" if "k \<in> set (mem_keys w)" for k
    using that by (auto simp: mem_keys_def map_of_eq_None_iff)
  have keys: "map kv_Key (concat (map (mem_entry w) ks)) = ks" if "set ks \<subseteq> set (mem_keys w)" for ks
    using that dom by (induction ks) (auto simp: mem_entry_def split: option.splits)
  have "map kv_Key xs = filter (prefix p) (mem_keys w)"
    unfolding xs_def by (rule keys) auto
  moreover have "sorted_wrt (<) (mem_keys w)"
    by (simp add: mem_keys_def strict_sorted_iff)
  then have "sorted_wrt (<) (filter (prefix p) (mem_keys w))"
    by (rule sorted_wrt_filter)
  moreover have "k \<in> set (mem_keys w)" if "mem_view w k = Some v" for k v
    using that by (auto simp: mem_keys_def mem_view_def dest: map_of_SomeD intro: rev_image_eqI)
  then have "set xs = {\<lparr>kv_Key = k, kv_Value = v\<rparr> | k v. prefix p k \<and> mem_view w k = Some v}"
    by (auto simp: xs_def mem_entry_def mem_view_def split: option.splits)
  ultimately show ?thesis by simp
qed

interpretation mem: etcd mem_client mem_view
proof (unfold_locales, goal_cases)
  case (1 k w r w')
  then show ?case
    by (cases r) (auto simp: mem_client_def mem_entry_def mem_view_def dest!: mem_call_Inr mem_call_Inl)
next
  case (2 p w r w')
  show ?case
  proof (cases r)
    case (Inl e)
    with 2 show ?thesis by (auto simp: mem_client_def dest: mem_call_Inl)
  next
    case (Inr xs)
    let ?w = "w\<lparr>mem_faults := tl (mem_faults w)\<rparr>"
    have "xs = concat (map (mem_entry ?w) (filter (prefix p) (mem_keys ?w)))" "w' = ?w"
      using 2 Inr by (auto simp: mem_client_def dest!: mem_call_Inr)
    with mem_range [of ?w p] show ?thesis using Inr by simp
  qed
next
  case (3 k v w w')
  then show ?case
    by (auto simp: mem_client_def mem_view_def dest!: mem_call_Inr)
next
  case (4 k v w e w')
  then show ?case by (auto simp: mem_client_def dest: mem_call_Inl)
next
  case (5 p w w')
  then show ?case
    by (auto simp: mem_client_def mem_view_def delete_prefix_def map_of_filter_key [of "\<lambda>k. \<not> prefix p k"]
        fun_eq_iff dest!: mem_call_Inr)
next
  case (6 p w e w')
  then show ?case by (auto simp: mem_client_def dest: mem_call_Inl)
next
  case (7 cs ops w b w')
  let ?w = "w\<lparr>mem_faults := tl (mem_faults w)\<rparr>"
  have "list_all (mem_cmp ?w) cs = list_all (cmp_holds (mem_view w)) cs"
    by (simp add: mem_cmp_view list_all_iff)
  with 7 mem_put_view [of ops ?w] show ?case
    by (auto simp: mem_client_def dest!: mem_call_Inr split: if_splits)
next
  case (8 cs ops w e w')
  then show ?case by (auto simp: mem_client_def dest: mem_call_Inl)
qed

section \<open>A small codec\<close>

text \<open>
  Encodes the messages of the concrete runs (the empty flow and the two-stage flow, normalized or not, under any
  name and version, and the status the controller writes) and refuses every other message.
\<close>

definition mini_body :: "char \<Rightarrow> FlowSpec \<Rightarrow> FlowSpec" where
  "mini_body c s = (if c = CHR ''e'' then empty_spec else if c = CHR ''n'' then demo_sorted else demo_spec)
     \<lparr>fs_Name := fs_Name s, fs_Version := fs_Version s\<rparr>"

definition mini_text :: "u64 \<Rightarrow> string \<Rightarrow> string" where
  "mini_text v n = FormatUint v @ '':'' @ n"

definition mini_parse :: "string \<Rightarrow> (u64 \<times> string) option" where
  "mini_parse b =
     (case ParseUint (takeWhile (\<lambda>c. c \<noteq> CHR '':'') b) 64 of
        None \<Rightarrow> None
      | Some v \<Rightarrow> Some (of_nat v, tl (dropWhile (\<lambda>c. c \<noteq> CHR '':'') b)))"

definition mini_status :: "u64 \<Rightarrow> string \<Rightarrow> FlowStatus" where
  "mini_status v wl = \<lparr>fst_State = FLOW_STATE_DEPLOYING, fst_Message = ''flow runtime created'',
     fst_ActiveVersion = v, fst_Workload = wl, fst_LastUpdated = Some 0\<rparr>"

definition mini_codec :: proto_codec where
  "mini_codec =
     \<lparr>marshal_spec = (\<lambda>s.
        if s = mini_body CHR ''e'' s then Inr (CHR ''e'' # mini_text (fs_Version s) (fs_Name s))
        else if s = mini_body CHR ''d'' s then Inr (CHR ''d'' # mini_text (fs_Version s) (fs_Name s))
        else if s = mini_body CHR ''n'' s then Inr (CHR ''n'' # mini_text (fs_Version s) (fs_Name s))
        else Inl ''unsupported''),
      unmarshal_spec = (\<lambda>b. case b of
          [] \<Rightarrow> Inl ''empty''
        | c # t \<Rightarrow> (case mini_parse t of
              None \<Rightarrow> Inl ''malformed''
            | Some (v, n) \<Rightarrow> Inr (mini_body c (empty_spec\<lparr>fs_Name := n, fs_Version := v\<rparr>)))),
      marshal_status = (\<lambda>t.
        if t = mini_status (fst_ActiveVersion t) (fst_Workload t)
        then Inr (mini_text (fst_ActiveVersion t) (fst_Workload t)) else Inl ''unsupported''),
      unmarshal_status = (\<lambda>b. case mini_parse b of
          None \<Rightarrow> Inl ''malformed'' | Some (v, n) \<Rightarrow> Inr (mini_status v n))\<rparr>"

lemma mini_parse_text: "mini_parse (mini_text v n) = Some (v, n)"
proof -
  have "CHR '':'' \<notin> set (FormatUint v)"
    using FormatUint_digits [of "CHR '':''" v] by (auto simp: is_digit_def)
  then have "takeWhile (\<lambda>c. c \<noteq> CHR '':'') (mini_text v n) = FormatUint v"
    "dropWhile (\<lambda>c. c \<noteq> CHR '':'') (mini_text v n) = '':'' @ n"
    by (auto simp: mini_text_def takeWhile_append dropWhile_append)
  then show ?thesis by (simp add: mini_parse_def ParseUint_FormatUint)
qed

lemma mini_body_again:
  "mini_body c (empty_spec\<lparr>fs_Name := fs_Name s, fs_Version := fs_Version s\<rparr>) = mini_body c s"
  by (simp add: mini_body_def)

interpretation mini: proto_spec mini_codec
proof
  fix s b assume "marshal_spec mini_codec s = Inr b"
  then consider "s = mini_body CHR ''e'' s" "b = CHR ''e'' # mini_text (fs_Version s) (fs_Name s)"
    | "s = mini_body CHR ''d'' s" "b = CHR ''d'' # mini_text (fs_Version s) (fs_Name s)"
    | "s = mini_body CHR ''n'' s" "b = CHR ''n'' # mini_text (fs_Version s) (fs_Name s)"
    by (auto simp: mini_codec_def split: if_splits)
  then show "unmarshal_spec mini_codec b = Inr s"
    by cases (simp_all add: mini_codec_def mini_parse_text mini_body_again)
next
  fix t b assume "marshal_status mini_codec t = Inr b"
  then have "t = mini_status (fst_ActiveVersion t) (fst_Workload t)"
    "b = mini_text (fst_ActiveVersion t) (fst_Workload t)"
    by (auto simp: mini_codec_def split: if_splits)
  then show "unmarshal_status mini_codec b = Inr t"
    by (simp add: mini_codec_def mini_parse_text)
qed

end
