(* ===== verification/Api_Store.thy ===== *)
theory Api_Store
  imports Etcd_Client
begin

text \<open>
  The flow half of the API's etcd store (\<^verbatim>\<open>api/internal/store/etcd.go\<close>): the key layout, version
  creation with its compare-and-swap, reads, listing, deletion and rollback. Every operation takes the
  etcd client and the protobuf codec as arguments and threads the world through the calls in the
  order of the code; an error of a call ends the operation as the early return does.

  The theory then relates the key space to an abstract registry (\<open>aflow\<close>: the active version, the
  specs by version, the status), proves that each operation refines an abstract one, and states the
  contract of the Go interface \<^verbatim>\<open>APIStore\<close> as the locale \<open>flow_store\<close>, which the operations interpret.
\<close>

section \<open>Errors\<close>

datatype store_error =
    ErrEtcd string
  | ErrProto string
  | ErrJson string
  | ErrFlowNameRequired
  | ErrSpecNil
  | ErrInvalidActiveVersion
  | ErrFlowModified string
  | ErrFlowNotFound string
  | ErrSpecMissing string u64
  | ErrVersionMissing u64
  | ErrSchemaNil
  | ErrSchemaIdRequired
  | ErrSchemaFormatRequired
  | ErrSchemaPayloadRequired
  | ErrInvalidActiveSchemaVersion
  | ErrSchemaModified string
  | ErrSchemaNotFound string
  | ErrSchemaVersionNotFound string u32

section \<open>Key layout\<close>

definition rootPrefix :: string where
  "rootPrefix = ''/flowpipe/flows''"

definition flowPrefix :: "string \<Rightarrow> string" where
  "flowPrefix name = path_Join [rootPrefix, name]"

definition activeKey :: "string \<Rightarrow> string" where
  "activeKey name = path_Join [flowPrefix name, ''active'']"

definition versionSpecKey :: "string \<Rightarrow> u64 \<Rightarrow> string" where
  "versionSpecKey name version =
     path_Join [flowPrefix name, ''versions'', FormatUint version, ''spec'']"

definition statusKey :: "string \<Rightarrow> string" where
  "statusKey name = path_Join [flowPrefix name, ''status'']"

section \<open>Creating versions\<close>

text \<open>
  \<^verbatim>\<open>createNewVersion\<close> reads the active pointer, computes the next version (a 64-bit addition, which
  wraps), and commits the spec and the pointer if the pointer is still what was read. The part after the
  read is a definition of its own, because other clients may act between the two calls.
\<close>

definition nextVersion :: "kv list \<Rightarrow> store_error + u64" where
  "nextVersion resp =
     (case resp of
        [] \<Rightarrow> Inr 1
      | kv # _ \<Rightarrow>
          (case ParseUint (kv_Value kv) 64 of
             None \<Rightarrow> Inl ErrInvalidActiveVersion
           | Some prevVersion \<Rightarrow> Inr (of_nat prevVersion + 1)))"

definition commitVersion ::
  "'w etcd_client \<Rightarrow> proto_codec \<Rightarrow> string \<Rightarrow> FlowSpec \<Rightarrow> kv list \<Rightarrow> 'w \<Rightarrow> (store_error + Flow) \<times> 'w" where
  "commitVersion cli pc name spec resp w =
     (case nextVersion resp of
        Inl e \<Rightarrow> (Inl e, w)
      | Inr nv \<Rightarrow>
          (let spec' = spec\<lparr>fs_Version := nv\<rparr>
           in case marshal_spec pc spec' of
                Inl e \<Rightarrow> (Inl (ErrProto e), w)
              | Inr specBytes \<Rightarrow>
                  (let cmp = (case resp of
                                [] \<Rightarrow> CreateRevisionIsZero (activeKey name)
                              | kv # _ \<Rightarrow> ValueEquals (activeKey name) (kv_Value kv))
                   in case cli_Txn cli [cmp]
                             [OpPut (versionSpecKey name nv) specBytes,
                              OpPut (activeKey name) (FormatUint nv)] w of
                        (Inl e, w') \<Rightarrow> (Inl (ErrEtcd e), w')
                      | (Inr succeeded, w') \<Rightarrow>
                          if \<not> succeeded then (Inl (ErrFlowModified name), w')
                          else (Inr \<lparr>fl_Name = name, fl_Version = nv, fl_Spec = Some spec',
                                     fl_Status = None\<rparr>, w'))))"

definition createNewVersion ::
  "'w etcd_client \<Rightarrow> proto_codec \<Rightarrow> string \<Rightarrow> FlowSpec \<Rightarrow> 'w \<Rightarrow> (store_error + Flow) \<times> 'w" where
  "createNewVersion cli pc name spec w =
     (case cli_Get cli (activeKey name) w of
        (Inl e, w') \<Rightarrow> (Inl (ErrEtcd e), w')
      | (Inr resp, w') \<Rightarrow> commitVersion cli pc name spec resp w')"

definition CreateFlow ::
  "'w etcd_client \<Rightarrow> proto_codec \<Rightarrow> FlowSpec option \<Rightarrow> 'w \<Rightarrow> (store_error + Flow) \<times> 'w" where
  "CreateFlow cli pc spec w =
     (case spec of
        None \<Rightarrow> (Inl ErrFlowNameRequired, w)
      | Some sp \<Rightarrow>
          if fs_Name sp = '''' then (Inl ErrFlowNameRequired, w)
          else createNewVersion cli pc (fs_Name sp) sp w)"

definition UpdateFlow ::
  "'w etcd_client \<Rightarrow> proto_codec \<Rightarrow> string \<Rightarrow> FlowSpec option \<Rightarrow> 'w \<Rightarrow> (store_error + Flow) \<times> 'w" where
  "UpdateFlow cli pc name spec w =
     (case spec of
        None \<Rightarrow> (Inl ErrSpecNil, w)
      | Some sp \<Rightarrow> createNewVersion cli pc name (sp\<lparr>fs_Name := name\<rparr>) w)"

section \<open>Reading\<close>

definition GetFlowStatus ::
  "'w etcd_client \<Rightarrow> proto_codec \<Rightarrow> string \<Rightarrow> 'w \<Rightarrow> (store_error + FlowStatus option) \<times> 'w" where
  "GetFlowStatus cli pc name w =
     (case cli_Get cli (statusKey name) w of
        (Inl e, w') \<Rightarrow> (Inr None, w')
      | (Inr [], w') \<Rightarrow> (Inr None, w')
      | (Inr (kv # _), w') \<Rightarrow>
          (case unmarshal_status pc (kv_Value kv) of
             Inl e \<Rightarrow> (Inl (ErrProto e), w')
           | Inr st \<Rightarrow> (Inr (Some st), w')))"

definition GetFlow ::
  "'w etcd_client \<Rightarrow> proto_codec \<Rightarrow> string \<Rightarrow> 'w \<Rightarrow> (store_error + Flow) \<times> 'w" where
  "GetFlow cli pc name w =
     (case cli_Get cli (activeKey name) w of
        (Inl e, w1) \<Rightarrow> (Inl (ErrEtcd e), w1)
      | (Inr [], w1) \<Rightarrow> (Inl (ErrFlowNotFound name), w1)
      | (Inr (kv # _), w1) \<Rightarrow>
          (case ParseUint (kv_Value kv) 64 of
             None \<Rightarrow> (Inl ErrInvalidActiveVersion, w1)
           | Some n \<Rightarrow>
               (let version = (of_nat n :: u64)
                in case cli_Get cli (versionSpecKey name version) w1 of
                     (Inl e, w2) \<Rightarrow> (Inl (ErrEtcd e), w2)
                   | (Inr [], w2) \<Rightarrow> (Inl (ErrSpecMissing name version), w2)
                   | (Inr (skv # _), w2) \<Rightarrow>
                       (case unmarshal_spec pc (kv_Value skv) of
                          Inl e \<Rightarrow> (Inl (ErrProto e), w2)
                        | Inr spec \<Rightarrow>
                            (case GetFlowStatus cli pc name w2 of
                               (st, w3) \<Rightarrow>
                                 (Inr \<lparr>fl_Name = name, fl_Version = version, fl_Spec = Some spec,
                                       fl_Status = (case st of Inl _ \<Rightarrow> None | Inr s \<Rightarrow> s)\<rparr>, w3))))))"

fun list_flows_loop ::
  "'w etcd_client \<Rightarrow> proto_codec \<Rightarrow> string list \<Rightarrow> Flow list \<Rightarrow> kv list \<Rightarrow> 'w \<Rightarrow> Flow list \<times> 'w" where
  "list_flows_loop cli pc seen out [] w = (out, w)"
| "list_flows_loop cli pc seen out (kv # rest) w =
     (let key = kv_Key kv
      in if \<not> HasSuffix key ''/active'' then list_flows_loop cli pc seen out rest w
         else (let name = TrimSuffix (TrimPrefix key (rootPrefix @ ''/'')) ''/active''
               in if name \<in> set seen then list_flows_loop cli pc seen out rest w
                  else (case GetFlow cli pc name w of
                          (Inl _, w') \<Rightarrow> list_flows_loop cli pc (name # seen) out rest w'
                        | (Inr f, w') \<Rightarrow> list_flows_loop cli pc (name # seen) (out @ [f]) rest w')))"

definition ListFlows ::
  "'w etcd_client \<Rightarrow> proto_codec \<Rightarrow> 'w \<Rightarrow> (store_error + Flow list) \<times> 'w" where
  "ListFlows cli pc w =
     (case cli_GetPrefix cli rootPrefix w of
        (Inl e, w') \<Rightarrow> (Inl (ErrEtcd e), w')
      | (Inr kvs, w') \<Rightarrow>
          (case list_flows_loop cli pc [] [] kvs w' of (out, w'') \<Rightarrow> (Inr out, w'')))"

section \<open>Deletion and rollback\<close>

definition DeleteFlow :: "'w etcd_client \<Rightarrow> string \<Rightarrow> 'w \<Rightarrow> (store_error + unit) \<times> 'w" where
  "DeleteFlow cli name w =
     (case cli_DeletePrefix cli (flowPrefix name) w of
        (Inl e, w') \<Rightarrow> (Inl (ErrEtcd e), w')
      | (Inr _, w') \<Rightarrow> (Inr (), w'))"

text \<open>
  \<^verbatim>\<open>RollbackFlow\<close> is a check that the version has a spec, the write of the pointer and a read of the flow, each a call of its own
  to etcd: \<open>checkRollback\<close> and \<open>putRollback\<close> are the first two.
\<close>

definition checkRollback :: "'w etcd_client \<Rightarrow> string \<Rightarrow> u64 \<Rightarrow> 'w \<Rightarrow> (store_error + unit) \<times> 'w" where
  "checkRollback cli name version w =
     (let specKey = versionSpecKey name version
      in case cli_Get cli specKey w of
           (Inl e, w1) \<Rightarrow> (Inl (ErrEtcd e), w1)
         | (Inr [], w1) \<Rightarrow> (Inl (ErrVersionMissing version), w1)
         | (Inr (_ # _), w1) \<Rightarrow> (Inr (), w1))"

definition putRollback :: "'w etcd_client \<Rightarrow> string \<Rightarrow> u64 \<Rightarrow> 'w \<Rightarrow> (store_error + unit) \<times> 'w" where
  "putRollback cli name version w =
     (case cli_Put cli (activeKey name) (FormatUint version) w of
        (Inl e, w1) \<Rightarrow> (Inl (ErrEtcd e), w1)
      | (Inr _, w1) \<Rightarrow> (Inr (), w1))"

definition RollbackFlow ::
  "'w etcd_client \<Rightarrow> proto_codec \<Rightarrow> string \<Rightarrow> u64 \<Rightarrow> 'w \<Rightarrow> (store_error + Flow) \<times> 'w" where
  "RollbackFlow cli pc name version w =
     (case checkRollback cli name version w of
        (Inl e, w1) \<Rightarrow> (Inl e, w1)
      | (Inr _, w1) \<Rightarrow>
          (case putRollback cli name version w1 of
             (Inl e, w2) \<Rightarrow> (Inl e, w2)
           | (Inr _, w2) \<Rightarrow> GetFlow cli pc name w2))"

lemmas rollback_defs = RollbackFlow_def checkRollback_def putRollback_def

section \<open>The keys of a flow\<close>

text \<open>
  The identity of a flow is the component list its name resolves to below the root. All keys are
  determined by it, for every name.
\<close>

definition flow_id :: "string \<Rightarrow> string list" where
  "flow_id name = resolve [''flowpipe'', ''flows''] name"

lemma root_abspath: "rootPrefix = abspath [''flowpipe'', ''flows'']"
  by (simp add: rootPrefix_def)

lemma plain_literals [simp]:
  "plain ''flowpipe''" "plain ''flows''" "plain ''schemas''" "plain ''active''" "plain ''versions''"
  "plain ''spec''" "plain ''status''"
  by (simp_all add: plain_def)

lemma plain_FormatUint [simp]: "plain (FormatUint v)"
proof -
  have "\<not> is_digit slash" "\<not> is_digit (CHR ''.'')" by (simp_all add: is_digit_def)
  then have "slash \<notin> set (FormatUint v)" "CHR ''.'' \<notin> set (FormatUint v)"
    using FormatUint_digits by blast+
  then show ?thesis unfolding plain_def by (metis FormatUint_nonempty list.set_intros(1))
qed

lemma flow_id_plain: "c \<in> set (flow_id name) \<Longrightarrow> plain c"
  using resolve_plain [of "[''flowpipe'', ''flows'']" name] by (simp add: flow_id_def)

lemma flow_id_slash_free: "c \<in> set (flow_id name) \<Longrightarrow> slash \<notin> set c"
  using flow_id_plain by blast

lemma flow_id_plain_name [simp]: "plain name \<Longrightarrow> flow_id name = [''flowpipe'', ''flows'', name]"
  by (simp add: flow_id_def resolve_plain_name)

lemma flowPrefix_path [key_simps]: "flowPrefix name = rooted (flow_id name)"
  by (simp add: flowPrefix_def root_abspath flow_id_def path_Join_name del: abspath_simps)

lemma flow_keys [key_simps]:
  "activeKey name = abspath (flow_id name @ [''active''])"
  "versionSpecKey name v = abspath (flow_id name @ [''versions'', FormatUint v, ''spec''])"
  "statusKey name = abspath (flow_id name @ [''status''])"
  by (simp_all add: activeKey_def versionSpecKey_def statusKey_def flowPrefix_path path_Join_rooted
      flow_id_plain del: abspath_simps)

lemma abspath_eq_iff:
  assumes "\<forall>c\<in>set cs. slash \<notin> set c" "\<forall>d\<in>set ds. slash \<notin> set d"
  shows "abspath cs = abspath ds \<longleftrightarrow> cs = ds"
  using abspath_inject [OF assms] by blast

lemma plain_slash_free: "plain c \<Longrightarrow> slash \<notin> set c"
  by blast

lemma flow_key_eqs [simp]:
  "activeKey n = activeKey n' \<longleftrightarrow> flow_id n = flow_id n'"
  "versionSpecKey n v = versionSpecKey n' v' \<longleftrightarrow> flow_id n = flow_id n' \<and> v = v'"
  "statusKey n = statusKey n' \<longleftrightarrow> flow_id n = flow_id n'"
  "activeKey n \<noteq> versionSpecKey n' v" "versionSpecKey n' v \<noteq> activeKey n"
  "activeKey n \<noteq> statusKey n'" "statusKey n' \<noteq> activeKey n"
  "versionSpecKey n v \<noteq> statusKey n'" "statusKey n' \<noteq> versionSpecKey n v"
  unfolding flow_keys
  by (subst abspath_eq_iff; auto simp: flow_id_slash_free plain_slash_free)+

section \<open>The abstract registry\<close>

text \<open>
  What a client can know of a flow: the active version, the specs by version and the status.
\<close>

record aflow =
  a_active :: "u64 option"
  a_specs :: "u64 \<Rightarrow> FlowSpec option"
  a_status :: "FlowStatus option"

definition active_of :: "keyspace \<Rightarrow> string \<Rightarrow> u64 option" where
  "active_of m name =
     (case m (activeKey name) of None \<Rightarrow> None | Some b \<Rightarrow> map_option of_nat (ParseUint b 64))"

definition spec_of :: "proto_codec \<Rightarrow> keyspace \<Rightarrow> string \<Rightarrow> u64 \<Rightarrow> FlowSpec option" where
  "spec_of pc m name v =
     (case m (versionSpecKey name v) of
        None \<Rightarrow> None
      | Some b \<Rightarrow> (case unmarshal_spec pc b of Inl _ \<Rightarrow> None | Inr s \<Rightarrow> Some s))"

definition status_of :: "proto_codec \<Rightarrow> keyspace \<Rightarrow> string \<Rightarrow> FlowStatus option" where
  "status_of pc m name =
     (case m (statusKey name) of
        None \<Rightarrow> None
      | Some b \<Rightarrow> (case unmarshal_status pc b of Inl _ \<Rightarrow> None | Inr t \<Rightarrow> Some t))"

definition aflow_of :: "proto_codec \<Rightarrow> keyspace \<Rightarrow> string \<Rightarrow> aflow" where
  "aflow_of pc m name =
     \<lparr>a_active = active_of m name, a_specs = spec_of pc m name, a_status = status_of pc m name\<rparr>"

lemma aflow_of_sels:
  "a_active (aflow_of pc m n) = active_of m n" "a_specs (aflow_of pc m n) = spec_of pc m n"
  "a_status (aflow_of pc m n) = status_of pc m n"
  by (simp_all add: aflow_of_def)

definition a_next :: "aflow \<Rightarrow> u64" where
  "a_next a = (case a_active a of None \<Rightarrow> 1 | Some p \<Rightarrow> p + 1)"

definition a_create :: "FlowSpec \<Rightarrow> aflow \<Rightarrow> aflow" where
  "a_create sp a =
     a\<lparr>a_active := Some (a_next a),
       a_specs := (a_specs a)(a_next a \<mapsto> sp\<lparr>fs_Version := a_next a\<rparr>)\<rparr>"

definition a_rollback :: "u64 \<Rightarrow> aflow \<Rightarrow> aflow" where
  "a_rollback v a = a\<lparr>a_active := Some v\<rparr>"

definition a_empty :: aflow where
  "a_empty = \<lparr>a_active = None, a_specs = (\<lambda>_. None), a_status = None\<rparr>"

section \<open>Store laws\<close>

text \<open>The store over an etcd client and a codec that behave as documented.\<close>

locale etcd_store = etcd cli kvs + proto_spec pc
  for cli :: "'w etcd_client" and kvs :: "'w \<Rightarrow> keyspace" and pc :: proto_codec

text \<open>The effect of a successful commit on the key space.\<close>

definition committed :: "proto_codec \<Rightarrow> string \<Rightarrow> FlowSpec \<Rightarrow> kv list \<Rightarrow> u64 \<Rightarrow> keyspace \<Rightarrow> keyspace \<Rightarrow> bool" where
  "committed pc n sp resp nv m m' \<longleftrightarrow>
     nextVersion resp = Inr nv
     \<and> m (activeKey n) = (case resp of [] \<Rightarrow> None | kv # _ \<Rightarrow> Some (kv_Value kv))
     \<and> (\<exists>b. marshal_spec pc (sp\<lparr>fs_Version := nv\<rparr>) = Inr b
          \<and> m' = m(versionSpecKey n nv \<mapsto> b, activeKey n \<mapsto> FormatUint nv))"

lemma of_nat_ParseUint [simp]: "map_option of_nat (ParseUint (FormatUint v) 64) = Some v"
  by (simp add: ParseUint_FormatUint)

lemma same_id_keys:
  assumes "flow_id n = flow_id n'"
  shows "activeKey n = activeKey n'" "versionSpecKey n v = versionSpecKey n' v" "statusKey n = statusKey n'"
  unfolding flow_keys assms by (rule refl)+

lemma aflow_of_same_id:
  assumes "flow_id n = flow_id n'"
  shows "aflow_of pc m n = aflow_of pc m n'"
  unfolding aflow_of_def active_of_def spec_of_def [abs_def] status_of_def same_id_keys [OF assms]
  by (rule refl)

lemma committed_next: "committed pc n sp resp nv m m' \<Longrightarrow> nv = a_next (aflow_of pc m n)"
  by (auto simp: committed_def nextVersion_def a_next_def aflow_of_def active_of_def
      split: list.splits option.splits)

lemma active_of_commit:
  "active_of (m(versionSpecKey n v \<mapsto> b, activeKey n \<mapsto> FormatUint v)) n' =
     (if flow_id n' = flow_id n then Some v else active_of m n')"
  by (simp add: active_of_def)

lemma spec_of_commit:
  "spec_of pc (m(versionSpecKey n v \<mapsto> b, activeKey n \<mapsto> c)) n' v' =
     (if flow_id n' = flow_id n \<and> v' = v
      then (case unmarshal_spec pc b of Inl _ \<Rightarrow> None | Inr s \<Rightarrow> Some s)
      else spec_of pc m n' v')"
  by (simp add: spec_of_def)

lemma status_of_commit:
  "status_of pc (m(versionSpecKey n v \<mapsto> b, activeKey n \<mapsto> c)) n' = status_of pc m n'"
  by (simp add: status_of_def)

lemma aflow_of_pointer:
  "aflow_of pc (m(activeKey n \<mapsto> FormatUint v)) n' =
     (if flow_id n' = flow_id n then a_rollback v (aflow_of pc m n') else aflow_of pc m n')"
  by (simp add: aflow_of_def active_of_def spec_of_def [abs_def] status_of_def a_rollback_def)

context etcd_store
begin

lemma commitVersion_cases:
  assumes "commitVersion cli pc n sp resp w = (r, w')"
  shows "(kvs w' = kvs w \<and> (\<exists>e. r = Inl e)) \<or>
    (\<exists>nv. committed pc n sp resp nv (kvs w) (kvs w')
       \<and> (r = Inr \<lparr>fl_Name = n, fl_Version = nv, fl_Spec = Some (sp\<lparr>fs_Version := nv\<rparr>), fl_Status = None\<rparr>
          \<or> (\<exists>e. r = Inl (ErrEtcd e))))"
proof (cases "nextVersion resp")
  case (Inr nv)
  show ?thesis
  proof (cases "marshal_spec pc (sp\<lparr>fs_Version := nv\<rparr>)")
    case (Inr b)
    define cmp where "cmp = (case resp of [] \<Rightarrow> CreateRevisionIsZero (activeKey n)
      | kv # _ \<Rightarrow> ValueEquals (activeKey n) (kv_Value kv))"
    define ops where "ops = [OpPut (versionSpecKey n nv) b, OpPut (activeKey n) (FormatUint nv)]"
    obtain r' w1 where txn: "cli_Txn cli [cmp] ops w = (r', w1)" by fastforce
    have cmp: "cmp_holds (kvs w) cmp \<longleftrightarrow>
        kvs w (activeKey n) = (case resp of [] \<Rightarrow> None | kv # _ \<Rightarrow> Some (kv_Value kv))"
      by (auto simp: cmp_def split: list.splits)
    have eff: "committed pc n sp resp nv (kvs w) (apply_ops ops (kvs w))" if "cmp_holds (kvs w) cmp"
      using that cmp \<open>nextVersion resp = Inr nv\<close> Inr by (auto simp: committed_def ops_def)
    have r: "(r, w') = (case r' of Inl e \<Rightarrow> (Inl (ErrEtcd e), w1)
        | Inr ok \<Rightarrow> if \<not> ok then (Inl (ErrFlowModified n), w1)
            else (Inr \<lparr>fl_Name = n, fl_Version = nv, fl_Spec = Some (sp\<lparr>fs_Version := nv\<rparr>), fl_Status = None\<rparr>, w1))"
      using assms \<open>nextVersion resp = Inr nv\<close> Inr txn
      by (simp add: commitVersion_def Let_def cmp_def ops_def split: sum.splits)
    show ?thesis
    proof (cases r')
      case (Inl e)
      with r Txn_err [of "[cmp]" ops w e w1] txn eff show ?thesis by auto
    next
      case (Inr ok)
      with r Txn_ok [of "[cmp]" ops w ok w1] txn eff show ?thesis
        by (cases ok) auto
    qed
  qed (use assms \<open>nextVersion resp = Inr nv\<close> in \<open>auto simp: commitVersion_def\<close>)
qed (use assms in \<open>auto simp: commitVersion_def\<close>)

lemma committed_refines:
  assumes "committed pc n sp resp nv m m'"
  shows "aflow_of pc m' n' =
    (if flow_id n' = flow_id n then a_create sp (aflow_of pc m n) else aflow_of pc m n')"
proof -
  have nv: "nv = a_next (aflow_of pc m n)" using committed_next assms by blast
  obtain b where b: "marshal_spec pc (sp\<lparr>fs_Version := nv\<rparr>) = Inr b"
    and m': "m' = m(versionSpecKey n nv \<mapsto> b, activeKey n \<mapsto> FormatUint nv)"
    using assms by (auto simp: committed_def)
  have u: "unmarshal_spec pc b = Inr (sp\<lparr>fs_Version := nv\<rparr>)" by (rule spec_roundtrip) (rule b)
  show ?thesis
  proof (cases "flow_id n' = flow_id n")
    case True
    then have "aflow_of pc m' n' = aflow_of pc m' n" by (rule aflow_of_same_id)
    also have "\<dots> = a_create sp (aflow_of pc m n)"
      unfolding m' using u nv
      by (simp add: aflow_of_def a_create_def active_of_commit spec_of_commit status_of_commit fun_eq_iff)
    finally show ?thesis using True by simp
  next
    case False
    then show ?thesis unfolding m'
      by (simp add: aflow_of_def active_of_commit spec_of_commit status_of_commit fun_eq_iff)
  qed
qed

lemma createNewVersion_cases:
  assumes "createNewVersion cli pc n sp w = (r, w')"
  shows "(kvs w' = kvs w \<and> (\<exists>e. r = Inl e)) \<or>
    (\<exists>resp nv. committed pc n sp resp nv (kvs w) (kvs w')
       \<and> (r = Inr \<lparr>fl_Name = n, fl_Version = nv, fl_Spec = Some (sp\<lparr>fs_Version := nv\<rparr>), fl_Status = None\<rparr>
          \<or> (\<exists>e. r = Inl (ErrEtcd e))))"
proof -
  obtain g w1 where get: "cli_Get cli (activeKey n) w = (g, w1)" by fastforce
  then have k: "kvs w1 = kvs w" using Get_law by blast
  show ?thesis
  proof (cases g)
    case (Inl e)
    with get assms k show ?thesis by (auto simp: createNewVersion_def)
  next
    case (Inr resp)
    with get assms have "commitVersion cli pc n sp resp w1 = (r, w')"
      by (simp add: createNewVersion_def)
    from commitVersion_cases [OF this] show ?thesis unfolding k by blast
  qed
qed

lemma createNewVersion_refines:
  assumes "createNewVersion cli pc n sp w = (Inr f, w')"
  shows "aflow_of pc (kvs w') n' =
      (if flow_id n' = flow_id n then a_create sp (aflow_of pc (kvs w) n) else aflow_of pc (kvs w) n')"
    and "fl_Name f = n \<and> fl_Version f = a_next (aflow_of pc (kvs w) n)
      \<and> fl_Spec f = Some (sp\<lparr>fs_Version := fl_Version f\<rparr>) \<and> fl_Status f = None"
  using createNewVersion_cases [OF assms] committed_refines committed_next by fastforce+

lemma GetFlowStatus_view:
  assumes "GetFlowStatus cli pc n w = (r, w')"
  shows "kvs w' = kvs w" "r = Inr (Some t) \<Longrightarrow> status_of pc (kvs w) n = Some t"
proof -
  obtain g w1 where get: "cli_Get cli (statusKey n) w = (g, w1)" by fastforce
  have w': "w' = w1"
    using assms get by (auto simp: GetFlowStatus_def split: sum.splits list.splits)
  then show "kvs w' = kvs w" using Get_law [OF get] by simp
  assume r: "r = Inr (Some t)"
  then obtain x xs where "g = Inr (x # xs)" "unmarshal_status pc (kv_Value x) = Inr t"
    using assms get by (auto simp: GetFlowStatus_def split: sum.splits list.splits)
  with get show "status_of pc (kvs w) n = Some t"
    by (auto simp: status_of_def dest: Get_ConsD)
qed

lemma GetFlow_pure: "GetFlow cli pc n w = (r, w') \<Longrightarrow> kvs w' = kvs w"
  by (auto simp: GetFlow_def Let_def split: prod.splits sum.splits list.splits option.splits
      dest!: Get_law GetFlowStatus_view(1))

lemma GetFlow_ok:
  assumes "GetFlow cli pc n w = (Inr f, w')"
  shows "fl_Name f = n \<and> active_of (kvs w) n = Some (fl_Version f)
    \<and> fl_Spec f = spec_of pc (kvs w) n (fl_Version f) \<and> fl_Spec f \<noteq> None
    \<and> (fl_Status f = None \<or> fl_Status f = status_of pc (kvs w) n)"
proof -
  obtain x xs w1 k where 1: "cli_Get cli (activeKey n) w = (Inr (x # xs), w1)"
    "ParseUint (kv_Value x) 64 = Some k"
    using assms by (auto simp: GetFlow_def split: prod.splits sum.splits list.splits option.splits)
  obtain y ys w2 sp where 2: "cli_Get cli (versionSpecKey n (of_nat k)) w1 = (Inr (y # ys), w2)"
    "unmarshal_spec pc (kv_Value y) = Inr sp"
    using assms 1 by (auto simp: GetFlow_def Let_def split: prod.splits sum.splits list.splits)
  obtain st w3 where 3: "GetFlowStatus cli pc n w2 = (st, w3)" by fastforce
  have f: "f = \<lparr>fl_Name = n, fl_Version = of_nat k, fl_Spec = Some sp,
      fl_Status = (case st of Inl _ \<Rightarrow> None | Inr s \<Rightarrow> s)\<rparr>"
    using assms 1 2 3 by (simp add: GetFlow_def Let_def)
  have k: "kvs w1 = kvs w" "kvs w2 = kvs w" using Get_law [OF 1(1)] Get_law [OF 2(1)] by simp_all
  have "fl_Status f = None \<or> fl_Status f = status_of pc (kvs w) n"
    using GetFlowStatus_view(2) [OF 3] k by (cases st; cases "projr st") (auto simp: f)
  moreover have "active_of (kvs w) n = Some (of_nat k)" "spec_of pc (kvs w) n (of_nat k) = Some sp"
    using Get_ConsD [OF 1(1)] Get_ConsD [OF 2(1)] 1(2) 2(2) k by (simp_all add: active_of_def spec_of_def)
  ultimately show ?thesis by (simp add: f)
qed

text \<open>An error of \<^verbatim>\<open>GetFlow\<close> names what the key space lacks, unless it comes from etcd.\<close>

lemma GetFlow_err:
  assumes "GetFlow cli pc n w = (Inl e, w')"
  shows "(\<exists>x. e = ErrEtcd x)
    \<or> (e = ErrFlowNotFound n \<and> kvs w (activeKey n) = None)
    \<or> (e = ErrInvalidActiveVersion \<and> active_of (kvs w) n = None \<and> kvs w (activeKey n) \<noteq> None)
    \<or> (\<exists>v. active_of (kvs w) n = Some v \<and> spec_of pc (kvs w) n v = None
         \<and> (if kvs w (versionSpecKey n v) = None then e = ErrSpecMissing n v else \<exists>x. e = ErrProto x))"
proof -
  obtain g w1 where 1: "cli_Get cli (activeKey n) w = (g, w1)" by fastforce
  have k: "kvs w1 = kvs w" using Get_law [OF 1] by simp
  consider x where "g = Inl x" | "g = Inr []" | x xs where "g = Inr (x # xs)"
    by (cases g; cases "projr g") auto
  then show ?thesis
  proof cases
    case 3
    show ?thesis
    proof (cases "ParseUint (kv_Value x) 64")
      case None
      with 1 3 assms show ?thesis
        by (auto simp: GetFlow_def active_of_def dest!: Get_ConsD)
    next
      case (Some v)
      obtain h w2 where 2: "cli_Get cli (versionSpecKey n (of_nat v)) w1 = (h, w2)" by fastforce
      have a: "active_of (kvs w) n = Some (of_nat v)"
        using Get_ConsD 1 3 Some by (auto simp: active_of_def)
      consider y where "h = Inl y" | "h = Inr []" | y ys where "h = Inr (y # ys)"
        by (cases h; cases "projr h") auto
      then show ?thesis
      proof cases
        case 3
        with 2 have "kvs w (versionSpecKey n (of_nat v)) = Some (kv_Value y)"
          using Get_ConsD k by metis
        with assms 1 \<open>g = Inr (x # xs)\<close> Some 2 3 a show ?thesis
          by (auto simp: GetFlow_def Let_def spec_of_def split: sum.splits prod.splits)
      next
        case 2
        with \<open>cli_Get cli (versionSpecKey n (of_nat v)) w1 = (h, w2)\<close>
        have "kvs w (versionSpecKey n (of_nat v)) = None" using Get_Nil_iff k by metis
        with assms 1 \<open>g = Inr (x # xs)\<close> Some \<open>cli_Get cli (versionSpecKey n (of_nat v)) w1 = (h, w2)\<close> 2 a
        show ?thesis by (auto simp: GetFlow_def Let_def spec_of_def)
      qed (use assms 1 \<open>g = Inr (x # xs)\<close> Some 2 in \<open>auto simp: GetFlow_def Let_def\<close>)
    qed
  qed (use assms 1 in \<open>auto simp: GetFlow_def dest: Get_Nil_iff\<close>)
qed

lemma checkRollback_cases:
  assumes "checkRollback cli n v w = (r, w')"
  shows "kvs w' = kvs w"
    and "r = Inr u \<Longrightarrow> kvs w (versionSpecKey n v) \<noteq> None"
    and "r = Inl e \<Longrightarrow> (\<exists>x. e = ErrEtcd x) \<or> e = ErrVersionMissing v \<and> kvs w (versionSpecKey n v) = None"
proof -
  obtain g w1 where g: "cli_Get cli (versionSpecKey n v) w = (g, w1)" by fastforce
  have w1: "w' = w1" using assms g by (auto simp: checkRollback_def split: sum.splits list.splits)
  then show "kvs w' = kvs w" using Get_law [OF g] by simp
  consider x where "g = Inl x" | "g = Inr []" | x xs where "g = Inr (x # xs)"
    by (cases g; cases "projr g") auto
  then have "(r = Inr u \<longrightarrow> kvs w (versionSpecKey n v) \<noteq> None)
      \<and> (r = Inl e \<longrightarrow> (\<exists>x. e = ErrEtcd x) \<or> e = ErrVersionMissing v \<and> kvs w (versionSpecKey n v) = None)"
    by cases (use assms g Get_ConsD Get_Nil_iff in \<open>auto simp: checkRollback_def\<close>)
  then show "r = Inr u \<Longrightarrow> kvs w (versionSpecKey n v) \<noteq> None"
    and "r = Inl e \<Longrightarrow> (\<exists>x. e = ErrEtcd x) \<or> e = ErrVersionMissing v \<and> kvs w (versionSpecKey n v) = None" by blast+
qed

lemma putRollback_cases:
  assumes "putRollback cli n v w = (r, w')"
  shows "kvs w' = (kvs w)(activeKey n \<mapsto> FormatUint v) \<or> isl r \<and> kvs w' = kvs w"
    and "r = Inl e \<Longrightarrow> \<exists>x. e = ErrEtcd x"
proof -
  obtain u w1 where u: "cli_Put cli (activeKey n) (FormatUint v) w = (u, w1)" by fastforce
  show "kvs w' = (kvs w)(activeKey n \<mapsto> FormatUint v) \<or> isl r \<and> kvs w' = kvs w"
    using assms u Put_ok [of "activeKey n" "FormatUint v" w w1] Put_err [of "activeKey n" "FormatUint v" w _ w1]
    by (cases u) (auto simp: putRollback_def)
  show "r = Inl e \<Longrightarrow> \<exists>x. e = ErrEtcd x" using assms u by (cases u) (auto simp: putRollback_def)
qed

lemma RollbackFlow_cases:
  assumes "RollbackFlow cli pc n v w = (r, w')"
  shows "(kvs w' = kvs w \<and> ((\<exists>e. r = Inl (ErrEtcd e))
            \<or> (r = Inl (ErrVersionMissing v) \<and> kvs w (versionSpecKey n v) = None)))
    \<or> (kvs w (versionSpecKey n v) \<noteq> None \<and> kvs w' = (kvs w)(activeKey n \<mapsto> FormatUint v)
         \<and> ((\<exists>e. r = Inl (ErrEtcd e)) \<or> (\<exists>w2. kvs w2 = kvs w' \<and> GetFlow cli pc n w2 = (r, w'))))"
proof -
  obtain g w1 where g: "checkRollback cli n v w = (g, w1)" by fastforce
  note c = checkRollback_cases [OF g]
  show ?thesis
  proof (cases g)
    case (Inl e)
    then show ?thesis using assms g c(1) c(3) [OF Inl] by (auto simp: RollbackFlow_def)
  next
    case (Inr u)
    obtain p w2 where p: "putRollback cli n v w1 = (p, w2)" by fastforce
    note q = putRollback_cases [OF p] and ex = c(2) [OF Inr]
    show ?thesis
    proof (cases p)
      case (Inl e)
      then have "r = Inl e" "w' = w2" using assms g Inr p by (simp_all add: RollbackFlow_def \<open>g = Inr u\<close>)
      then show ?thesis using q(1) q(2) [OF Inl] ex c(1) by auto
    next
      case (Inr u')
      then have f: "GetFlow cli pc n w2 = (r, w')" using assms g p by (simp add: RollbackFlow_def \<open>g = Inr u\<close>)
      have "kvs w2 = (kvs w)(activeKey n \<mapsto> FormatUint v)" using q(1) Inr c(1) by simp
      then show ?thesis using f GetFlow_pure [OF f] ex by auto
    qed
  qed
qed

lemma DeleteFlow_cases:
  assumes "DeleteFlow cli n w = (r, w')"
  shows "(\<exists>e. r = Inl (ErrEtcd e)) \<and> kvs w' = kvs w \<or> kvs w' = delete_prefix (flowPrefix n) (kvs w)"
proof -
  obtain d w1 where d: "cli_DeletePrefix cli (flowPrefix n) w = (d, w1)" by fastforce
  then have "w' = w1" using assms by (auto simp: DeleteFlow_def split: sum.splits)
  with d assms DeletePrefix_ok [of "flowPrefix n" w w1] DeletePrefix_err [of "flowPrefix n" w _ w1]
  show ?thesis by (cases d) (auto simp: DeleteFlow_def)
qed

end

text \<open>
  The keys of a flow with a plain name begin with the prefix of another one exactly when the name
  does: the prefix has no slash at its end.
\<close>

lemma flow_keys_prefix:
  assumes "plain n" "plain n'"
  shows "prefix (flowPrefix n) (activeKey n') \<longleftrightarrow> prefix n n'"
    "prefix (flowPrefix n) (versionSpecKey n' v) \<longleftrightarrow> prefix n n'"
    "prefix (flowPrefix n) (statusKey n') \<longleftrightarrow> prefix n n'"
proof -
  have n: "slash \<notin> set n" using assms(1) by blast
  have *: "prefix (flowPrefix n) (abspath (flow_id n' @ ds)) \<longleftrightarrow> prefix n n'" for ds
    using prefix_abspath [OF n, of "[''flowpipe'', ''flows'']" n' ds] assms
    by (simp add: flowPrefix_path rooted_def)
  show "prefix (flowPrefix n) (activeKey n') \<longleftrightarrow> prefix n n'"
    "prefix (flowPrefix n) (versionSpecKey n' v) \<longleftrightarrow> prefix n n'"
    "prefix (flowPrefix n) (statusKey n') \<longleftrightarrow> prefix n n'"
    unfolding flow_keys by (rule *)+
qed

lemma aflow_of_delete:
  assumes "plain n" "plain n'"
  shows "aflow_of pc (delete_prefix (flowPrefix n) m) n' = (if prefix n n' then a_empty else aflow_of pc m n')"
  using flow_keys_prefix [OF assms]
  by (simp add: aflow_of_def active_of_def spec_of_def [abs_def] status_of_def delete_prefix_def a_empty_def)

section \<open>The contract of the store interface\<close>

text \<open>
  The promise of \<^verbatim>\<open>APIStore\<close> (\<^verbatim>\<open>api/internal/store/store.go\<close>) to the services, over the abstract registry:
  \<open>view\<close> is the registry's state of a name, \<open>same\<close> relates the names of one flow.
\<close>

definition stored :: "(string \<Rightarrow> aflow) \<Rightarrow> (string \<Rightarrow> string \<Rightarrow> bool) \<Rightarrow> string \<Rightarrow> FlowSpec \<Rightarrow> Flow \<Rightarrow> (string \<Rightarrow> aflow) \<Rightarrow> bool" where
  "stored before same n s f after \<longleftrightarrow>
     fl_Name f = n \<and> fl_Version f = a_next (before n) \<and> fl_Spec f = Some (s\<lparr>fs_Version := fl_Version f\<rparr>)
     \<and> (\<forall>n'. after n' = (if same n' n then a_create s (before n) else before n'))"

locale flow_store =
  fixes create :: "FlowSpec option \<Rightarrow> 'w \<Rightarrow> (store_error + Flow) \<times> 'w"
    and update :: "string \<Rightarrow> FlowSpec option \<Rightarrow> 'w \<Rightarrow> (store_error + Flow) \<times> 'w"
    and get :: "string \<Rightarrow> 'w \<Rightarrow> (store_error + Flow) \<times> 'w"
    and rollback :: "string \<Rightarrow> u64 \<Rightarrow> 'w \<Rightarrow> (store_error + Flow) \<times> 'w"
    and view :: "'w \<Rightarrow> string \<Rightarrow> aflow"
    and same :: "string \<Rightarrow> string \<Rightarrow> bool"
  assumes same_refl: "same n n"
    and create_law: "create sp w = (Inr f, w') \<Longrightarrow>
      \<exists>s. sp = Some s \<and> fs_Name s \<noteq> '''' \<and> stored (view w) same (fs_Name s) s f (view w')"
    and update_law: "update n sp w = (Inr f, w') \<Longrightarrow>
      \<exists>s. sp = Some s \<and> stored (view w) same n (s\<lparr>fs_Name := n\<rparr>) f (view w')"
    and get_law: "get n w = (r, w') \<Longrightarrow> view w' = view w
      \<and> (\<forall>f. r = Inr f \<longrightarrow> fl_Name f = n \<and> a_active (view w n) = Some (fl_Version f)
            \<and> fl_Spec f = a_specs (view w n) (fl_Version f))
      \<and> (\<forall>e. r = Inl e \<longrightarrow> (\<exists>x. e = ErrEtcd x)
            \<or> (\<forall>v. a_active (view w n) = Some v \<longrightarrow> a_specs (view w n) v = None))"
    and rollback_law: "rollback n v w = (Inr f, w') \<Longrightarrow>
      fl_Name f = n \<and> fl_Version f = v \<and> fl_Spec f = a_specs (view w n) v \<and> fl_Spec f \<noteq> None
      \<and> (\<forall>n'. view w' n' = (if same n' n then a_rollback v (view w n') else view w n'))"
begin

lemma get_after_store:
  assumes st: "stored before same n s f (view w1)" and get: "get n w1 = (r, w2)"
  shows "(\<exists>e. r = Inl (ErrEtcd e))
    \<or> (\<exists>f'. r = Inr f' \<and> fl_Name f' = n \<and> fl_Version f' = fl_Version f \<and> fl_Spec f' = fl_Spec f)"
proof -
  have v: "view w1 n = a_create s (before n)" "fl_Version f = a_next (before n)"
    "fl_Spec f = Some (s\<lparr>fs_Version := fl_Version f\<rparr>)"
    using st same_refl by (auto simp: stored_def)
  then have a: "a_active (view w1 n) = Some (fl_Version f)" "a_specs (view w1 n) (fl_Version f) = fl_Spec f"
    by (simp_all add: a_create_def)
  with get_law [OF get] v(3) show ?thesis by (cases r) auto
qed

lemma read_your_create:
  assumes "create sp w = (Inr f, w1)" "get (fl_Name f) w1 = (r, w2)"
  shows "(\<exists>e. r = Inl (ErrEtcd e))
    \<or> (\<exists>f'. r = Inr f' \<and> fl_Name f' = fl_Name f \<and> fl_Version f' = fl_Version f \<and> fl_Spec f' = fl_Spec f)"
proof -
  obtain s where "stored (view w) same (fs_Name s) s f (view w1)" using create_law [OF assms(1)] by blast
  moreover from this have "fl_Name f = fs_Name s" by (simp add: stored_def)
  ultimately show ?thesis using get_after_store assms(2) by metis
qed

text \<open>The version after a rollback is the one after the version rolled back to.\<close>

lemma update_after_rollback:
  assumes "rollback n v w = (Inr f0, w1)" "update n (Some s) w1 = (Inr f, w2)"
  shows "fl_Version f = v + 1 \<and> a_active (view w2 n) = Some (v + 1)
    \<and> a_specs (view w2 n) (v + 1) = Some (s\<lparr>fs_Name := n, fs_Version := v + 1\<rparr>)"
proof -
  have "view w1 n = a_rollback v (view w n)"
    using rollback_law [OF assms(1)] same_refl by auto
  then have "a_next (view w1 n) = v + 1" by (simp add: a_next_def a_rollback_def)
  moreover have "stored (view w1) same n (s\<lparr>fs_Name := n\<rparr>) f (view w2)"
    using update_law [OF assms(2)] by auto
  ultimately show ?thesis
    using same_refl by (simp add: stored_def a_create_def)
qed

text \<open>Rolling back does not change any stored spec.\<close>

lemma rollback_keeps_specs:
  "rollback n v w = (Inr f, w') \<Longrightarrow> a_specs (view w' n') = a_specs (view w n')"
  by (drule rollback_law) (simp add: a_rollback_def)

end

sublocale etcd_store \<subseteq> api: flow_store
  "CreateFlow cli pc" "UpdateFlow cli pc" "GetFlow cli pc" "RollbackFlow cli pc"
  "\<lambda>w. aflow_of pc (kvs w)" "\<lambda>n n'. flow_id n = flow_id n'"
proof (unfold_locales, goal_cases)
  case (2 sp w f w')
  then obtain s where s: "sp = Some s" "fs_Name s \<noteq> ''''"
    "createNewVersion cli pc (fs_Name s) s w = (Inr f, w')"
    by (auto simp: CreateFlow_def split: option.splits if_splits)
  with createNewVersion_refines [OF s(3)] show ?case by (auto simp: stored_def)
next
  case (3 n sp w f w')
  then obtain s where s: "sp = Some s" "createNewVersion cli pc n (s\<lparr>fs_Name := n\<rparr>) w = (Inr f, w')"
    by (auto simp: UpdateFlow_def split: option.splits)
  with createNewVersion_refines [OF s(2)] show ?case by (auto simp: stored_def)
next
  case (4 n w r w')
  show ?case
    using GetFlow_pure [OF 4] 4 GetFlow_ok [of n w _ w'] GetFlow_err [of n w _ w']
    by (cases r) (fastforce simp: aflow_of_def active_of_def)+
next
  case (5 n v w f w')
  from RollbackFlow_cases [OF 5] obtain w2 where k: "kvs w' = (kvs w)(activeKey n \<mapsto> FormatUint v)"
    "kvs w2 = kvs w'" and g: "GetFlow cli pc n w2 = (Inr f, w')" by auto
  have "active_of (kvs w2) n = Some v" by (simp add: k active_of_def)
  moreover have "spec_of pc (kvs w2) n = spec_of pc (kvs w) n" by (simp add: k spec_of_def [abs_def])
  ultimately have "fl_Name f = n" "fl_Version f = v" "fl_Spec f = spec_of pc (kvs w) n v"
    using GetFlow_ok [OF g] by auto
  moreover have "fl_Spec f \<noteq> None" using GetFlow_ok [OF g] by blast
  ultimately show ?case
    using aflow_of_pointer [of pc "kvs w" n v] by (simp add: k aflow_of_sels)
qed simp

interpretation memstore: etcd_store mem_client mem_view mini_codec
  by unfold_locales

section \<open>Listing\<close>

text \<open>What a flow returned by a read says of the key space.\<close>

definition flow_view :: "proto_codec \<Rightarrow> keyspace \<Rightarrow> Flow \<Rightarrow> bool" where
  "flow_view pc m f \<longleftrightarrow> active_of m (fl_Name f) = Some (fl_Version f)
     \<and> fl_Spec f = spec_of pc m (fl_Name f) (fl_Version f) \<and> fl_Spec f \<noteq> None
     \<and> (fl_Status f = None \<or> fl_Status f = status_of pc m (fl_Name f))"

lemma flow_viewD:
  "flow_view pc m f \<Longrightarrow> active_of m (fl_Name f) = Some (fl_Version f)
     \<and> (\<exists>sp. fl_Spec f = Some sp \<and> spec_of pc m (fl_Name f) (fl_Version f) = Some sp)"
  unfolding flow_view_def by (metis not_None_eq)

text \<open>The name the loop reads off a key.\<close>

definition listed_name :: "kv \<Rightarrow> string" where
  "listed_name x = TrimSuffix (TrimPrefix (kv_Key x) (rootPrefix @ ''/'')) ''/active''"

definition listed_names :: "kv list \<Rightarrow> string set" where
  "listed_names xs = listed_name ` {x \<in> set xs. HasSuffix (kv_Key x) ''/active''}"

lemma listed_names_simps [simp]:
  "listed_names [] = {}"
  "listed_names (x # xs) =
     (if HasSuffix (kv_Key x) ''/active'' then insert (listed_name x) (listed_names xs) else listed_names xs)"
  by (auto simp: listed_names_def)

lemma listed_name_active:
  assumes "plain n" "kv_Key x = activeKey n"
  shows "HasSuffix (kv_Key x) ''/active'' \<and> listed_name x = n \<and> prefix rootPrefix (kv_Key x)"
proof -
  have k: "kv_Key x = (rootPrefix @ ''/'') @ (n @ ''/active'')"
    using assms by (simp add: flow_keys rootPrefix_def)
  then have "HasSuffix (kv_Key x) ''/active''"
    by (metis HasSuffix_iff append_assoc suffixI)
  then show ?thesis
    unfolding listed_name_def k TrimPrefix_append TrimSuffix_append
    by (simp add: rootPrefix_def)
qed

text \<open>
  A client whose reads all succeed from a given set of worlds on: no fault is pending there.
\<close>

definition quiet_reads :: "'w etcd_client \<Rightarrow> ('w \<Rightarrow> bool) \<Rightarrow> bool" where
  "quiet_reads cli quiet \<longleftrightarrow>
     (\<forall>k w. quiet w \<longrightarrow> (case cli_Get cli k w of (r, w') \<Rightarrow> \<not> isl r \<and> quiet w'))"

lemma quiet_readsD:
  assumes "quiet_reads cli quiet" "quiet w" "cli_Get cli k w = (r, w')"
  shows "(\<exists>xs. r = Inr xs) \<and> quiet w'"
proof -
  have "case cli_Get cli k w of (r, w') \<Rightarrow> \<not> isl r \<and> quiet w'"
    using assms(1,2) by (simp only: quiet_reads_def)
  with assms(3) show ?thesis by (cases r) simp_all
qed

lemma mem_quiet: "quiet_reads mem_client (\<lambda>w. mem_faults w = [])"
  by (simp add: quiet_reads_def mem_client_def mem_call_def faulty_def Let_def)

lemma GetFlow_quiet:
  assumes q: "quiet_reads cli quiet" "quiet w" and g: "GetFlow cli pc n w = (r, w')"
  shows "quiet w' \<and> (\<forall>x. r \<noteq> Inl (ErrEtcd x))"
proof -
  have st: "quiet u'" if "quiet u" "GetFlowStatus cli pc n u = (s, u')" for u s u'
    using that quiet_readsD [OF q(1)]
    by (auto simp: GetFlowStatus_def split: prod.splits sum.splits list.splits)
  show ?thesis
    using g q(2) by (auto simp: GetFlow_def Let_def split: prod.splits sum.splits list.splits option.splits
        dest: quiet_readsD [OF q(1)] st)
qed

context etcd_store
begin

lemma GetFlow_view: "GetFlow cli pc n w = (Inr f, w') \<Longrightarrow> flow_view pc (kvs w) f \<and> fl_Name f = n"
  unfolding flow_view_def using GetFlow_ok by blast

text \<open>The loop appends flows it has not seen, each as the key space has it.\<close>

lemma list_flows_loop_sound:
  "list_flows_loop cli pc seen out xs w = (out', w') \<Longrightarrow> kvs w' = kvs w \<and>
     (\<exists>new. out' = out @ new \<and> distinct (map fl_Name new) \<and> fl_Name ` set new \<inter> set seen = {}
        \<and> fl_Name ` set new \<subseteq> listed_names xs
        \<and> (\<forall>f\<in>set new. flow_view pc (kvs w) f))"
proof (induction xs arbitrary: seen out w)
  case (Cons x rest)
  obtain g w1 where g: "GetFlow cli pc (listed_name x) w = (g, w1)" by fastforce
  have k: "kvs w1 = kvs w" using GetFlow_pure [OF g] .
  show ?case
  proof (cases "HasSuffix (kv_Key x) ''/active'' \<and> listed_name x \<notin> set seen")
    case True
    show ?thesis
    proof (cases g)
      case (Inl e)
      with True g Cons.prems have "list_flows_loop cli pc (listed_name x # seen) out rest w1 = (out', w')"
        by (simp add: listed_name_def)
      from Cons.IH [OF this] show ?thesis unfolding k by (auto simp: image_subset_iff)
    next
      case (Inr f)
      with True g Cons.prems
      have "list_flows_loop cli pc (listed_name x # seen) (out @ [f]) rest w1 = (out', w')"
        by (simp add: listed_name_def)
      from Cons.IH [OF this] obtain new where "kvs w' = kvs w" "out' = out @ f # new"
        "distinct (map fl_Name new)" "fl_Name ` set new \<inter> set (listed_name x # seen) = {}"
        "fl_Name ` set new \<subseteq> listed_names rest"
        "\<forall>f\<in>set new. flow_view pc (kvs w) f" unfolding k by auto
      with GetFlow_view g Inr True show ?thesis
        by (intro conjI exI [of _ "f # new"]) (auto simp: image_subset_iff)
    qed
  next
    case False
    with Cons.prems have "list_flows_loop cli pc seen out rest w = (out', w')"
      by (auto simp: listed_name_def Let_def split: if_splits)
    from Cons.IH [OF this] show ?thesis by auto
  qed
qed simp

text \<open>Without faults it skips no readable flow.\<close>

lemma list_flows_loop_complete:
  assumes q: "quiet_reads cli quiet"
  shows "list_flows_loop cli pc seen out xs w = (out', w') \<Longrightarrow> quiet w \<Longrightarrow>
     x \<in> set xs \<Longrightarrow> HasSuffix (kv_Key x) ''/active'' \<Longrightarrow> listed_name x \<notin> set seen \<Longrightarrow>
     active_of (kvs w) (listed_name x) = Some v \<Longrightarrow> spec_of pc (kvs w) (listed_name x) v \<noteq> None \<Longrightarrow>
     listed_name x \<in> fl_Name ` set out'"
proof (induction xs arbitrary: seen out w)
  case (Cons y rest)
  obtain g w1 where g: "GetFlow cli pc (listed_name y) w = (g, w1)" by fastforce
  have k: "kvs w1 = kvs w" using GetFlow_pure [OF g] .
  have q1: "quiet w1" and ne: "\<And>z. g \<noteq> Inl (ErrEtcd z)" using GetFlow_quiet [OF q Cons.prems(2) g] by auto
  show ?case
  proof (cases "HasSuffix (kv_Key y) ''/active'' \<and> listed_name y \<notin> set seen")
    case True
    define out1 where "out1 = (case g of Inl _ \<Rightarrow> out | Inr f \<Rightarrow> out @ [f])"
    have step: "list_flows_loop cli pc (listed_name y # seen) out1 rest w1 = (out', w')"
      using True g Cons.prems(1) by (cases g) (simp_all add: listed_name_def out1_def)
    show ?thesis
    proof (cases "listed_name x = listed_name y")
      case same: True
      have "\<exists>f. g = Inr f"
        using GetFlow_err [of "listed_name y" w _ w1] g ne Cons.prems(6,7) same
        by (cases g) (auto simp: active_of_def)
      then obtain f where "out1 = out @ [f]" "fl_Name f = listed_name y"
        using GetFlow_view g by (auto simp: out1_def)
      with list_flows_loop_sound [OF step] same show ?thesis by auto
    next
      case False
      then have "x \<in> set rest" using Cons.prems(3) by auto
      from Cons.IH [OF step q1 this] False Cons.prems k show ?thesis by auto
    qed
  next
    case False
    with Cons.prems(1) have step: "list_flows_loop cli pc seen out rest w = (out', w')"
      by (auto simp: listed_name_def Let_def split: if_splits)
    have "x \<in> set rest" using False Cons.prems(3-5) by auto
    from Cons.IH [OF step Cons.prems(2) this Cons.prems(4-7)] show ?thesis .
  qed
qed simp

lemma ListFlows_sound:
  assumes "ListFlows cli pc w = (Inr fs, w')"
  shows "kvs w' = kvs w \<and> distinct (map fl_Name fs) \<and> (\<forall>f\<in>set fs. flow_view pc (kvs w) f)"
    and "f \<in> set fs \<Longrightarrow> \<exists>x. prefix rootPrefix (kv_Key x) \<and> kvs w (kv_Key x) \<noteq> None
      \<and> HasSuffix (kv_Key x) ''/active'' \<and> fl_Name f = listed_name x"
proof -
  obtain xs w1 where 1: "cli_GetPrefix cli rootPrefix w = (Inr xs, w1)"
    "list_flows_loop cli pc [] [] xs w1 = (fs, w')"
    using assms by (auto simp: ListFlows_def split: prod.splits sum.splits)
  note sound = list_flows_loop_sound [OF 1(2)]
  from sound show "kvs w' = kvs w \<and> distinct (map fl_Name fs) \<and> (\<forall>f\<in>set fs. flow_view pc (kvs w) f)"
    using GetPrefix_law [OF 1(1)] by auto
  assume "f \<in> set fs"
  then obtain x where "x \<in> set xs" "HasSuffix (kv_Key x) ''/active''" "fl_Name f = listed_name x"
    using sound by (auto simp: listed_names_def)
  then show "\<exists>x. prefix rootPrefix (kv_Key x) \<and> kvs w (kv_Key x) \<noteq> None
      \<and> HasSuffix (kv_Key x) ''/active'' \<and> fl_Name f = listed_name x"
    using GetPrefix_law [OF 1(1)] by (intro exI [of _ x]) auto
qed

lemma ListFlows_complete:
  assumes l: "ListFlows cli pc w = (Inr fs, w')"
    and q: "quiet_reads cli quiet" "quiet (snd (cli_GetPrefix cli rootPrefix w))"
    and n: "plain n" "active_of (kvs w) n = Some v" "spec_of pc (kvs w) n v = Some s"
  shows "\<exists>f\<in>set fs. fl_Name f = n \<and> fl_Version f = v \<and> fl_Spec f = Some s"
proof -
  obtain xs w1 where 1: "cli_GetPrefix cli rootPrefix w = (Inr xs, w1)"
    "list_flows_loop cli pc [] [] xs w1 = (fs, w')"
    using l by (auto simp: ListFlows_def split: prod.splits sum.splits)
  have k: "kvs w1 = kvs w" using GetPrefix_law [OF 1(1)] by simp
  obtain b where b: "kvs w (activeKey n) = Some b"
    using n(2) by (auto simp: active_of_def split: option.splits)
  define x where "x = \<lparr>kv_Key = activeKey n, kv_Value = b\<rparr>"
  have x: "HasSuffix (kv_Key x) ''/active''" "listed_name x = n" "prefix rootPrefix (kv_Key x)"
    using listed_name_active [OF n(1), of x] by (auto simp: x_def)
  have "x \<in> set xs" using GetPrefix_law [OF 1(1)] b x(3) by (auto simp: x_def)
  from list_flows_loop_complete [OF q(1) 1(2) _ this x(1)] x(2) q(2) 1(1) n k
  have "n \<in> fl_Name ` set fs" by auto
  then obtain f where f: "f \<in> set fs" "fl_Name f = n" by auto
  with ListFlows_sound(1) [OF l] n(2,3) have "fl_Version f = v" "fl_Spec f = Some s"
    by (auto simp: flow_view_def)
  with f show ?thesis by blast
qed

lemma flow_store_api:
  "flow_store (CreateFlow cli pc) (UpdateFlow cli pc) (GetFlow cli pc) (RollbackFlow cli pc)
     (\<lambda>w. aflow_of pc (kvs w)) (\<lambda>n n'. flow_id n = flow_id n')"
  by (rule api.flow_store_axioms)

lemma CreateFlow_cases:
  assumes "CreateFlow cli pc sp w = (r, w')"
  shows "(r = Inl ErrFlowNameRequired \<and> w' = w \<and> (sp = None \<or> (\<exists>s. sp = Some s \<and> fs_Name s = '''')))
    \<or> (\<exists>s. sp = Some s \<and> fs_Name s \<noteq> ''''
         \<and> (isl r \<and> kvs w' = kvs w
            \<or> (\<exists>f. stored (aflow_of pc (kvs w)) (\<lambda>n n'. flow_id n = flow_id n') (fs_Name s) s f (aflow_of pc (kvs w'))
                 \<and> (r = Inr f \<or> (\<exists>e. r = Inl (ErrEtcd e))))))"
proof (cases "sp = None \<or> fs_Name (the sp) = ''''")
  case True
  with assms show ?thesis by (auto simp: CreateFlow_def split: option.splits)
next
  case False
  then obtain s where s: "sp = Some s" "fs_Name s \<noteq> ''''" by auto
  with assms have c: "createNewVersion cli pc (fs_Name s) s w = (r, w')" by (simp add: CreateFlow_def)
  from createNewVersion_cases [OF c] show ?thesis
  proof
    assume "kvs w' = kvs w \<and> (\<exists>e. r = Inl e)"
    with s show ?thesis by auto
  next
    assume "\<exists>resp nv. committed pc (fs_Name s) s resp nv (kvs w) (kvs w')
       \<and> (r = Inr \<lparr>fl_Name = fs_Name s, fl_Version = nv, fl_Spec = Some (s\<lparr>fs_Version := nv\<rparr>), fl_Status = None\<rparr>
          \<or> (\<exists>e. r = Inl (ErrEtcd e)))"
    then obtain resp nv where k: "committed pc (fs_Name s) s resp nv (kvs w) (kvs w')"
      and r: "r = Inr \<lparr>fl_Name = fs_Name s, fl_Version = nv, fl_Spec = Some (s\<lparr>fs_Version := nv\<rparr>), fl_Status = None\<rparr>
          \<or> (\<exists>e. r = Inl (ErrEtcd e))" by blast
    have "stored (aflow_of pc (kvs w)) (\<lambda>n n'. flow_id n = flow_id n') (fs_Name s) s
       \<lparr>fl_Name = fs_Name s, fl_Version = nv, fl_Spec = Some (s\<lparr>fs_Version := nv\<rparr>), fl_Status = None\<rparr>
       (aflow_of pc (kvs w'))"
      using committed_next [OF k] committed_refines [OF k] by (simp add: stored_def)
    with s r show ?thesis by blast
  qed
qed

end

section \<open>Properties\<close>

definition mem0 :: etcd_mem where
  "mem0 = \<lparr>mem_kvs = [], mem_faults = []\<rparr>"

definition foo_spec :: FlowSpec where
  "foo_spec = empty_spec\<lparr>fs_Name := ''foo''\<rparr>"

text \<open>The key space after versions 1 and 2 of \<^verbatim>\<open>foo\<close> and version 1 of \<^verbatim>\<open>foobar\<close>.\<close>

definition mem2 :: etcd_mem where
  "mem2 = \<lparr>mem_kvs = [(''/flowpipe/flows/foo/versions/1/spec'', ''e1:foo''),
      (''/flowpipe/flows/foo/active'', ''2''), (''/flowpipe/flows/foo/versions/2/spec'', ''e2:foo''),
      (''/flowpipe/flows/foobar/versions/1/spec'', ''e1:foobar''),
      (''/flowpipe/flows/foobar/active'', ''1'')], mem_faults = []\<rparr>"

text \<open>
  C1: on every outcome \<^verbatim>\<open>CreateFlow\<close> refines the abstract creation. A missing spec or name is refused
  without touching the store; otherwise the registry is either unchanged and an error is returned, or
  it holds the spec as the next version of that flow alone (atomically with the pointer), and
  the caller gets exactly that flow or, when the response was lost, an etcd error.
\<close>

theorem create_flow_refines:
  assumes "etcd_store cli kvs pc" "CreateFlow cli pc sp w = (r, w')"
  shows "(r = Inl ErrFlowNameRequired \<and> w' = w \<and> (sp = None \<or> (\<exists>s. sp = Some s \<and> fs_Name s = '''')))
    \<or> (\<exists>s. sp = Some s \<and> fs_Name s \<noteq> ''''
         \<and> (isl r \<and> kvs w' = kvs w
            \<or> (\<exists>f. stored (aflow_of pc (kvs w)) (\<lambda>n n'. flow_id n = flow_id n') (fs_Name s) s f (aflow_of pc (kvs w'))
                 \<and> (r = Inr f \<or> (\<exists>e. r = Inl (ErrEtcd e))))))"
  using etcd_store.CreateFlow_cases [OF assms] .

theorem create_flow_refines_witness:
  "\<exists>f w'. CreateFlow mem_client mini_codec (Some foo_spec) mem2 = (Inr f, w') \<and> fl_Version f = 3
     \<and> stored (aflow_of mini_codec (mem_view mem2)) (\<lambda>n n'. flow_id n = flow_id n') ''foo'' foo_spec f
         (aflow_of mini_codec (mem_view w'))"
proof -
  define p where "p = CreateFlow mem_client mini_codec (Some foo_spec) mem2"
  have r: "case fst p of Inl _ \<Rightarrow> False | Inr f \<Rightarrow> fl_Version f = 3" unfolding p_def by code_simp
  obtain f w' where p: "p = (Inr f, w')" using r by (cases p; cases "fst p") auto
  have "fs_Name foo_spec = ''foo''" by (simp add: foo_spec_def)
  with create_flow_refines [OF memstore.etcd_store_axioms p [unfolded p_def]] p r p_def show ?thesis by auto
qed

text \<open>
  C14: a flow that was created can be read back: unless etcd fails, \<^verbatim>\<open>GetFlow\<close> right after a successful
  \<^verbatim>\<open>CreateFlow\<close> returns the same name, version and spec.
\<close>

theorem create_then_get:
  assumes "etcd_store cli kvs pc" "CreateFlow cli pc sp w = (Inr f, w1)"
    "GetFlow cli pc (fl_Name f) w1 = (r, w2)"
  shows "(\<exists>e. r = Inl (ErrEtcd e))
    \<or> (\<exists>f'. r = Inr f' \<and> fl_Name f' = fl_Name f \<and> fl_Version f' = fl_Version f \<and> fl_Spec f' = fl_Spec f)"
  by (rule flow_store.read_your_create [OF etcd_store.flow_store_api [OF assms(1)] assms(2,3)])

theorem create_then_get_witness:
  "\<exists>f w1 f'. CreateFlow mem_client mini_codec (Some foo_spec) mem2 = (Inr f, w1)
     \<and> fst (GetFlow mem_client mini_codec ''foo'' w1) = Inr f' \<and> fl_Version f' = 3
     \<and> fl_Spec f' = Some (foo_spec\<lparr>fs_Version := 3\<rparr>)"
proof -
  define p where "p = CreateFlow mem_client mini_codec (Some foo_spec) mem2"
  have r: "case fst p of Inl _ \<Rightarrow> False
      | Inr f \<Rightarrow> fl_Name f = ''foo'' \<and> fl_Version f = 3 \<and> fl_Spec f = Some (foo_spec\<lparr>fs_Version := 3\<rparr>)"
    "\<not> isl (fst (GetFlow mem_client mini_codec ''foo'' (snd p)))" unfolding p_def by code_simp+
  obtain f w1 where p: "p = (Inr f, w1)" using r by (cases p; cases "fst p") auto
  obtain f' w2 where g: "GetFlow mem_client mini_codec ''foo'' w1 = (Inr f', w2)"
    using r(2) p by (cases "GetFlow mem_client mini_codec ''foo'' w1"; cases "fst (GetFlow mem_client mini_codec ''foo'' w1)") auto
  have "fl_Name f = ''foo''" using r(1) p by simp
  with create_then_get [OF memstore.etcd_store_axioms p [unfolded p_def], of "Inr f'" w2] g r(1) p p_def
  show ?thesis by auto
qed

text \<open>
  C15: what \<^verbatim>\<open>GetFlow\<close> returns. It never changes the store. A flow it returns is the one the active pointer
  names, with the spec stored for that version (and the stored status or none); an error that does not
  come from etcd names what is missing: the pointer, a readable version number, or a readable spec.
\<close>

theorem get_flow_meaning:
  assumes "etcd_store cli kvs pc" "GetFlow cli pc n w = (r, w')"
  shows "kvs w' = kvs w \<and>
    (case r of
       Inr f \<Rightarrow> fl_Name f = n \<and> flow_view pc (kvs w) f
     | Inl e \<Rightarrow> (\<exists>x. e = ErrEtcd x)
         \<or> (e = ErrFlowNotFound n \<and> kvs w (activeKey n) = None)
         \<or> (e = ErrInvalidActiveVersion \<and> active_of (kvs w) n = None \<and> kvs w (activeKey n) \<noteq> None)
         \<or> (\<exists>v. active_of (kvs w) n = Some v \<and> spec_of pc (kvs w) n v = None
              \<and> (if kvs w (versionSpecKey n v) = None then e = ErrSpecMissing n v else \<exists>x. e = ErrProto x)))"
proof (cases r)
  case (Inr f)
  then show ?thesis
    using etcd_store.GetFlow_pure [OF assms] etcd_store.GetFlow_view [OF assms(1), of n w f w'] assms(2) by simp
next
  case (Inl e)
  then have "GetFlow cli pc n w = (Inl e, w')" using assms(2) by simp
  from etcd_store.GetFlow_err [OF assms(1) this] etcd_store.GetFlow_pure [OF assms] Inl show ?thesis
    by (simp only: sum.case simp_thms)
qed

theorem get_flow_meaning_witness:
  "\<exists>f w'. GetFlow mem_client mini_codec ''foo'' mem2 = (Inr f, w') \<and> flow_view mini_codec (mem_view mem2) f"
proof -
  obtain r w' where g: "GetFlow mem_client mini_codec ''foo'' mem2 = (r, w')" by fastforce
  have "\<not> isl (fst (GetFlow mem_client mini_codec ''foo'' mem2))" by code_simp
  with get_flow_meaning [OF memstore.etcd_store_axioms g] g show ?thesis by (cases r) auto
qed

text \<open>
  C16: \<^verbatim>\<open>ListFlows\<close> returns flows with distinct names, each as the store has it, and changes nothing; when
  the reads succeed it leaves out no flow with a plain name whose active spec can be read.
\<close>

theorem list_flows_exact:
  assumes "etcd_store cli kvs pc" "ListFlows cli pc w = (Inr fs, w')"
    "quiet_reads cli quiet" "quiet (snd (cli_GetPrefix cli rootPrefix w))"
  shows "kvs w' = kvs w \<and> distinct (map fl_Name fs) \<and> (\<forall>f\<in>set fs. flow_view pc (kvs w) f)
    \<and> (\<forall>n v s. plain n \<and> active_of (kvs w) n = Some v \<and> spec_of pc (kvs w) n v = Some s \<longrightarrow>
          (\<exists>f\<in>set fs. fl_Name f = n \<and> fl_Version f = v \<and> fl_Spec f = Some s))"
  using etcd_store.ListFlows_sound(1) [OF assms(1,2)] etcd_store.ListFlows_complete [OF assms] by blast

theorem list_flows_exact_witness:
  "\<exists>fs w'. ListFlows mem_client mini_codec mem2 = (Inr fs, w') \<and> map fl_Name fs = [''foo'', ''foobar'']
     \<and> (\<forall>f\<in>set fs. flow_view mini_codec (mem_view mem2) f)"
proof -
  obtain r w' where l: "ListFlows mem_client mini_codec mem2 = (r, w')" by fastforce
  have e: "case fst (ListFlows mem_client mini_codec mem2) of Inl _ \<Rightarrow> False
      | Inr fs \<Rightarrow> map fl_Name fs = [''foo'', ''foobar'']" by code_simp
  then obtain fs where r: "r = Inr fs" "map fl_Name fs = [''foo'', ''foobar'']" using l by (cases r) auto
  have "mem_faults (snd (cli_GetPrefix mem_client rootPrefix mem2)) = []"
    by (simp add: mem_client_def mem_call_def faulty_def mem2_def Let_def)
  with list_flows_exact [OF memstore.etcd_store_axioms l [unfolded r] mem_quiet] l r show ?thesis by auto
qed

text \<open>
  C17: \<^verbatim>\<open>RollbackFlow\<close> on every outcome. A version without a stored spec is refused and nothing changes;
  on success only the active pointer of that flow moves, to the requested version, whose stored
  spec is returned; no spec of any flow changes either way.
\<close>

theorem rollback_flow_effect:
  assumes "etcd_store cli kvs pc" "RollbackFlow cli pc n v w = (r, w')"
  shows "a_specs (aflow_of pc (kvs w') n') = a_specs (aflow_of pc (kvs w) n')
    \<and> (kvs w (versionSpecKey n v) = None \<longrightarrow> kvs w' = kvs w \<and> (r = Inl (ErrVersionMissing v) \<or> (\<exists>e. r = Inl (ErrEtcd e))))
    \<and> (\<forall>f. r = Inr f \<longrightarrow> fl_Name f = n \<and> fl_Version f = v \<and> fl_Spec f = spec_of pc (kvs w) n v
         \<and> aflow_of pc (kvs w') n' = (if flow_id n' = flow_id n then a_rollback v (aflow_of pc (kvs w) n')
                                       else aflow_of pc (kvs w) n'))"
proof -
  have "a_specs (aflow_of pc (kvs w') n') = a_specs (aflow_of pc (kvs w) n')"
    using etcd_store.RollbackFlow_cases [OF assms] by (auto simp: aflow_of_pointer a_rollback_def)
  moreover have "kvs w' = kvs w \<and> (r = Inl (ErrVersionMissing v) \<or> (\<exists>e. r = Inl (ErrEtcd e)))"
    if "kvs w (versionSpecKey n v) = None"
    using etcd_store.RollbackFlow_cases [OF assms] that by auto
  ultimately show ?thesis
    using flow_store.rollback_law [OF etcd_store.flow_store_api [OF assms(1)], of n v w _ w'] assms(2)
    by (auto simp: aflow_of_sels)
qed

theorem rollback_flow_effect_witness:
  "\<exists>f w'. RollbackFlow mem_client mini_codec ''foo'' 1 mem2 = (Inr f, w') \<and> fl_Version f = 1
     \<and> a_active (aflow_of mini_codec (mem_view w') ''foo'') = Some 1
     \<and> aflow_of mini_codec (mem_view w') ''foobar'' = aflow_of mini_codec (mem_view mem2) ''foobar''"
proof -
  obtain r w' where g: "RollbackFlow mem_client mini_codec ''foo'' 1 mem2 = (r, w')" by fastforce
  have "\<not> isl (fst (RollbackFlow mem_client mini_codec ''foo'' 1 mem2))" by code_simp
  then obtain f where "r = Inr f" using g by (cases r) auto
  with rollback_flow_effect [OF memstore.etcd_store_axioms g, of "''foo''"]
    rollback_flow_effect [OF memstore.etcd_store_axioms g, of "''foobar''"] g
  show ?thesis by (auto simp: a_rollback_def plain_def)
qed

text \<open>
  C19: an update after a rollback reuses a version number. Its version is the successor of the version
  rolled back to, and the spec that was stored under that number, if any, is replaced.
\<close>

theorem update_after_rollback_reuses_version:
  assumes "etcd_store cli kvs pc" "RollbackFlow cli pc n v w = (Inr f0, w1)"
    "UpdateFlow cli pc n (Some s) w1 = (Inr f, w2)"
  shows "fl_Version f = v + 1 \<and> active_of (kvs w2) n = Some (v + 1)
    \<and> spec_of pc (kvs w2) n (v + 1) = Some (s\<lparr>fs_Name := n, fs_Version := v + 1\<rparr>)"
  using flow_store.update_after_rollback [OF etcd_store.flow_store_api [OF assms(1)] assms(2,3)]
  by (simp add: aflow_of_sels)

text \<open>In the run of the witness version 2 of \<^verbatim>\<open>foo\<close> is the empty flow before and the demo flow after.\<close>

theorem update_after_rollback_reuses_version_witness:
  "\<exists>f0 w1 f w2. RollbackFlow mem_client mini_codec ''foo'' 1 mem2 = (Inr f0, w1)
     \<and> UpdateFlow mem_client mini_codec ''foo'' (Some demo_spec) w1 = (Inr f, w2)
     \<and> spec_of mini_codec (mem_view mem2) ''foo'' 2 = Some (foo_spec\<lparr>fs_Version := 2\<rparr>)
     \<and> spec_of mini_codec (mem_view w2) ''foo'' 2 = Some (demo_spec\<lparr>fs_Name := ''foo'', fs_Version := 2\<rparr>)"
proof -
  obtain r w1 where g: "RollbackFlow mem_client mini_codec ''foo'' 1 mem2 = (r, w1)" by fastforce
  obtain u w2 where h: "UpdateFlow mem_client mini_codec ''foo'' (Some demo_spec) w1 = (u, w2)" by fastforce
  have "\<not> isl (fst (RollbackFlow mem_client mini_codec ''foo'' 1 mem2))"
    "\<not> isl (fst (UpdateFlow mem_client mini_codec ''foo'' (Some demo_spec)
       (snd (RollbackFlow mem_client mini_codec ''foo'' 1 mem2))))"
    "spec_of mini_codec (mem_view mem2) ''foo'' 2 = Some (foo_spec\<lparr>fs_Version := 2\<rparr>)" by code_simp+
  moreover from this obtain f0 f where "r = Inr f0" "u = Inr f" using g h by (cases r; cases u) auto
  ultimately show ?thesis
    using update_after_rollback_reuses_version [OF memstore.etcd_store_axioms, of "''foo''" 1 mem2 f0 w1 demo_spec f w2] g h
    by auto
qed

text \<open>
  C20: the extent of \<^verbatim>\<open>DeleteFlow\<close>. On success it empties exactly the flows whose (plain) name has
  the deleted name as a prefix, and leaves every other flow as it was; on an error it did so or nothing.
\<close>

theorem delete_flow_extent:
  assumes "etcd_store cli kvs pc" "DeleteFlow cli n w = (r, w')" "plain n" "plain n'"
  shows "aflow_of pc (kvs w') n' = (if prefix n n' then a_empty else aflow_of pc (kvs w) n')
    \<or> (\<exists>e. r = Inl (ErrEtcd e)) \<and> kvs w' = kvs w"
  using etcd_store.DeleteFlow_cases [OF assms(1,2)] by (auto simp: aflow_of_delete [OF assms(3,4)])

theorem delete_flow_extent_witness:
  "\<exists>w'. DeleteFlow mem_client ''foo'' mem2 = (Inr (), w')
     \<and> a_active (aflow_of mini_codec (mem_view mem2) ''foobar'') = Some 1
     \<and> aflow_of mini_codec (mem_view w') ''foobar'' = a_empty"
proof -
  obtain r w' where g: "DeleteFlow mem_client ''foo'' mem2 = (r, w')" by fastforce
  have "\<not> isl (fst (DeleteFlow mem_client ''foo'' mem2))"
    "a_active (aflow_of mini_codec (mem_view mem2) ''foobar'') = Some 1" by code_simp+
  moreover from this obtain u where "r = Inr u" using g by (cases r) auto
  ultimately show ?thesis
    using delete_flow_extent [OF memstore.etcd_store_axioms g, of "''foobar''"] g
    by (auto simp: plain_def)
qed

end
