(* ===== verification/Schema_Store.thy ===== *)
theory Schema_Store
  imports Api_Store
begin

text \<open>
  The schema registry half of the API's etcd store (\<^verbatim>\<open>api/internal/store/etcd_schema_registry.go\<close>, with
  the type of \<^verbatim>\<open>api/internal/model/schema.go\<close>), and the unused key builders of \<^verbatim>\<open>keys.go\<close>. The operations
  have the shape of the flow store's: the etcd client is a parameter and the world is threaded
  through its calls. The JSON codec of the stored records is a parameter too; \<open>json_spec\<close> states its
  round trip, for identifiers that are valid UTF-8 (the encoder replaces other bytes).

  Versions are counted in 64 bits in the active pointer and stored under their low 32 bits.
\<close>

record model_schema =
  ms_SchemaID :: string
  ms_Version :: u32
  ms_Format :: InMemorySchemaFormat
  ms_RawSchema :: string

section \<open>The codec\<close>

record json_codec =
  json_marshal :: "model_schema \<Rightarrow> string + string"
  json_unmarshal :: "string \<Rightarrow> string + model_schema"

definition byte_in :: "nat \<Rightarrow> nat \<Rightarrow> char \<Rightarrow> bool" where
  "byte_in lo hi c \<longleftrightarrow> lo \<le> of_char c \<and> of_char c \<le> hi"

text \<open>Well-formed UTF-8, by the table of the Unicode standard that Go's \<^verbatim>\<open>utf8\<close> package follows.\<close>

fun valid_utf8 :: "string \<Rightarrow> bool" where
  "valid_utf8 [] = True"
| "valid_utf8 (a # s) =
     (if byte_in 0 127 a then valid_utf8 s
      else case s of
        [] \<Rightarrow> False
      | b # t \<Rightarrow>
          if byte_in 194 223 a then byte_in 128 191 b \<and> valid_utf8 t
          else case t of
            [] \<Rightarrow> False
          | c # u \<Rightarrow>
              if byte_in 224 239 a
              then byte_in (if a = CHR 0xE0 then 160 else 128) (if a = CHR 0xED then 159 else 191) b
                \<and> byte_in 128 191 c \<and> valid_utf8 u
              else case u of
                [] \<Rightarrow> False
              | d # v \<Rightarrow> byte_in 240 244 a
                  \<and> byte_in (if a = CHR 0xF0 then 144 else 128) (if a = CHR 0xF4 then 143 else 191) b
                  \<and> byte_in 128 191 c \<and> byte_in 128 191 d \<and> valid_utf8 v)"

locale json_spec =
  fixes jc :: json_codec
  assumes json_roundtrip:
    "valid_utf8 (ms_SchemaID s) \<Longrightarrow> json_marshal jc s = Inr b \<Longrightarrow> json_unmarshal jc b = Inr s"

section \<open>Key layout\<close>

definition schemaRootPrefix :: string where
  "schemaRootPrefix = ''/flowpipe/schemas''"

definition schemaPrefix :: "string \<Rightarrow> string" where
  "schemaPrefix schemaID = path_Join [schemaRootPrefix, schemaID]"

definition schemaActiveKey :: "string \<Rightarrow> string" where
  "schemaActiveKey schemaID = path_Join [schemaPrefix schemaID, ''active'']"

definition schemaVersionKey :: "string \<Rightarrow> u32 \<Rightarrow> string" where
  "schemaVersionKey schemaID version =
     path_Join [schemaPrefix schemaID, ''versions'', FormatUint (ucast version)]"

definition schemaVersionsPrefix :: "string \<Rightarrow> string" where
  "schemaVersionsPrefix schemaID = path_Join [schemaPrefix schemaID, ''versions''] @ ''/''"

section \<open>Creating versions\<close>

text \<open>As for flows, the part of \<^verbatim>\<open>createSchemaVersion\<close> after the read of the pointer stands alone.\<close>

definition nextSchemaVersion :: "kv list \<Rightarrow> store_error + u64" where
  "nextSchemaVersion resp =
     (case resp of
        [] \<Rightarrow> Inr 1
      | kv # _ \<Rightarrow>
          (case ParseUint (kv_Value kv) 64 of
             None \<Rightarrow> Inl ErrInvalidActiveSchemaVersion
           | Some prevVersion \<Rightarrow> Inr (of_nat prevVersion + 1)))"

definition commitSchemaVersion ::
  "'w etcd_client \<Rightarrow> json_codec \<Rightarrow> string \<Rightarrow> model_schema \<Rightarrow> kv list \<Rightarrow> 'w \<Rightarrow> (store_error + model_schema) \<times> 'w" where
  "commitSchemaVersion cli jc schemaID schema resp w =
     (case nextSchemaVersion resp of
        Inl e \<Rightarrow> (Inl e, w)
      | Inr nv \<Rightarrow>
          (let schema' = schema\<lparr>ms_Version := ucast nv\<rparr>
           in case json_marshal jc schema' of
                Inl e \<Rightarrow> (Inl (ErrJson e), w)
              | Inr payload \<Rightarrow>
                  (let cmp = (case resp of
                                [] \<Rightarrow> CreateRevisionIsZero (schemaActiveKey schemaID)
                              | kv # _ \<Rightarrow> ValueEquals (schemaActiveKey schemaID) (kv_Value kv))
                   in case cli_Txn cli [cmp]
                             [OpPut (schemaVersionKey schemaID (ucast nv)) payload,
                              OpPut (schemaActiveKey schemaID) (FormatUint nv)] w of
                        (Inl e, w') \<Rightarrow> (Inl (ErrEtcd e), w')
                      | (Inr succeeded, w') \<Rightarrow>
                          if \<not> succeeded then (Inl (ErrSchemaModified schemaID), w')
                          else (Inr schema', w'))))"

definition createSchemaVersion ::
  "'w etcd_client \<Rightarrow> json_codec \<Rightarrow> string \<Rightarrow> model_schema \<Rightarrow> 'w \<Rightarrow> (store_error + model_schema) \<times> 'w" where
  "createSchemaVersion cli jc schemaID schema w =
     (case cli_Get cli (schemaActiveKey schemaID) w of
        (Inl e, w') \<Rightarrow> (Inl (ErrEtcd e), w')
      | (Inr resp, w') \<Rightarrow> commitSchemaVersion cli jc schemaID schema resp w')"

definition CreateSchema ::
  "'w etcd_client \<Rightarrow> json_codec \<Rightarrow> model_schema option \<Rightarrow> 'w \<Rightarrow> (store_error + model_schema) \<times> 'w" where
  "CreateSchema cli jc schema w =
     (case schema of
        None \<Rightarrow> (Inl ErrSchemaNil, w)
      | Some s \<Rightarrow>
          if ms_SchemaID s = '''' then (Inl ErrSchemaIdRequired, w)
          else if ms_Format s = IN_MEMORY_SCHEMA_FORMAT_UNSPECIFIED then (Inl ErrSchemaFormatRequired, w)
          else if ms_RawSchema s = '''' then (Inl ErrSchemaPayloadRequired, w)
          else createSchemaVersion cli jc (ms_SchemaID s) s w)"

section \<open>Reading, listing, deletion\<close>

definition readSchema ::
  "'w etcd_client \<Rightarrow> json_codec \<Rightarrow> string \<Rightarrow> u32 \<Rightarrow> 'w \<Rightarrow> (store_error + model_schema) \<times> 'w" where
  "readSchema cli jc schemaID version w =
     (case cli_Get cli (schemaVersionKey schemaID version) w of
        (Inl e, w') \<Rightarrow> (Inl (ErrEtcd e), w')
      | (Inr [], w') \<Rightarrow> (Inl (ErrSchemaVersionNotFound schemaID version), w')
      | (Inr (kv # _), w') \<Rightarrow>
          (case json_unmarshal jc (kv_Value kv) of
             Inl e \<Rightarrow> (Inl (ErrJson e), w')
           | Inr schema \<Rightarrow> (Inr schema, w')))"

definition GetSchema ::
  "'w etcd_client \<Rightarrow> json_codec \<Rightarrow> string \<Rightarrow> u32 \<Rightarrow> 'w \<Rightarrow> (store_error + model_schema) \<times> 'w" where
  "GetSchema cli jc schemaID version w =
     (if schemaID = '''' then (Inl ErrSchemaIdRequired, w)
      else if version = 0 then
        (case cli_Get cli (schemaActiveKey schemaID) w of
           (Inl e, w') \<Rightarrow> (Inl (ErrEtcd e), w')
         | (Inr [], w') \<Rightarrow> (Inl (ErrSchemaNotFound schemaID), w')
         | (Inr (kv # _), w') \<Rightarrow>
             (case ParseUint (kv_Value kv) 64 of
                None \<Rightarrow> (Inl ErrInvalidActiveSchemaVersion, w')
              | Some activeVersion \<Rightarrow> readSchema cli jc schemaID (ucast (of_nat activeVersion :: u64)) w'))
      else readSchema cli jc schemaID version w)"

fun unmarshal_all :: "json_codec \<Rightarrow> kv list \<Rightarrow> store_error + model_schema list" where
  "unmarshal_all jc [] = Inr []"
| "unmarshal_all jc (kv # rest) =
     (case json_unmarshal jc (kv_Value kv) of
        Inl e \<Rightarrow> Inl (ErrJson e)
      | Inr schema \<Rightarrow>
          (case unmarshal_all jc rest of
             Inl e \<Rightarrow> Inl e
           | Inr schemas \<Rightarrow> Inr (schema # schemas)))"

text \<open>\<open>srt\<close> is the sort of the run by the version (\<^verbatim>\<open>sort.Slice\<close> leaves the order of equal keys open).\<close>

definition ListSchemaVersions ::
  "'w etcd_client \<Rightarrow> json_codec \<Rightarrow> (model_schema list \<Rightarrow> model_schema list) \<Rightarrow> string \<Rightarrow> 'w
     \<Rightarrow> (store_error + model_schema list) \<times> 'w" where
  "ListSchemaVersions cli jc srt schemaID w =
     (if schemaID = '''' then (Inl ErrSchemaIdRequired, w)
      else case cli_GetPrefix cli (schemaVersionsPrefix schemaID) w of
             (Inl e, w') \<Rightarrow> (Inl (ErrEtcd e), w')
           | (Inr kvs, w') \<Rightarrow>
               (case unmarshal_all jc kvs of
                  Inl e \<Rightarrow> (Inl e, w')
                | Inr schemas \<Rightarrow> (Inr (srt schemas), w')))"

definition DeleteSchema :: "'w etcd_client \<Rightarrow> string \<Rightarrow> 'w \<Rightarrow> (store_error + unit) \<times> 'w" where
  "DeleteSchema cli schemaID w =
     (if schemaID = '''' then (Inl ErrSchemaIdRequired, w)
      else case cli_DeletePrefix cli (schemaPrefix schemaID) w of
             (Inl e, w') \<Rightarrow> (Inl (ErrEtcd e), w')
           | (Inr _, w') \<Rightarrow> (Inr (), w'))"

section \<open>Plain key builders\<close>

text \<open>The key builders of \<^verbatim>\<open>keys.go\<close>, which concatenate and do not clean.\<close>

definition FlowRoot :: "string \<Rightarrow> string" where
  "FlowRoot name = ''/flowpipe/flows/'' @ name"

definition FlowMetaKey :: "string \<Rightarrow> string" where
  "FlowMetaKey name = FlowRoot name @ ''/meta''"

definition FlowActiveKey :: "string \<Rightarrow> string" where
  "FlowActiveKey name = FlowRoot name @ ''/active''"

definition FlowStatusKey :: "string \<Rightarrow> string" where
  "FlowStatusKey name = FlowRoot name @ ''/status''"

definition FlowVersionSpecKey :: "string \<Rightarrow> u64 \<Rightarrow> string" where
  "FlowVersionSpecKey name version = FlowRoot name @ ''/versions/'' @ FormatUint version @ ''/spec''"

definition FlowVersionsPrefix :: "string \<Rightarrow> string" where
  "FlowVersionsPrefix name = FlowRoot name @ ''/versions/''"

section \<open>The keys of a schema\<close>

definition schema_id :: "string \<Rightarrow> string list" where
  "schema_id i = resolve [''flowpipe'', ''schemas''] i"

lemma schema_root_abspath: "schemaRootPrefix = abspath [''flowpipe'', ''schemas'']"
  by (simp add: schemaRootPrefix_def)

lemma schema_id_plain: "c \<in> set (schema_id i) \<Longrightarrow> plain c"
  using resolve_plain [of "[''flowpipe'', ''schemas'']" i] by (simp add: schema_id_def)

lemma schema_id_slash_free: "c \<in> set (schema_id i) \<Longrightarrow> slash \<notin> set c"
  using schema_id_plain by blast

lemma schema_id_plain_name [simp]: "plain i \<Longrightarrow> schema_id i = [''flowpipe'', ''schemas'', i]"
  by (simp add: schema_id_def resolve_plain_name)

lemma schemaPrefix_path [key_simps]: "schemaPrefix i = rooted (schema_id i)"
  by (simp add: schemaPrefix_def schema_root_abspath schema_id_def path_Join_name del: abspath_simps)

lemma schema_keys [key_simps]:
  "schemaActiveKey i = abspath (schema_id i @ [''active''])"
  "schemaVersionKey i v = abspath (schema_id i @ [''versions'', FormatUint (ucast v)])"
  "schemaVersionsPrefix i = abspath (schema_id i @ [''versions'']) @ ''/''"
  by (simp_all add: schemaActiveKey_def schemaVersionKey_def schemaVersionsPrefix_def schemaPrefix_path
      path_Join_rooted schema_id_plain del: abspath_simps)

lemma ucast_u32_u64 [simp]: "(ucast (v :: u32) :: u64) = ucast v' \<longleftrightarrow> v = v'"
  by transfer (simp add: take_bit_take_bit)

lemma FormatUint_not_active [simp]: "''active'' \<noteq> FormatUint v" "FormatUint v \<noteq> ''active''"
proof -
  have "\<not> is_digit (CHR ''a'')" by (simp add: is_digit_def)
  then show "''active'' \<noteq> FormatUint v" "FormatUint v \<noteq> ''active''"
    using FormatUint_digits [of "CHR ''a''" v] by (metis list.set_intros(1))+
qed

lemma schema_key_eqs [simp]:
  "schemaActiveKey i = schemaActiveKey i' \<longleftrightarrow> schema_id i = schema_id i'"
  "schemaVersionKey i v = schemaVersionKey i' v' \<longleftrightarrow> schema_id i = schema_id i' \<and> v = v'"
  "schemaActiveKey i \<noteq> schemaVersionKey i' v" "schemaVersionKey i' v \<noteq> schemaActiveKey i"
  unfolding schema_keys
  by (subst abspath_eq_iff; auto simp: schema_id_slash_free plain_slash_free)+

text \<open>With plain names the two registries do not share a key.\<close>

lemma flow_schema_keys [simp]:
  assumes "plain n" "plain i"
  shows "activeKey n \<noteq> schemaActiveKey i" "activeKey n \<noteq> schemaVersionKey i u"
    "versionSpecKey n v \<noteq> schemaActiveKey i" "versionSpecKey n v \<noteq> schemaVersionKey i u"
    "statusKey n \<noteq> schemaActiveKey i" "statusKey n \<noteq> schemaVersionKey i u"
  unfolding flow_keys schema_keys using assms
  by (subst abspath_eq_iff; auto simp: flow_id_slash_free schema_id_slash_free plain_slash_free)+

section \<open>The abstract registry\<close>

record aschema =
  as_active :: "u64 option"
  as_versions :: "u32 \<Rightarrow> model_schema option"

definition sactive_of :: "keyspace \<Rightarrow> string \<Rightarrow> u64 option" where
  "sactive_of m i =
     (case m (schemaActiveKey i) of None \<Rightarrow> None | Some b \<Rightarrow> map_option of_nat (ParseUint b 64))"

definition schema_of :: "json_codec \<Rightarrow> keyspace \<Rightarrow> string \<Rightarrow> u32 \<Rightarrow> model_schema option" where
  "schema_of jc m i v =
     (case m (schemaVersionKey i v) of
        None \<Rightarrow> None
      | Some b \<Rightarrow> (case json_unmarshal jc b of Inl _ \<Rightarrow> None | Inr s \<Rightarrow> Some s))"

definition aschema_of :: "json_codec \<Rightarrow> keyspace \<Rightarrow> string \<Rightarrow> aschema" where
  "aschema_of jc m i = \<lparr>as_active = sactive_of m i, as_versions = schema_of jc m i\<rparr>"

lemma aschema_of_sels:
  "as_active (aschema_of jc m i) = sactive_of m i" "as_versions (aschema_of jc m i) = schema_of jc m i"
  by (simp_all add: aschema_of_def)

lemma schema_of_Some_iff:
  "schema_of jc m i v = Some s \<longleftrightarrow> (\<exists>b. m (schemaVersionKey i v) = Some b \<and> json_unmarshal jc b = Inr s)"
  by (cases "m (schemaVersionKey i v)") (auto simp: schema_of_def split: sum.splits)

definition s_next :: "aschema \<Rightarrow> u64" where
  "s_next a = (case as_active a of None \<Rightarrow> 1 | Some p \<Rightarrow> p + 1)"

definition s_create :: "model_schema \<Rightarrow> aschema \<Rightarrow> aschema" where
  "s_create s a =
     \<lparr>as_active = Some (s_next a),
      as_versions = (as_versions a)(ucast (s_next a) \<mapsto> s\<lparr>ms_Version := ucast (s_next a)\<rparr>)\<rparr>"

text \<open>The version a read asks for: version 0 stands for the active one.\<close>

definition wanted :: "u32 \<Rightarrow> aschema \<Rightarrow> u32 option" where
  "wanted v a = (if v = 0 then map_option ucast (as_active a) else Some v)"

definition s_get :: "u32 \<Rightarrow> aschema \<Rightarrow> model_schema option" where
  "s_get v a = (case wanted v a of None \<Rightarrow> None | Some u \<Rightarrow> as_versions a u)"

lemma s_get_create:
  "v = 0 \<or> v = ucast (s_next a) \<Longrightarrow> s_get v (s_create s a) = Some (s\<lparr>ms_Version := ucast (s_next a)\<rparr>)"
  by (auto simp: s_get_def wanted_def s_create_def)

section \<open>Store laws\<close>

definition scommitted :: "json_codec \<Rightarrow> string \<Rightarrow> model_schema \<Rightarrow> u64 \<Rightarrow> keyspace \<Rightarrow> keyspace \<Rightarrow> bool" where
  "scommitted jc i s nv m m' \<longleftrightarrow> nv = s_next (aschema_of jc m i)
     \<and> (\<exists>b. json_marshal jc (s\<lparr>ms_Version := ucast nv\<rparr>) = Inr b
          \<and> m' = m(schemaVersionKey i (ucast nv) \<mapsto> b, schemaActiveKey i \<mapsto> FormatUint nv))"

locale etcd_registry = etcd cli kvs + json_spec jc
  for cli :: "'w etcd_client" and kvs :: "'w \<Rightarrow> keyspace" and jc :: json_codec
begin

lemma commitSchemaVersion_cases:
  assumes "commitSchemaVersion cli jc i s resp w = (r, w')"
  shows "(kvs w' = kvs w \<and> isl r) \<or>
    (\<exists>nv. scommitted jc i s nv (kvs w) (kvs w') \<and> (r = Inr (s\<lparr>ms_Version := ucast nv\<rparr>) \<or> (\<exists>e. r = Inl (ErrEtcd e))))"
proof (cases "nextSchemaVersion resp")
  case nx: (Inr nv)
  show ?thesis
  proof (cases "json_marshal jc (s\<lparr>ms_Version := ucast nv\<rparr>)")
    case pay: (Inr b)
    define cmp where "cmp = (case resp of [] \<Rightarrow> CreateRevisionIsZero (schemaActiveKey i)
      | kv # _ \<Rightarrow> ValueEquals (schemaActiveKey i) (kv_Value kv))"
    define ops where "ops = [OpPut (schemaVersionKey i (ucast nv)) b, OpPut (schemaActiveKey i) (FormatUint nv)]"
    obtain t w1 where txn: "cli_Txn cli [cmp] ops w = (t, w1)" by fastforce
    have eff: "scommitted jc i s nv (kvs w) (apply_ops ops (kvs w))" if "cmp_holds (kvs w) cmp"
      using that nx pay by (auto simp: scommitted_def ops_def cmp_def nextSchemaVersion_def s_next_def
          aschema_of_def sactive_of_def split: list.splits option.splits)
    have r: "(r, w') = (case t of Inl e \<Rightarrow> (Inl (ErrEtcd e), w1)
        | Inr ok \<Rightarrow> if \<not> ok then (Inl (ErrSchemaModified i), w1) else (Inr (s\<lparr>ms_Version := ucast nv\<rparr>), w1))"
      using assms nx pay txn
      by (simp add: commitSchemaVersion_def Let_def cmp_def ops_def split: sum.splits)
    show ?thesis
      using r txn eff Txn_err [of "[cmp]" ops w _ w1] Txn_ok [of "[cmp]" ops w _ w1]
      by (cases t) (auto split: if_splits)
  qed (use assms nx in \<open>auto simp: commitSchemaVersion_def\<close>)
qed (use assms in \<open>auto simp: commitSchemaVersion_def\<close>)

lemma createSchemaVersion_cases:
  assumes "createSchemaVersion cli jc i s w = (r, w')"
  shows "(kvs w' = kvs w \<and> isl r) \<or>
    (\<exists>nv. scommitted jc i s nv (kvs w) (kvs w') \<and> (r = Inr (s\<lparr>ms_Version := ucast nv\<rparr>) \<or> (\<exists>e. r = Inl (ErrEtcd e))))"
proof -
  obtain g w1 where get: "cli_Get cli (schemaActiveKey i) w = (g, w1)" by fastforce
  have k: "kvs w1 = kvs w" using Get_law [OF get] by simp
  show ?thesis
  proof (cases g)
    case (Inr resp)
    with get assms have "commitSchemaVersion cli jc i s resp w1 = (r, w')" by (simp add: createSchemaVersion_def)
    from commitSchemaVersion_cases [OF this] show ?thesis unfolding k .
  qed (use get assms k in \<open>auto simp: createSchemaVersion_def\<close>)
qed

lemma scommitted_refines:
  assumes c: "scommitted jc i s nv m m'" and u: "valid_utf8 (ms_SchemaID s)"
  shows "aschema_of jc m' i' = (if schema_id i' = schema_id i then s_create s (aschema_of jc m i) else aschema_of jc m i')"
proof -
  obtain b where b: "json_marshal jc (s\<lparr>ms_Version := ucast nv\<rparr>) = Inr b"
    and m': "m' = m(schemaVersionKey i (ucast nv) \<mapsto> b, schemaActiveKey i \<mapsto> FormatUint nv)"
    and nv: "nv = s_next (aschema_of jc m i)"
    using c by (auto simp: scommitted_def)
  have d: "json_unmarshal jc b = Inr (s\<lparr>ms_Version := ucast nv\<rparr>)"
    using json_roundtrip [OF _ b] u by simp
  have keys: "schemaActiveKey i' = schemaActiveKey i" "schemaVersionKey i' v = schemaVersionKey i v"
    if "schema_id i' = schema_id i" for v using that by simp_all
  show ?thesis
    unfolding m' aschema_of_def sactive_of_def schema_of_def [abs_def] s_create_def
    by (auto simp: d keys fun_eq_iff nv aschema_of_def sactive_of_def schema_of_def [abs_def])
qed

lemma scommitted_flows:
  "scommitted jc i s nv m m' \<Longrightarrow> plain i \<Longrightarrow> plain n \<Longrightarrow> aflow_of pc m' n = aflow_of pc m n"
  by (auto simp: scommitted_def aflow_of_def active_of_def spec_of_def [abs_def] status_of_def)

lemma CreateSchema_ok:
  assumes "CreateSchema cli jc sp w = (Inr s', w')"
  obtains s nv where "sp = Some s" "scommitted jc (ms_SchemaID s) s nv (kvs w) (kvs w')"
    "s' = s\<lparr>ms_Version := ucast nv\<rparr>" "ms_SchemaID s \<noteq> ''''"
proof -
  obtain s where s: "sp = Some s" "ms_SchemaID s \<noteq> ''''"
    "createSchemaVersion cli jc (ms_SchemaID s) s w = (Inr s', w')"
    using assms by (auto simp: CreateSchema_def split: option.splits if_splits)
  from createSchemaVersion_cases [OF s(3)] s(1,2) that show ?thesis by auto
qed

lemma readSchema_view:
  assumes "readSchema cli jc i v w = (r, w')"
  shows "kvs w' = kvs w \<and> (\<forall>s. r = Inr s \<longrightarrow> schema_of jc (kvs w) i v = Some s)
    \<and> (\<forall>e. r = Inl e \<longrightarrow> (\<exists>x. e = ErrEtcd x) \<or> schema_of jc (kvs w) i v = None)"
proof -
  obtain g w1 where g: "cli_Get cli (schemaVersionKey i v) w = (g, w1)" by fastforce
  consider x where "g = Inl x" | "g = Inr []" | x xs where "g = Inr (x # xs)"
    by (cases g; cases "projr g") auto
  then show ?thesis
    using g assms Get_law [OF g] Get_ConsD [of "schemaVersionKey i v" w] Get_Nil_iff [of "schemaVersionKey i v" w]
    by cases (auto simp: readSchema_def schema_of_def split: sum.splits)
qed

lemma GetSchema_view:
  assumes "GetSchema cli jc i v w = (r, w')"
  shows "kvs w' = kvs w \<and> (\<forall>s. r = Inr s \<longrightarrow> i \<noteq> '''' \<and> s_get v (aschema_of jc (kvs w) i) = Some s)
    \<and> (\<forall>e. r = Inl e \<longrightarrow> (i = '''' \<and> e = ErrSchemaIdRequired) \<or> (\<exists>x. e = ErrEtcd x)
         \<or> s_get v (aschema_of jc (kvs w) i) = None)"
proof (cases "i = '''' \<or> v \<noteq> 0")
  case True
  then show ?thesis
    using assms readSchema_view [of i v w r w']
    by (auto simp: GetSchema_def s_get_def wanted_def aschema_of_def split: if_splits)
next
  case False
  obtain g w1 where g: "cli_Get cli (schemaActiveKey i) w = (g, w1)" by fastforce
  have k: "kvs w1 = kvs w" using Get_law [OF g] by simp
  consider x where "g = Inl x" | "g = Inr []" | x xs where "g = Inr (x # xs)"
    by (cases g; cases "projr g") auto
  then show ?thesis
  proof cases
    case 3
    then have b: "kvs w (schemaActiveKey i) = Some (kv_Value x)" using Get_ConsD g by metis
    show ?thesis
    proof (cases "ParseUint (kv_Value x) 64")
      case (Some a)
      then have "readSchema cli jc i (ucast (of_nat a :: u64)) w1 = (r, w')"
        using assms g 3 False by (simp add: GetSchema_def)
      from readSchema_view [OF this] show ?thesis
        using False Some b k by (auto simp: s_get_def wanted_def aschema_of_def sactive_of_def)
    qed (use assms g 3 False b k in \<open>auto simp: GetSchema_def s_get_def wanted_def aschema_of_def sactive_of_def\<close>)
  next
    case 2
    then have "kvs w (schemaActiveKey i) = None" using Get_Nil_iff g by metis
    with assms g 2 False k show ?thesis
      by (auto simp: GetSchema_def s_get_def wanted_def aschema_of_def sactive_of_def)
  qed (use assms g False k in \<open>auto simp: GetSchema_def\<close>)
qed

end

section \<open>The contract of the registry interface\<close>

text \<open>
  The promise of \<^verbatim>\<open>SchemaRegistryStore\<close> (\<^verbatim>\<open>api/internal/store/store.go\<close>) to the service.
\<close>

locale schema_registry =
  fixes create :: "model_schema option \<Rightarrow> 'w \<Rightarrow> (store_error + model_schema) \<times> 'w"
    and get :: "string \<Rightarrow> u32 \<Rightarrow> 'w \<Rightarrow> (store_error + model_schema) \<times> 'w"
    and view :: "'w \<Rightarrow> string \<Rightarrow> aschema"
    and same :: "string \<Rightarrow> string \<Rightarrow> bool"
  assumes same_id: "same i i"
    and create_schema_law: "create sp w = (Inr s', w') \<Longrightarrow> valid_utf8 (ms_SchemaID s') \<Longrightarrow>
      \<exists>s. sp = Some s \<and> ms_SchemaID s \<noteq> '''' \<and> s' = s\<lparr>ms_Version := ucast (s_next (view w (ms_SchemaID s)))\<rparr>
        \<and> (\<forall>i'. view w' i' = (if same i' (ms_SchemaID s) then s_create s (view w (ms_SchemaID s)) else view w i'))"
    and get_schema_law: "get i v w = (r, w') \<Longrightarrow> view w' = view w
      \<and> (\<forall>s. r = Inr s \<longrightarrow> i \<noteq> '''' \<and> s_get v (view w i) = Some s)
      \<and> (\<forall>e. r = Inl e \<longrightarrow> (i = '''' \<and> e = ErrSchemaIdRequired) \<or> (\<exists>x. e = ErrEtcd x) \<or> s_get v (view w i) = None)"
begin

text \<open>A created version is read back, by its number and as the active version.\<close>

lemma read_your_schema:
  assumes "create sp w = (Inr s', w1)" "valid_utf8 (ms_SchemaID s')"
    "v = 0 \<or> v = ms_Version s'" "get (ms_SchemaID s') v w1 = (r, w2)"
  shows "(\<exists>e. r = Inl (ErrEtcd e)) \<or> r = Inr s'"
proof -
  obtain s where s: "ms_SchemaID s \<noteq> ''''" "s' = s\<lparr>ms_Version := ucast (s_next (view w (ms_SchemaID s)))\<rparr>"
    "view w1 (ms_SchemaID s) = s_create s (view w (ms_SchemaID s))"
    using create_schema_law [OF assms(1,2)] same_id by auto
  then have "s_get v (view w1 (ms_SchemaID s')) = Some s'"
    using s_get_create [of v "view w (ms_SchemaID s)" s] assms(3) by auto
  then show ?thesis using get_schema_law [OF assms(4)] s(1,2) by (cases r) auto
qed

text \<open>The other versions stay what they were.\<close>

lemma create_keeps_versions:
  assumes "create sp w = (Inr s', w1)" "valid_utf8 (ms_SchemaID s')" "v \<noteq> ms_Version s'"
    "same i (ms_SchemaID s') \<Longrightarrow> view w i = view w (ms_SchemaID s')"
  shows "as_versions (view w1 i) v = as_versions (view w i) v"
  using create_schema_law [OF assms(1,2)] assms(3,4) by (auto simp: s_create_def)

end

lemma aschema_of_same_id: "schema_id i = schema_id i' \<Longrightarrow> aschema_of jc m i = aschema_of jc m i'"
  by (simp add: aschema_of_def sactive_of_def schema_of_def [abs_def] schema_keys del: schema_id_plain_name)

sublocale etcd_registry \<subseteq> reg: schema_registry
  "CreateSchema cli jc" "GetSchema cli jc" "\<lambda>w. aschema_of jc (kvs w)" "\<lambda>i i'. schema_id i = schema_id i'"
proof (unfold_locales, goal_cases)
  case (2 sp w s' w')
  from CreateSchema_ok [OF 2(1)] obtain s nv where s: "sp = Some s" "s' = s\<lparr>ms_Version := ucast nv\<rparr>"
    "ms_SchemaID s \<noteq> ''''" and k: "scommitted jc (ms_SchemaID s) s nv (kvs w) (kvs w')" by blast
  then show ?case using scommitted_refines [OF k] 2(2) by (auto simp: scommitted_def)
next
  case (3 i v w r w')
  then show ?case using GetSchema_view by metis
qed simp

context etcd_registry
begin

lemma schema_registry_api:
  "schema_registry (CreateSchema cli jc) (GetSchema cli jc) (\<lambda>w. aschema_of jc (kvs w)) (\<lambda>i i'. schema_id i = schema_id i')"
  by (rule reg.schema_registry_axioms)

end

section \<open>Listing and deletion\<close>

text \<open>
  A version area in good order: every key below \<^verbatim>\<open>versions/\<close> is the key of the version in its record.
\<close>

definition versions_wf :: "json_codec \<Rightarrow> keyspace \<Rightarrow> string \<Rightarrow> bool" where
  "versions_wf jc m i \<longleftrightarrow> (\<forall>k b. prefix (schemaVersionsPrefix i) k \<and> m k = Some b \<longrightarrow>
     (\<exists>s. json_unmarshal jc b = Inr s \<and> k = schemaVersionKey i (ms_Version s)))"

lemma versions_wf_list:
  assumes "list_all (\<lambda>(k, b). prefix (schemaVersionsPrefix i) k \<longrightarrow>
    (case json_unmarshal jc b of Inl _ \<Rightarrow> False | Inr s \<Rightarrow> k = schemaVersionKey i (ms_Version s))) xs"
  shows "versions_wf jc (map_of xs) i"
  unfolding versions_wf_def
proof (intro allI impI)
  fix k b assume k: "prefix (schemaVersionsPrefix i) k \<and> map_of xs k = Some b"
  then have "(k, b) \<in> set xs" by (simp add: map_of_SomeD)
  with assms k have "case json_unmarshal jc b of Inl _ \<Rightarrow> False | Inr s \<Rightarrow> k = schemaVersionKey i (ms_Version s)"
    by (auto simp: list_all_iff)
  then show "\<exists>s. json_unmarshal jc b = Inr s \<and> k = schemaVersionKey i (ms_Version s)"
    by (auto split: sum.splits)
qed

lemma schemaVersionsPrefix_iff:
  assumes "\<forall>k\<in>set ks. slash \<notin> set k"
  shows "prefix (schemaVersionsPrefix i) (abspath ks) \<longleftrightarrow> (\<exists>b ds. ks = schema_id i @ ''versions'' # b # ds)"
proof -
  have "schemaVersionsPrefix i = abspath ((schema_id i @ [''versions'']) @ [''''])"
    by (simp add: schema_keys)
  then show ?thesis
    using prefix_abspath_iff [of "schema_id i @ [''versions'']" "''''" ks] assms
    by (auto simp: schema_id_slash_free plain_slash_free)
qed

lemma schemaVersionsPrefix_keys:
  "prefix (schemaVersionsPrefix i) (schemaVersionKey i v)"
  "plain i \<Longrightarrow> plain i' \<Longrightarrow> prefix (schemaVersionsPrefix i) (schemaVersionKey i' v) \<longleftrightarrow> i = i'"
  "plain i \<Longrightarrow> plain i' \<Longrightarrow> \<not> prefix (schemaVersionsPrefix i) (schemaActiveKey i')"
  unfolding schema_keys(1,2)
  by (subst schemaVersionsPrefix_iff; auto simp: schema_id_slash_free plain_slash_free)+

lemma unmarshal_all_Inr:
  "unmarshal_all jc xs = Inr ss \<longleftrightarrow> map (json_unmarshal jc \<circ> kv_Value) xs = map Inr ss"
proof (induction xs arbitrary: ss)
  case (Cons x xs)
  show ?case
  proof (cases "json_unmarshal jc (kv_Value x)")
    case (Inr s)
    then show ?thesis using Cons by (cases ss; cases "unmarshal_all jc xs") auto
  qed (cases ss; simp)
qed auto

context etcd_registry
begin

lemma scommitted_wf:
  assumes c: "scommitted jc i s nv m m'" and u: "valid_utf8 (ms_SchemaID s)" and p: "plain i" "plain i'"
    and wf: "versions_wf jc m i'"
  shows "versions_wf jc m' i'"
proof -
  obtain b where b: "json_marshal jc (s\<lparr>ms_Version := ucast nv\<rparr>) = Inr b"
    and m': "m' = m(schemaVersionKey i (ucast nv) \<mapsto> b, schemaActiveKey i \<mapsto> FormatUint nv)"
    using c by (auto simp: scommitted_def)
  have d: "json_unmarshal jc b = Inr (s\<lparr>ms_Version := ucast nv\<rparr>)" using json_roundtrip [OF _ b] u by simp
  show ?thesis
    using wf schemaVersionsPrefix_keys(2,3) [OF p(2,1)]
    unfolding versions_wf_def m' by (auto simp: d split: if_splits)
qed

lemma ListSchemaVersions_exact:
  assumes l: "ListSchemaVersions cli jc srt i w = (Inr ss, w')" and srt: "is_sort ms_Version srt"
    and wf: "versions_wf jc (kvs w) i"
  shows "sorted_wrt (<) (map ms_Version ss) \<and> set ss = {s. \<exists>v. schema_of jc (kvs w) i v = Some s}"
proof -
  obtain xs w1 ss0 where g: "cli_GetPrefix cli (schemaVersionsPrefix i) w = (Inr xs, w1)"
    and u: "map (json_unmarshal jc \<circ> kv_Value) xs = map Inr ss0" and ss: "ss = srt ss0"
    using l by (auto simp: ListSchemaVersions_def unmarshal_all_Inr split: prod.splits sum.splits if_splits)
  have xs: "set xs = {\<lparr>kv_Key = k, kv_Value = b\<rparr> | k b. prefix (schemaVersionsPrefix i) k \<and> kvs w k = Some b}"
    "distinct (map kv_Key xs)"
    using GetPrefix_law [OF g] by (auto simp: strict_sorted_iff)
  have dec: "kv_Key x = schemaVersionKey i (ms_Version s)"
    if "x \<in> set xs" "json_unmarshal jc (kv_Value x) = Inr s" for x s
    using that wf xs(1) by (fastforce simp: versions_wf_def)
  have len: "length xs = length ss0" using arg_cong [OF u, of length] by simp
  have nth: "json_unmarshal jc (kv_Value (xs ! k)) = Inr (ss0 ! k)" if "k < length xs" for k
    using that arg_cong [OF u, of "\<lambda>l. l ! k"] len by simp
  have "map kv_Key xs = map (schemaVersionKey i) (map ms_Version ss0)"
    using dec nth len by (intro nth_equalityI) auto
  then have "distinct (map ms_Version ss0)" using xs(2) by (metis distinct_map)
  then have "distinct (map ms_Version ss)"
    unfolding ss by (metis is_sortD(1) [OF srt] mset_eq_imp_distinct_iff mset_map)
  then have "sorted_wrt (<) (map ms_Version ss)" using is_sortD(2) [OF srt] by (simp add: ss strict_sorted_iff)
  moreover have "set ss0 = {s. \<exists>v. schema_of jc (kvs w) i v = Some s}" (is "_ = ?R")
  proof
    show "set ss0 \<subseteq> ?R"
    proof
      fix s assume "s \<in> set ss0"
      then obtain k where k: "k < length xs" "ss0 ! k = s" using len by (auto simp: in_set_conv_nth)
      then have "xs ! k \<in> set xs" by simp
      with xs(1) obtain key b where x: "xs ! k = \<lparr>kv_Key = key, kv_Value = b\<rparr>" "kvs w key = Some b" by auto
      then have "key = schemaVersionKey i (ms_Version s)"
        using dec [OF \<open>xs ! k \<in> set xs\<close>, of s] nth [of k] k by auto
      then have "schema_of jc (kvs w) i (ms_Version s) = Some s"
        using x nth [of k] k by (simp add: schema_of_def)
      then show "s \<in> ?R" by blast
    qed
    show "?R \<subseteq> set ss0"
    proof
      fix s assume "s \<in> ?R"
      then obtain v b where b: "kvs w (schemaVersionKey i v) = Some b" "json_unmarshal jc b = Inr s"
        using schema_of_Some_iff by blast
      then have "\<lparr>kv_Key = schemaVersionKey i v, kv_Value = b\<rparr> \<in> set xs"
        using xs(1) schemaVersionsPrefix_keys(1) by auto
      then obtain k where "k < length xs" "xs ! k = \<lparr>kv_Key = schemaVersionKey i v, kv_Value = b\<rparr>"
        by (auto simp: in_set_conv_nth)
      with nth [of k] b len show "s \<in> set ss0" by (auto simp: in_set_conv_nth)
    qed
  qed
  ultimately show ?thesis using is_sortD(3) [OF srt] by (simp add: ss)
qed

lemma DeleteSchema_cases:
  assumes "DeleteSchema cli i w = (r, w')"
  shows "isl r \<and> kvs w' = kvs w \<or> kvs w' = delete_prefix (schemaPrefix i) (kvs w)"
proof (cases "i = ''''")
  case False
  obtain d w1 where d: "cli_DeletePrefix cli (schemaPrefix i) w = (d, w1)" by fastforce
  with assms False have "w' = w1" by (auto simp: DeleteSchema_def split: sum.splits)
  with d assms False DeletePrefix_ok [of "schemaPrefix i" w w1] DeletePrefix_err [of "schemaPrefix i" w _ w1]
  show ?thesis by (cases d) (auto simp: DeleteSchema_def)
qed (use assms in \<open>auto simp: DeleteSchema_def\<close>)

end

lemma schemaPrefix_keys:
  assumes "plain i" "plain i'"
  shows "prefix (schemaPrefix i) (schemaActiveKey i') \<longleftrightarrow> prefix i i'"
    "prefix (schemaPrefix i) (schemaVersionKey i' v) \<longleftrightarrow> prefix i i'"
proof -
  have *: "prefix (schemaPrefix i) (abspath (schema_id i' @ ds)) \<longleftrightarrow> prefix i i'" for ds
    using prefix_abspath [of i "[''flowpipe'', ''schemas'']" i' ds] assms
    by (simp add: schemaPrefix_path rooted_def plain_slash_free)
  show "prefix (schemaPrefix i) (schemaActiveKey i') \<longleftrightarrow> prefix i i'"
    "prefix (schemaPrefix i) (schemaVersionKey i' v) \<longleftrightarrow> prefix i i'"
    unfolding schema_keys by (rule *)+
qed

text \<open>The root of the flows is not below a schema's prefix, whatever its plain name.\<close>

lemma schemaPrefix_flow_keys:
  assumes "plain i" "plain n"
  shows "\<not> prefix (schemaPrefix i) (activeKey n)" "\<not> prefix (schemaPrefix i) (versionSpecKey n v)"
    "\<not> prefix (schemaPrefix i) (statusKey n)"
proof -
  have *: "\<not> prefix (schemaPrefix i) (abspath (flow_id n @ ds))" if "\<forall>d\<in>set ds. slash \<notin> set d" for ds
    using prefix_abspath_iff [of "[''flowpipe'', ''schemas'']" i "flow_id n @ ds"] assms that
    by (auto simp: schemaPrefix_path rooted_def plain_slash_free)
  show "\<not> prefix (schemaPrefix i) (activeKey n)" "\<not> prefix (schemaPrefix i) (versionSpecKey n v)"
    "\<not> prefix (schemaPrefix i) (statusKey n)"
    unfolding flow_keys by (rule *; simp add: plain_slash_free)+
qed

definition s_empty :: aschema where
  "s_empty = \<lparr>as_active = None, as_versions = (\<lambda>_. None)\<rparr>"

lemma aschema_of_delete:
  assumes "plain i" "plain i'"
  shows "aschema_of jc (delete_prefix (schemaPrefix i) m) i' = (if prefix i i' then s_empty else aschema_of jc m i')"
  using schemaPrefix_keys [OF assms]
  by (simp add: aschema_of_def sactive_of_def schema_of_def [abs_def] delete_prefix_def s_empty_def)

lemma aflow_of_delete_schema:
  assumes "plain i" "plain n"
  shows "aflow_of pc (delete_prefix (schemaPrefix i) m) n = aflow_of pc m n"
  using schemaPrefix_flow_keys [OF assms]
  by (simp add: aflow_of_def active_of_def spec_of_def [abs_def] status_of_def delete_prefix_def)

section \<open>A small JSON codec\<close>

text \<open>Encodes the JSON-format schemas with the payload \<^verbatim>\<open>{}\<close> and refuses every other record.\<close>

definition mini_schema :: "u32 \<Rightarrow> string \<Rightarrow> model_schema" where
  "mini_schema v i = \<lparr>ms_SchemaID = i, ms_Version = v, ms_Format = IN_MEMORY_SCHEMA_FORMAT_JSON,
     ms_RawSchema = ''{}''\<rparr>"

definition mini_json :: json_codec where
  "mini_json =
     \<lparr>json_marshal = (\<lambda>s. if s = mini_schema (ms_Version s) (ms_SchemaID s)
        then Inr (mini_text (ucast (ms_Version s)) (ms_SchemaID s)) else Inl ''unsupported''),
      json_unmarshal = (\<lambda>b. case mini_parse b of
          None \<Rightarrow> Inl ''malformed'' | Some (v, i) \<Rightarrow> Inr (mini_schema (ucast v) i))\<rparr>"

lemma ucast_u32_u64_u32 [simp]: "(ucast (ucast (v :: u32) :: u64) :: u32) = v"
  by transfer (simp add: take_bit_take_bit)

interpretation mini_json: json_spec mini_json
proof
  fix s b assume "json_marshal mini_json s = Inr b"
  then have "s = mini_schema (ms_Version s) (ms_SchemaID s)"
    "b = mini_text (ucast (ms_Version s)) (ms_SchemaID s)"
    by (auto simp: mini_json_def split: if_splits)
  then show "json_unmarshal mini_json b = Inr s" by (simp add: mini_json_def mini_parse_text)
qed

interpretation memreg: etcd_registry mem_client mem_view mini_json
  by unfold_locales

section \<open>Properties\<close>

text \<open>The key space with two versions of \<^verbatim>\<open>ev\<close> and one of \<^verbatim>\<open>event\<close>, beside a flow.\<close>

definition mem_reg :: etcd_mem where
  "mem_reg = \<lparr>mem_kvs = [(''/flowpipe/flows/foo/versions/1/spec'', ''e1:foo''),
      (''/flowpipe/flows/foo/active'', ''1''), (''/flowpipe/schemas/ev/active'', ''2''),
      (''/flowpipe/schemas/ev/versions/1'', ''1:ev''), (''/flowpipe/schemas/ev/versions/2'', ''2:ev''),
      (''/flowpipe/schemas/event/active'', ''1''), (''/flowpipe/schemas/event/versions/1'', ''1:event'')],
      mem_faults = []\<rparr>"

text \<open>
  C34: a schema version that was created is read back: unless etcd fails, \<^verbatim>\<open>GetSchema\<close> after a
  successful \<^verbatim>\<open>CreateSchema\<close> returns exactly the created record, asked for by its version or as
  version 0 (the active one); the version number is the low half of the 64-bit counter, and every
  other stored version of every schema is what it was.
\<close>

theorem create_then_get_schema:
  assumes "etcd_registry cli kvs jc" "CreateSchema cli jc sp w = (Inr s', w1)" "valid_utf8 (ms_SchemaID s')"
    "v = 0 \<or> v = ms_Version s'" "GetSchema cli jc (ms_SchemaID s') v w1 = (r, w2)"
  shows "((\<exists>e. r = Inl (ErrEtcd e)) \<or> r = Inr s')
    \<and> ms_Version s' = ucast (s_next (aschema_of jc (kvs w) (ms_SchemaID s')))
    \<and> (\<forall>i u. u \<noteq> ms_Version s' \<longrightarrow> schema_of jc (kvs w1) i u = schema_of jc (kvs w) i u)"
proof -
  note reg = etcd_registry.schema_registry_api [OF assms(1)]
  have "ms_Version s' = ucast (s_next (aschema_of jc (kvs w) (ms_SchemaID s')))"
    using schema_registry.create_schema_law [OF reg assms(2,3)] by auto
  moreover have "schema_of jc (kvs w1) i u = schema_of jc (kvs w) i u" if "u \<noteq> ms_Version s'" for i u
    using schema_registry.create_keeps_versions [OF reg assms(2,3) that, of i] aschema_of_same_id
    unfolding aschema_of_sels by blast
  ultimately show ?thesis using schema_registry.read_your_schema [OF reg assms(2-5)] by blast
qed

theorem create_then_get_schema_witness:
  "\<exists>w1. CreateSchema mem_client mini_json (Some (mini_schema 0 ''ev'')) mem_reg = (Inr (mini_schema 3 ''ev''), w1)
     \<and> fst (GetSchema mem_client mini_json ''ev'' 0 w1) = Inr (mini_schema 3 ''ev'')
     \<and> schema_of mini_json (mem_view w1) ''ev'' 2 = schema_of mini_json (mem_view mem_reg) ''ev'' 2"
proof -
  have e: "fst (CreateSchema mem_client mini_json (Some (mini_schema 0 ''ev'')) mem_reg) = Inr (mini_schema 3 ''ev'')"
    "\<not> isl (fst (GetSchema mem_client mini_json ''ev'' 0
        (snd (CreateSchema mem_client mini_json (Some (mini_schema 0 ''ev'')) mem_reg))))" by code_simp+
  then obtain w1 where c: "CreateSchema mem_client mini_json (Some (mini_schema 0 ''ev'')) mem_reg = (Inr (mini_schema 3 ''ev''), w1)"
    by (metis prod.collapse)
  obtain r w2 where g: "GetSchema mem_client mini_json (ms_SchemaID (mini_schema 3 ''ev'')) 0 w1 = (r, w2)" by fastforce
  have "valid_utf8 (ms_SchemaID (mini_schema 3 ''ev''))" by code_simp
  from create_then_get_schema [OF memreg.etcd_registry_axioms c this _ g] c g e(2)
  show ?thesis by (auto simp: mini_schema_def)
qed

text \<open>
  \<^verbatim>\<open>ListSchemaVersions\<close> returns exactly the stored versions of the schema, in strictly
  increasing order of the version, whatever the sort does with ties.
\<close>

lemma list_schema_versions_exact:
  assumes "etcd_registry cli kvs jc" "ListSchemaVersions cli jc srt i w = (Inr ss, w')"
    "is_sort ms_Version srt" "versions_wf jc (kvs w) i"
  shows "sorted_wrt (<) (map ms_Version ss) \<and> set ss = {s. \<exists>v. schema_of jc (kvs w) i v = Some s}"
  by (rule etcd_registry.ListSchemaVersions_exact [OF assms])

lemma list_schema_versions_exact_example:
  "\<exists>w'. ListSchemaVersions mem_client mini_json (sort_key ms_Version) ''ev'' mem_reg
       = (Inr [mini_schema 1 ''ev'', mini_schema 2 ''ev''], w')
     \<and> {s. \<exists>v. schema_of mini_json (mem_view mem_reg) ''ev'' v = Some s} = {mini_schema 1 ''ev'', mini_schema 2 ''ev''}"
proof -
  have e: "fst (ListSchemaVersions mem_client mini_json (sort_key ms_Version) ''ev'' mem_reg)
      = Inr [mini_schema 1 ''ev'', mini_schema 2 ''ev'']" by code_simp
  then obtain w' where l: "ListSchemaVersions mem_client mini_json (sort_key ms_Version) ''ev'' mem_reg
      = (Inr [mini_schema 1 ''ev'', mini_schema 2 ''ev''], w')" by (metis prod.collapse)
  have "list_all (\<lambda>(k, b). prefix (schemaVersionsPrefix ''ev'') k \<longrightarrow>
      (case json_unmarshal mini_json b of Inl _ \<Rightarrow> False | Inr s \<Rightarrow> k = schemaVersionKey ''ev'' (ms_Version s))) (mem_kvs mem_reg)"
    by code_simp
  then have "versions_wf mini_json (mem_view mem_reg) ''ev''" unfolding mem_view_def by (rule versions_wf_list)
  with list_schema_versions_exact [OF memreg.etcd_registry_axioms l is_sort_sort_key] l show ?thesis by auto
qed

text \<open>
  C35: \<^verbatim>\<open>CreateSchema\<close> keeps the version areas of all (plainly named) schemas in good order and does not
  touch any flow, whatever its outcome.
\<close>

theorem create_schema_keeps_order:
  assumes "etcd_registry cli kvs jc" "CreateSchema cli jc (Some s) w = (r, w')"
    "valid_utf8 (ms_SchemaID s)" "plain (ms_SchemaID s)" "plain i" "versions_wf jc (kvs w) i" "plain n"
  shows "versions_wf jc (kvs w') i \<and> aflow_of pc (kvs w') n = aflow_of pc (kvs w) n"
proof -
  have "kvs w' = kvs w \<or> (\<exists>nv. scommitted jc (ms_SchemaID s) s nv (kvs w) (kvs w'))"
    using assms(2) etcd_registry.createSchemaVersion_cases [OF assms(1), of "ms_SchemaID s" s w r w']
    by (auto simp: CreateSchema_def split: if_splits)
  then show ?thesis
    using etcd_registry.scommitted_wf [OF assms(1) _ assms(3,4,5,6)]
      etcd_registry.scommitted_flows [OF assms(1) _ assms(4,7)] assms(6) by metis
qed

theorem create_schema_keeps_order_witness:
  "\<exists>s w'. CreateSchema mem_client mini_json (Some (mini_schema 0 ''ev'')) mem_reg = (Inr s, w') \<and> ms_Version s = 3
     \<and> versions_wf mini_json (mem_view w') ''ev'' \<and> versions_wf mini_json (mem_view w') ''event''
     \<and> aflow_of mini_codec (mem_view w') ''foo'' = aflow_of mini_codec (mem_view mem_reg) ''foo''"
proof -
  have "map_sum id ms_Version (fst (CreateSchema mem_client mini_json (Some (mini_schema 0 ''ev'')) mem_reg)) = Inr 3" by code_simp
  then obtain s w' where c: "CreateSchema mem_client mini_json (Some (mini_schema 0 ''ev'')) mem_reg = (Inr s, w')" "ms_Version s = 3"
    by (cases "CreateSchema mem_client mini_json (Some (mini_schema 0 ''ev'')) mem_reg") (auto simp: map_sum_def split: sum.splits)
  have l: "list_all (\<lambda>(k, b). prefix (schemaVersionsPrefix i) k \<longrightarrow>
      (case json_unmarshal mini_json b of Inl _ \<Rightarrow> False | Inr s \<Rightarrow> k = schemaVersionKey i (ms_Version s))) (mem_kvs mem_reg)"
    if "i = ''ev'' \<or> i = ''event''" for i
    using that by (elim disjE; simp only:) code_simp+
  have wf: "versions_wf mini_json (mem_view mem_reg) ''ev''" "versions_wf mini_json (mem_view mem_reg) ''event''"
    unfolding mem_view_def using l by (auto intro: versions_wf_list)
  have p: "plain ''ev''" "plain ''event''" "plain ''foo''" "valid_utf8 ''ev''" "ms_SchemaID (mini_schema 0 ''ev'') = ''ev''"
    by (simp_all add: plain_def byte_in_def mini_schema_def)
  note k = create_schema_keeps_order [OF memreg.etcd_registry_axioms c(1), unfolded p(5), OF p(4,1)]
  from k [OF p(1) wf(1) p(3)] k [OF p(2) wf(2) p(3)] c show ?thesis by blast
qed

text \<open>
  The extent of \<^verbatim>\<open>DeleteSchema\<close>. On success it empties exactly the schemas whose (plain) identifier
  has the deleted one as a prefix; every flow stays.
\<close>

lemma delete_schema_extent:
  assumes "etcd_registry cli kvs jc" "DeleteSchema cli i w = (r, w')" "plain i" "plain i'" "plain n"
  shows "(aschema_of jc (kvs w') i' = (if prefix i i' then s_empty else aschema_of jc (kvs w) i')
      \<or> isl r \<and> kvs w' = kvs w)
    \<and> aflow_of pc (kvs w') n = aflow_of pc (kvs w) n"
  using etcd_registry.DeleteSchema_cases [OF assms(1,2)]
  by (auto simp: aschema_of_delete [OF assms(3,4)] aflow_of_delete_schema [OF assms(3,5)])

lemma delete_schema_extent_example:
  "\<exists>w'. DeleteSchema mem_client ''ev'' mem_reg = (Inr (), w')
     \<and> as_active (aschema_of mini_json (mem_view mem_reg) ''event'') = Some 1
     \<and> aschema_of mini_json (mem_view w') ''event'' = s_empty"
proof -
  obtain r w' where g: "DeleteSchema mem_client ''ev'' mem_reg = (r, w')" by fastforce
  have "\<not> isl (fst (DeleteSchema mem_client ''ev'' mem_reg))"
    "as_active (aschema_of mini_json (mem_view mem_reg) ''event'') = Some 1" by code_simp+
  moreover from this obtain u where "r = Inr u" using g by (cases r) auto
  moreover have "plain ''ev''" "plain ''event''" by (simp_all add: plain_def)
  ultimately show ?thesis
    using delete_schema_extent [OF memreg.etcd_registry_axioms g, of "''event''" "''event''"] g
    by auto
qed

text \<open>
  C36: a schema identifier is not confined to the registry. A successful \<^verbatim>\<open>CreateSchema\<close> with the
  identifier \<^verbatim>\<open>../flows/n\<close> moves the active pointer of the flow \<^verbatim>\<open>n\<close> to the next version and stores no
  spec there: each spec of the flow is what it was.
\<close>

theorem schema_id_escapes:
  assumes "etcd_registry cli kvs jc" "CreateSchema cli jc (Some s) w = (Inr s', w')"
    "ms_SchemaID s = ''../flows/'' @ n" "plain n"
  shows "active_of (kvs w') n = Some (a_next (aflow_of pc (kvs w) n)) \<and> spec_of pc (kvs w') n = spec_of pc (kvs w) n"
proof -
  have "slash \<notin> set n" using assms(4) by blast
  then have "split_on slash (''../flows/'' @ n) = [''..'', ''flows'', n]" by (simp add: split_on_notin)
  then have sid: "schema_id (ms_SchemaID s) = flow_id n"
    using assms(4) by (simp add: assms(3) schema_id_def resolve_def plain_def)
  then have a: "schemaActiveKey (ms_SchemaID s) = activeKey n" unfolding flow_keys schema_keys by simp
  have v: "versionSpecKey n u \<noteq> schemaVersionKey (ms_SchemaID s) x" for u x
    unfolding flow_keys schema_keys sid
    by (subst abspath_eq_iff) (auto simp: flow_id_slash_free plain_slash_free)
  obtain nv b where nv: "nv = s_next (aschema_of jc (kvs w) (ms_SchemaID s))"
    and m: "kvs w' = (kvs w)(schemaVersionKey (ms_SchemaID s) (ucast nv) \<mapsto> b, activeKey n \<mapsto> FormatUint nv)"
    by (rule etcd_registry.CreateSchema_ok [OF assms(1,2)]) (auto simp: scommitted_def a)
  have "nv = a_next (aflow_of pc (kvs w) n)"
    by (simp add: nv s_next_def a_next_def aschema_of_def aflow_of_def sactive_of_def active_of_def a)
  then show ?thesis using v by (simp add: m active_of_def spec_of_def [abs_def])
qed

theorem schema_id_escapes_witness:
  "\<exists>s' w'. CreateSchema mem_client mini_json (Some (mini_schema 0 ''../flows/foo'')) mem_reg = (Inr s', w')
     \<and> active_of (mem_view w') ''foo'' = Some 2 \<and> spec_of mini_codec (mem_view w') ''foo'' 2 = None"
proof -
  have e: "\<not> isl (fst (CreateSchema mem_client mini_json (Some (mini_schema 0 ''../flows/foo'')) mem_reg))"
    "a_next (aflow_of mini_codec (mem_view mem_reg) ''foo'') = 2"
    "spec_of mini_codec (mem_view mem_reg) ''foo'' 2 = None" by code_simp+
  obtain r w' where c: "CreateSchema mem_client mini_json (Some (mini_schema 0 ''../flows/foo'')) mem_reg = (r, w')" by fastforce
  then obtain s' where r: "r = Inr s'" using e(1) by (cases r) auto
  have "plain ''foo''" by (simp add: plain_def)
  with schema_id_escapes [OF memreg.etcd_registry_axioms c [unfolded r], of "''foo''" mini_codec] c r e(2,3)
  show ?thesis by (auto simp: mini_schema_def)
qed

text \<open>
  The concatenating key builders of \<^verbatim>\<open>keys.go\<close> name the same keys as the joining ones of the
  store for every plain name.
\<close>

lemma key_builders_agree:
  assumes "plain n"
  shows "FlowActiveKey n = activeKey n \<and> FlowStatusKey n = statusKey n
    \<and> FlowVersionSpecKey n v = versionSpecKey n v \<and> prefix (FlowVersionsPrefix n) (versionSpecKey n v)
    \<and> FlowRoot n = flowPrefix n"
  using assms
  by (simp add: FlowRoot_def FlowActiveKey_def FlowStatusKey_def FlowVersionSpecKey_def FlowVersionsPrefix_def
      flow_keys flowPrefix_path rooted_def)

lemma key_builders_agree_example: "FlowActiveKey ''foo'' = activeKey ''foo''"
  using key_builders_agree [of "''foo''"] by (simp add: plain_def)

end
