(* ===== verification/Api_Service.thy ===== *)
theory Api_Service
  imports Schema_Store
begin

text \<open>
  The gRPC services of the API (\<^verbatim>\<open>flow_service.go\<close>, \<^verbatim>\<open>schema_registry_service.go\<close>) over the interface
  \<^verbatim>\<open>Store\<close> (\<^verbatim>\<open>store.go\<close>), a record of functions on a world, and the store of etcd as an instance of
  that interface. A call of a method of either service is a value of \<open>rpc_request\<close>; \<open>handle_rpc\<close> is the dispatch
  that registering the two services gives. Logging is left out.
\<close>

section \<open>Requests and responses\<close>

record GetFlowRequest =
  gfr_Name :: string

record DeleteFlowRequest =
  dfr_Name :: string

record GetFlowStatusRequest =
  gsr_Name :: string

record ListFlowsResponse =
  lfr_Flows :: "FlowSummary list"

record CreateSchemaRequest =
  csr_Schema :: "SchemaDefinition option"

record GetSchemaRequest =
  gscr_SchemaId :: string
  gscr_Version :: u32

record ListSchemaVersionsRequest =
  lsr_SchemaId :: string

record DeleteSchemaRequest =
  dsr_SchemaId :: string

record ListSchemaVersionsResponse =
  lsr_Schemas :: "SchemaDefinition option list"

section \<open>The store interface\<close>

text \<open>Results are pointers: \<open>None\<close> is nil.\<close>

record 'w Store =
  st_CreateSchema :: "model_schema option \<Rightarrow> 'w \<Rightarrow> (store_error + model_schema option) \<times> 'w"
  st_GetSchema :: "string \<Rightarrow> u32 \<Rightarrow> 'w \<Rightarrow> (store_error + model_schema option) \<times> 'w"
  st_ListSchemaVersions :: "string \<Rightarrow> 'w \<Rightarrow> (store_error + model_schema option list) \<times> 'w"
  st_DeleteSchema :: "string \<Rightarrow> 'w \<Rightarrow> (store_error + unit) \<times> 'w"
  st_CreateFlow :: "FlowSpec option \<Rightarrow> 'w \<Rightarrow> (store_error + Flow option) \<times> 'w"
  st_UpdateFlow :: "string \<Rightarrow> FlowSpec option \<Rightarrow> 'w \<Rightarrow> (store_error + Flow option) \<times> 'w"
  st_GetFlow :: "string \<Rightarrow> 'w \<Rightarrow> (store_error + Flow option) \<times> 'w"
  st_ListFlows :: "'w \<Rightarrow> (store_error + Flow option list) \<times> 'w"
  st_DeleteFlow :: "string \<Rightarrow> 'w \<Rightarrow> (store_error + unit) \<times> 'w"
  st_GetFlowStatus :: "string \<Rightarrow> 'w \<Rightarrow> (store_error + FlowStatus option) \<times> 'w"
  st_RollbackFlow :: "string \<Rightarrow> u64 \<Rightarrow> 'w \<Rightarrow> (store_error + Flow option) \<times> 'w"

text \<open>\<^verbatim>\<open>EtcdStore\<close> as a \<^verbatim>\<open>Store\<close>: what it returns is never nil, except a missing status.\<close>

definition etcd_as_store ::
  "'w etcd_client \<Rightarrow> proto_codec \<Rightarrow> json_codec \<Rightarrow> (model_schema list \<Rightarrow> model_schema list) \<Rightarrow> 'w Store" where
  "etcd_as_store cli pc jc srt =
     \<lparr>st_CreateSchema = (\<lambda>s. apfst (map_sum id Some) \<circ> CreateSchema cli jc s),
      st_GetSchema = (\<lambda>i v. apfst (map_sum id Some) \<circ> GetSchema cli jc i v),
      st_ListSchemaVersions = (\<lambda>i. apfst (map_sum id (map Some)) \<circ> ListSchemaVersions cli jc srt i),
      st_DeleteSchema = DeleteSchema cli,
      st_CreateFlow = (\<lambda>s. apfst (map_sum id Some) \<circ> CreateFlow cli pc s),
      st_UpdateFlow = (\<lambda>n s. apfst (map_sum id Some) \<circ> UpdateFlow cli pc n s),
      st_GetFlow = (\<lambda>n. apfst (map_sum id Some) \<circ> GetFlow cli pc n),
      st_ListFlows = apfst (map_sum id (map Some)) \<circ> ListFlows cli pc,
      st_DeleteFlow = DeleteFlow cli,
      st_GetFlowStatus = GetFlowStatus cli pc,
      st_RollbackFlow = (\<lambda>n v. apfst (map_sum id Some) \<circ> RollbackFlow cli pc n v)\<rparr>"

section \<open>FlowServer\<close>

definition FlowServer_CreateFlow :: "'w Store \<Rightarrow> CreateFlowRequest \<Rightarrow> 'w \<Rightarrow> (store_error + Flow option) \<times> 'w" where
  "FlowServer_CreateFlow st r w = st_CreateFlow st (cfr_Spec r) w"

definition FlowServer_UpdateFlow :: "'w Store \<Rightarrow> UpdateFlowRequest \<Rightarrow> 'w \<Rightarrow> (store_error + Flow option) \<times> 'w" where
  "FlowServer_UpdateFlow st r w = st_UpdateFlow st (ufr_Name r) (ufr_Spec r) w"

definition FlowServer_GetFlow :: "'w Store \<Rightarrow> GetFlowRequest \<Rightarrow> 'w \<Rightarrow> (store_error + Flow option) \<times> 'w" where
  "FlowServer_GetFlow st r w = st_GetFlow st (gfr_Name r) w"

fun summaries_of :: "Flow option list \<Rightarrow> FlowSummary list" where
  "summaries_of [] = []"
| "summaries_of (flow # flows) =
     (case flow of
        None \<Rightarrow> summaries_of flows
      | Some f \<Rightarrow> \<lparr>sum_Name = Flow_GetName flow, sum_Status = Flow_GetStatus flow\<rparr> # summaries_of flows)"

definition FlowServer_ListFlows :: "'w Store \<Rightarrow> 'w \<Rightarrow> (store_error + ListFlowsResponse) \<times> 'w" where
  "FlowServer_ListFlows st w =
     (case st_ListFlows st w of
        (Inl e, w') \<Rightarrow> (Inl e, w')
      | (Inr flows, w') \<Rightarrow> (Inr \<lparr>lfr_Flows = summaries_of flows\<rparr>, w'))"

definition FlowServer_DeleteFlow :: "'w Store \<Rightarrow> DeleteFlowRequest \<Rightarrow> 'w \<Rightarrow> (store_error + unit) \<times> 'w" where
  "FlowServer_DeleteFlow st r w = st_DeleteFlow st (dfr_Name r) w"

definition FlowServer_GetFlowStatus :: "'w Store \<Rightarrow> GetFlowStatusRequest \<Rightarrow> 'w \<Rightarrow> (store_error + FlowStatus option) \<times> 'w" where
  "FlowServer_GetFlowStatus st r w = st_GetFlowStatus st (gsr_Name r) w"

definition FlowServer_RollbackFlow :: "'w Store \<Rightarrow> RollbackFlowRequest \<Rightarrow> 'w \<Rightarrow> (store_error + Flow option) \<times> 'w" where
  "FlowServer_RollbackFlow st r w = st_RollbackFlow st (rfr_Name r) (rfr_Version r) w"

section \<open>SchemaRegistryServer\<close>

definition schemaToModel :: "SchemaDefinition option \<Rightarrow> model_schema option" where
  "schemaToModel schema =
     (case schema of
        None \<Rightarrow> None
      | Some _ \<Rightarrow> Some \<lparr>ms_SchemaID = GetSchemaId schema, ms_Version = Schema_GetVersion schema,
          ms_Format = Schema_GetFormat schema, ms_RawSchema = GetRawSchema schema\<rparr>)"

definition modelToSchema :: "model_schema option \<Rightarrow> SchemaDefinition option" where
  "modelToSchema schema =
     (case schema of
        None \<Rightarrow> None
      | Some s \<Rightarrow> Some \<lparr>sd_SchemaId = ms_SchemaID s, sd_Version = ms_Version s, sd_Format = ms_Format s,
          sd_RawSchema = ms_RawSchema s\<rparr>)"

definition modelsToSchemas :: "model_schema option list \<Rightarrow> SchemaDefinition option list" where
  "modelsToSchemas schemas = (if schemas = [] then [] else map modelToSchema schemas)"

definition SchemaServer_CreateSchema :: "'w Store \<Rightarrow> CreateSchemaRequest \<Rightarrow> 'w \<Rightarrow> (store_error + SchemaDefinition option) \<times> 'w" where
  "SchemaServer_CreateSchema st r w =
     (case st_CreateSchema st (schemaToModel (csr_Schema r)) w of
        (Inl e, w') \<Rightarrow> (Inl e, w')
      | (Inr created, w') \<Rightarrow> (Inr (modelToSchema created), w'))"

definition SchemaServer_GetSchema :: "'w Store \<Rightarrow> GetSchemaRequest \<Rightarrow> 'w \<Rightarrow> (store_error + SchemaDefinition option) \<times> 'w" where
  "SchemaServer_GetSchema st r w =
     (case st_GetSchema st (gscr_SchemaId r) (gscr_Version r) w of
        (Inl e, w') \<Rightarrow> (Inl e, w')
      | (Inr schema, w') \<Rightarrow> (Inr (modelToSchema schema), w'))"

definition SchemaServer_ListSchemaVersions ::
  "'w Store \<Rightarrow> ListSchemaVersionsRequest \<Rightarrow> 'w \<Rightarrow> (store_error + ListSchemaVersionsResponse) \<times> 'w" where
  "SchemaServer_ListSchemaVersions st r w =
     (case st_ListSchemaVersions st (lsr_SchemaId r) w of
        (Inl e, w') \<Rightarrow> (Inl e, w')
      | (Inr schemas, w') \<Rightarrow> (Inr \<lparr>lsr_Schemas = modelsToSchemas schemas\<rparr>, w'))"

definition SchemaServer_DeleteSchema :: "'w Store \<Rightarrow> DeleteSchemaRequest \<Rightarrow> 'w \<Rightarrow> (store_error + unit) \<times> 'w" where
  "SchemaServer_DeleteSchema st r w =
     (case st_DeleteSchema st (dsr_SchemaId r) w of
        (Inl e, w') \<Rightarrow> (Inl e, w')
      | (Inr _, w') \<Rightarrow> (Inr (), w'))"

section \<open>Calls\<close>

datatype rpc_request =
    RpcCreateFlow CreateFlowRequest
  | RpcUpdateFlow UpdateFlowRequest
  | RpcDeleteFlow DeleteFlowRequest
  | RpcGetFlow GetFlowRequest
  | RpcListFlows
  | RpcGetFlowStatus GetFlowStatusRequest
  | RpcRollbackFlow RollbackFlowRequest
  | RpcCreateSchema CreateSchemaRequest
  | RpcGetSchema GetSchemaRequest
  | RpcListSchemaVersions ListSchemaVersionsRequest
  | RpcDeleteSchema DeleteSchemaRequest

datatype rpc_response =
    FlowReply "Flow option"
  | FlowsReply ListFlowsResponse
  | StatusReply "FlowStatus option"
  | SchemaReply "SchemaDefinition option"
  | SchemasReply ListSchemaVersionsResponse
  | EmptyReply

text \<open>
  What a caller sees of a failure: a status the server made itself, an error of the store, which
  gRPC reports with its text, or a failure of the transport (the deadline of the caller included).
\<close>

datatype rpc_error =
    Unauthenticated string
  | InvalidArgument string
  | StoreFailed store_error
  | TransportFailed string

definition rpc_result :: "('a \<Rightarrow> rpc_response) \<Rightarrow> (store_error + 'a) \<times> 'w \<Rightarrow> (rpc_error + rpc_response) \<times> 'w" where
  "rpc_result reply = apfst (map_sum StoreFailed reply)"

fun handle_rpc :: "'w Store \<Rightarrow> rpc_request \<Rightarrow> 'w \<Rightarrow> (rpc_error + rpc_response) \<times> 'w" where
  "handle_rpc st (RpcCreateFlow r) w = rpc_result FlowReply (FlowServer_CreateFlow st r w)"
| "handle_rpc st (RpcUpdateFlow r) w = rpc_result FlowReply (FlowServer_UpdateFlow st r w)"
| "handle_rpc st (RpcDeleteFlow r) w = rpc_result (\<lambda>_. EmptyReply) (FlowServer_DeleteFlow st r w)"
| "handle_rpc st (RpcGetFlow r) w = rpc_result FlowReply (FlowServer_GetFlow st r w)"
| "handle_rpc st RpcListFlows w = rpc_result FlowsReply (FlowServer_ListFlows st w)"
| "handle_rpc st (RpcGetFlowStatus r) w = rpc_result StatusReply (FlowServer_GetFlowStatus st r w)"
| "handle_rpc st (RpcRollbackFlow r) w = rpc_result FlowReply (FlowServer_RollbackFlow st r w)"
| "handle_rpc st (RpcCreateSchema r) w = rpc_result SchemaReply (SchemaServer_CreateSchema st r w)"
| "handle_rpc st (RpcGetSchema r) w = rpc_result SchemaReply (SchemaServer_GetSchema st r w)"
| "handle_rpc st (RpcListSchemaVersions r) w = rpc_result SchemasReply (SchemaServer_ListSchemaVersions st r w)"
| "handle_rpc st (RpcDeleteSchema r) w = rpc_result (\<lambda>_. EmptyReply) (SchemaServer_DeleteSchema st r w)"

lemma summaries_of_some [simp]:
  "summaries_of (map Some fs) = map (\<lambda>f. \<lparr>sum_Name = fl_Name f, sum_Status = fl_Status f\<rparr>) fs"
  by (induction fs) auto

lemma schema_conversion [simp]: "schemaToModel (modelToSchema m) = m" "modelToSchema (schemaToModel s) = s"
  by (auto simp: schemaToModel_def modelToSchema_def split: option.splits)

lemma rpc_result_iff:
  "rpc_result reply x = (r, w') \<longleftrightarrow> (\<exists>y. x = (y, w') \<and> r = map_sum StoreFailed reply y)"
  by (cases x) (auto simp: rpc_result_def)

end
