(* ===== verification/Go_Flag.thy ===== *)
theory Go_Flag
  imports Go_Strings
begin

text \<open>
  What the configuration of the programs uses of Go's standard library: the signed integers of
  \<^verbatim>\<open>strconv\<close> (\<^verbatim>\<open>Atoi\<close>, \<^verbatim>\<open>ParseInt\<close> with base 0, \<^verbatim>\<open>ParseBool\<close>), \<^verbatim>\<open>time.ParseDuration\<close>, and the command
  line of the \<^verbatim>\<open>flag\<close> package. The environment is a function from names to values, \<open>None\<close> for an unset
  variable. Floating-point arithmetic enters only in the fraction of a duration and is a parameter
  there.

  The lemmas say what a command line of the form \<^verbatim>\<open>--name=value\<close> sets, and bound the integers.
\<close>

section \<open>Signed integers\<close>

definition split_sign :: "string \<Rightarrow> bool \<times> string" where
  "split_sign s = (case s of
       CHR ''-'' # t \<Rightarrow> (True, t)
     | CHR ''+'' # t \<Rightarrow> (False, t)
     | _ \<Rightarrow> (False, s))"

definition signed_in_range :: "bool \<Rightarrow> nat \<Rightarrow> int option" where
  "signed_in_range neg un =
     (if neg then (if un \<le> 2 ^ 63 then Some (- int un) else None)
      else (if un < 2 ^ 63 then Some (int un) else None))"

text \<open>\<^verbatim>\<open>strconv.Atoi\<close> on a 64-bit platform.\<close>

definition Atoi :: "string \<Rightarrow> int option" where
  "Atoi s = (case split_sign s of (neg, t) \<Rightarrow>
     (case ParseUint t 64 of None \<Rightarrow> None | Some un \<Rightarrow> signed_in_range neg un))"

text \<open>Digits of \<^verbatim>\<open>strconv.ParseUint\<close> with base 0: letters count as digits from ten on, underscores are skipped.\<close>

definition lower_ascii :: "char \<Rightarrow> char" where
  "lower_ascii c = (if of_char c \<in> {65..90::nat} then char_of (of_char c + 32 :: nat) else c)"

definition digit_of :: "char \<Rightarrow> nat option" where
  "digit_of c =
     (let n = of_char c :: nat; l = of_char (lower_ascii c) :: nat in
      if 48 \<le> n \<and> n \<le> 57 then Some (n - 48)
      else if 97 \<le> l \<and> l \<le> 122 then Some (l - 97 + 10) else None)"

fun parse_base :: "nat \<Rightarrow> nat \<Rightarrow> string \<Rightarrow> nat option" where
  "parse_base b n [] = Some n"
| "parse_base b n (c # s) =
     (if c = CHR ''_'' then parse_base b n s
      else case digit_of c of
             None \<Rightarrow> None
           | Some d \<Rightarrow>
               if b \<le> d then None
               else if n * b + d < 2 ^ 64 then parse_base b (n * b + d) s else None)"

definition base_prefix :: "string \<Rightarrow> nat \<times> string" where
  "base_prefix s =
     (case s of
        CHR ''0'' # c # d # t \<Rightarrow>
          if lower_ascii c = CHR ''b'' then (2, d # t)
          else if lower_ascii c = CHR ''o'' then (8, d # t)
          else if lower_ascii c = CHR ''x'' then (16, d # t)
          else (8, c # d # t)
      | CHR ''0'' # t \<Rightarrow> (8, t)
      | _ \<Rightarrow> (10, s))"

text \<open>The last character seen: \<^verbatim>\<open>^\<close> at the start, \<^verbatim>\<open>0\<close> for a digit or prefix, \<^verbatim>\<open>_\<close>, or \<^verbatim>\<open>!\<close> for anything else.\<close>

fun underscores_ok :: "bool \<Rightarrow> char \<Rightarrow> string \<Rightarrow> bool" where
  "underscores_ok hex prev [] = (prev \<noteq> CHR ''_'')"
| "underscores_ok hex prev (c # s) =
     (if is_digit c \<or> hex \<and> of_char (lower_ascii c) \<in> {97..102::nat} then underscores_ok hex (CHR ''0'') s
      else if c = CHR ''_'' then prev = CHR ''0'' \<and> underscores_ok hex (CHR ''_'') s
      else prev \<noteq> CHR ''_'' \<and> underscores_ok hex (CHR ''!'') s)"

definition underscoreOK :: "string \<Rightarrow> bool" where
  "underscoreOK s =
     (let t = snd (split_sign s) in
      case t of
        CHR ''0'' # c # u \<Rightarrow>
          if lower_ascii c \<in> {CHR ''b'', CHR ''o'', CHR ''x''}
          then underscores_ok (lower_ascii c = CHR ''x'') (CHR ''0'') u
          else underscores_ok False (CHR ''^'') t
      | _ \<Rightarrow> underscores_ok False (CHR ''^'') t)"

definition ParseInt0 :: "string \<Rightarrow> int option" where
  "ParseInt0 s =
     (case split_sign s of (neg, t) \<Rightarrow>
        if t = [] then None
        else case base_prefix t of (b, u) \<Rightarrow>
          (case parse_base b 0 u of
             None \<Rightarrow> None
           | Some un \<Rightarrow>
               if CHR ''_'' \<in> set t \<and> \<not> underscoreOK t then None else signed_in_range neg un))"

definition ParseBool :: "string \<Rightarrow> bool option" where
  "ParseBool s =
     (if s \<in> {''1'', ''t'', ''T'', ''true'', ''TRUE'', ''True''} then Some True
      else if s \<in> {''0'', ''f'', ''F'', ''false'', ''FALSE'', ''False''} then Some False
      else None)"

definition in_int64 :: "int \<Rightarrow> bool" where
  "in_int64 i \<longleftrightarrow> - (2 ^ 63) \<le> i \<and> i < 2 ^ 63"

lemma signed_in_range_bound: "signed_in_range neg un = Some i \<Longrightarrow> in_int64 i"
proof -
  assume "signed_in_range neg un = Some i"
  then have "i = (if neg then - int un else int un)" "if neg then un \<le> 2 ^ 63 else un < 2 ^ 63"
    by (auto simp: signed_in_range_def split: if_splits)
  moreover have "int un \<le> 2 ^ 63" if "un \<le> 2 ^ 63" using that by (metis of_nat_le_iff of_nat_numeral of_nat_power)
  moreover have "int un < 2 ^ 63" if "un < 2 ^ 63" using that by (metis of_nat_less_iff of_nat_numeral of_nat_power)
  ultimately show ?thesis by (cases neg) (auto simp: in_int64_def)
qed

lemma Atoi_bound: "Atoi s = Some i \<Longrightarrow> in_int64 i"
  by (auto simp: Atoi_def split: prod.splits option.splits dest: signed_in_range_bound)

lemma ParseInt0_bound: "ParseInt0 s = Some i \<Longrightarrow> in_int64 i"
  by (auto simp: ParseInt0_def split: prod.splits option.splits if_splits dest: signed_in_range_bound)

section \<open>Durations\<close>

text \<open>
  \<^verbatim>\<open>time.ParseDuration\<close> in nanoseconds. \<open>fmul f e unit\<close> stands for the floating-point expression
  \<^verbatim>\<open>uint64(float64(f) * (float64(unit) / scale))\<close> with \<^verbatim>\<open>scale\<close> the \<open>e\<close>-th power of ten.
\<close>

fun leadingInt :: "nat \<Rightarrow> string \<Rightarrow> (nat \<times> string) option" where
  "leadingInt x [] = Some (x, [])"
| "leadingInt x (c # s) =
     (if \<not> is_digit c then Some (x, c # s)
      else if x > 2 ^ 63 div 10 then None
      else if x * 10 + digit_value c > 2 ^ 63 then None
      else leadingInt (x * 10 + digit_value c) s)"

text \<open>After the first digit that would overflow the remaining digits are skipped.\<close>

fun leadingFraction :: "nat \<Rightarrow> nat \<Rightarrow> bool \<Rightarrow> string \<Rightarrow> nat \<times> nat \<times> string" where
  "leadingFraction x e overflow [] = (x, e, [])"
| "leadingFraction x e overflow (c # s) =
     (if \<not> is_digit c then (x, e, c # s)
      else if overflow then leadingFraction x e True s
      else if x > (2 ^ 63 - 1) div 10 then leadingFraction x e True s
      else if x * 10 + digit_value c > 2 ^ 63 then leadingFraction x e True s
      else leadingFraction (x * 10 + digit_value c) (e + 1) False s)"

definition unit_of :: "string \<Rightarrow> nat option" where
  "unit_of u = map_of
     [(''ns'', 1), (''us'', 1000), ([CHR 0xC2, CHR 0xB5, CHR ''s''], 1000), ([CHR 0xCE, CHR 0xBC, CHR ''s''], 1000),
      (''ms'', 1000000), (''s'', 1000000000), (''m'', 60000000000), (''h'', 3600000000000)] u"

definition unit_char :: "char \<Rightarrow> bool" where
  "unit_char c \<longleftrightarrow> c \<noteq> CHR ''.'' \<and> \<not> is_digit c"

text \<open>The fraction after a dot, and whether it has digits.\<close>

definition fraction_part :: "string \<Rightarrow> nat \<times> nat \<times> string \<times> bool" where
  "fraction_part s1 =
     (if s1 \<noteq> [] \<and> hd s1 = CHR ''.''
      then (case leadingFraction 0 0 False (tl s1) of (f, e, t') \<Rightarrow> (f, e, t', length (tl s1) \<noteq> length t'))
      else (0, 0, s1, False))"

text \<open>One number with its unit: the value in nanoseconds and the rest.\<close>

definition duration_part :: "(nat \<Rightarrow> nat \<Rightarrow> nat \<Rightarrow> nat) \<Rightarrow> string \<Rightarrow> (nat \<times> string) option" where
  "duration_part fmul s =
     (case s of
        [] \<Rightarrow> None
      | c # _ \<Rightarrow>
          if \<not> (c = CHR ''.'' \<or> is_digit c) then None
          else case leadingInt 0 s of
                 None \<Rightarrow> None
               | Some (v, s1) \<Rightarrow>
                   let pre = length s \<noteq> length s1; (f, e, s2, post) = fraction_part s1
                   in if \<not> pre \<and> \<not> post then None
                      else let u = takeWhile unit_char s2; s3 = dropWhile unit_char s2 in
                        if u = [] then None
                        else case unit_of u of
                               None \<Rightarrow> None
                             | Some unit \<Rightarrow>
                                 if v > 2 ^ 63 div unit then None
                                 else let v1 = v * unit; v2 = (if f > 0 then v1 + fmul f e unit else v1) in
                                   if f > 0 \<and> v2 > 2 ^ 63 then None else Some (v2, s3))"

lemma leadingInt_length: "leadingInt x s = Some (v, t) \<Longrightarrow> length t \<le> length s"
  by (induction x s rule: leadingInt.induct) (auto split: if_splits)

lemma leadingFraction_length: "leadingFraction x e ov s = (f, e', t) \<Longrightarrow> length t \<le> length s"
  by (induction x e ov s rule: leadingFraction.induct) (auto split: if_splits)

lemma fraction_part_length: "fraction_part s = (f, e, t, p) \<Longrightarrow> length t \<le> length s"
  by (auto simp: fraction_part_def split: if_splits prod.splits dest!: leadingFraction_length)

lemma duration_part_length:
  assumes a: "duration_part fmul s = Some (v, t)"
  shows "length t < length s"
proof -
  obtain v0 s1 where l: "leadingInt 0 s = Some (v0, s1)"
    using a by (auto simp: duration_part_def split: list.splits if_splits option.splits)
  obtain f e s2 p where f: "fraction_part s1 = (f, e, s2, p)" by (metis prod_cases4)
  have t: "t = dropWhile unit_char s2" "takeWhile unit_char s2 \<noteq> []"
    using a l f by (auto simp: duration_part_def Let_def split: list.splits if_splits option.splits)
  have "length (dropWhile unit_char s2) < length s2"
    using t(2) by (metis length_greater_0_conv length_append less_add_same_cancel2 takeWhile_dropWhile_id)
  with leadingInt_length [OF l] fraction_part_length [OF f] t show ?thesis by simp
qed

function duration_loop :: "(nat \<Rightarrow> nat \<Rightarrow> nat \<Rightarrow> nat) \<Rightarrow> nat \<Rightarrow> string \<Rightarrow> nat option" where
  "duration_loop fmul d s =
     (if s = [] then Some d
      else case duration_part fmul s of
             None \<Rightarrow> None
           | Some (v, t) \<Rightarrow> if d + v > 2 ^ 63 then None else duration_loop fmul (d + v) t)"
  by pat_completeness auto
termination
  by (relation "measure (\<lambda>(_, _, s). length s)") (auto dest: duration_part_length)

declare duration_loop.simps [simp del]

definition ParseDuration :: "(nat \<Rightarrow> nat \<Rightarrow> nat \<Rightarrow> nat) \<Rightarrow> string \<Rightarrow> int option" where
  "ParseDuration fmul s =
     (case split_sign s of (neg, t) \<Rightarrow>
        if t = ''0'' then Some 0
        else if t = [] then None
        else case duration_loop fmul 0 t of
               None \<Rightarrow> None
             | Some d \<Rightarrow> signed_in_range neg d)"

lemma ParseDuration_bound: "ParseDuration fmul s = Some i \<Longrightarrow> in_int64 i"
  by (auto simp: ParseDuration_def split: prod.splits if_splits option.splits dest: signed_in_range_bound)
    (simp add: in_int64_def)

section \<open>The command line\<close>

text \<open>
  A flag set maps the names of the declared flags to their current values, at first the defaults. The kind
  of a flag is the constructor of its value and never changes.
\<close>

datatype flag_value = StringV string | BoolV bool | IntV int | DurationV int

datatype flag_error =
    BadFlagSyntax string
  | FlagHelp
  | FlagNotDefined string
  | FlagNeedsArgument string
  | InvalidFlagValue string string

type_synonym flag_set = "(string \<times> flag_value) list"

fun set_value :: "(nat \<Rightarrow> nat \<Rightarrow> nat \<Rightarrow> nat) \<Rightarrow> flag_value \<Rightarrow> string \<Rightarrow> flag_value option" where
  "set_value fmul (StringV _) v = Some (StringV v)"
| "set_value fmul (BoolV _) v = map_option BoolV (ParseBool v)"
| "set_value fmul (IntV _) v = map_option IntV (ParseInt0 v)"
| "set_value fmul (DurationV _) v = map_option DurationV (ParseDuration fmul v)"

definition split_flag :: "string \<Rightarrow> string \<times> string option" where
  "split_flag s =
     (takeWhile (\<lambda>c. c \<noteq> CHR ''='') s,
      case dropWhile (\<lambda>c. c \<noteq> CHR ''='') s of [] \<Rightarrow> None | _ # v \<Rightarrow> Some v)"

definition strip_minuses :: "string \<Rightarrow> string" where
  "strip_minuses s = (if s ! 1 = CHR ''-'' then drop 2 s else drop 1 s)"

definition set_flag ::
  "(nat \<Rightarrow> nat \<Rightarrow> nat \<Rightarrow> nat) \<Rightarrow> flag_set \<Rightarrow> string \<Rightarrow> flag_value \<Rightarrow> string \<Rightarrow> flag_error + flag_set" where
  "set_flag fmul fs name old v =
     (case set_value fmul old v of
        None \<Rightarrow> Inl (InvalidFlagValue name v)
      | Some x \<Rightarrow> Inr (AList.update name x fs))"

text \<open>
  The value a flag is set to and the arguments left: a boolean flag takes only a value joined by \<^verbatim>\<open>=\<close>, another flag
  without one takes the next argument.
\<close>

definition flag_argument :: "flag_value \<Rightarrow> string option \<Rightarrow> string list \<Rightarrow> (string \<times> string list) option" where
  "flag_argument old val rest =
     (case val of
        Some v \<Rightarrow> Some (v, rest)
      | None \<Rightarrow>
          (case old of
             BoolV _ \<Rightarrow> Some (''true'', rest)
           | _ \<Rightarrow> (case rest of [] \<Rightarrow> None | v # rest' \<Rightarrow> Some (v, rest'))))"

lemma flag_argument_length: "flag_argument old val rest = Some (v, rest') \<Longrightarrow> length rest' \<le> length rest"
  by (auto simp: flag_argument_def split: option.splits flag_value.splits list.splits)

text \<open>\<^verbatim>\<open>flag.Parse\<close>: the flag set after the command line and the arguments left, or the error the program exits with.\<close>

function parse_flags ::
  "(nat \<Rightarrow> nat \<Rightarrow> nat \<Rightarrow> nat) \<Rightarrow> flag_set \<Rightarrow> string list \<Rightarrow> flag_error + flag_set \<times> string list" where
  "parse_flags fmul fs [] = Inr (fs, [])"
| "parse_flags fmul fs (s # rest) =
     (if length s < 2 \<or> hd s \<noteq> CHR ''-'' then Inr (fs, s # rest)
      else if s = ''--'' then Inr (fs, rest)
      else let nm = strip_minuses s in
        if nm = [] \<or> hd nm = CHR ''-'' \<or> hd nm = CHR ''='' then Inl (BadFlagSyntax s)
        else (case split_flag nm of (name, val) \<Rightarrow>
          (case map_of fs name of
             None \<Rightarrow> Inl (if name = ''help'' \<or> name = ''h'' then FlagHelp else FlagNotDefined name)
           | Some old \<Rightarrow>
               (case flag_argument old val rest of
                  None \<Rightarrow> Inl (FlagNeedsArgument name)
                | Some (v, rest') \<Rightarrow>
                    (case set_flag fmul fs name old v of
                       Inl e \<Rightarrow> Inl e
                     | Inr fs' \<Rightarrow> parse_flags fmul fs' rest')))))"
  by pat_completeness auto
termination
  by (relation "measure (\<lambda>(_, _, args). length args)") (auto dest!: flag_argument_length)

definition StringFlag :: "flag_set \<Rightarrow> string \<Rightarrow> string" where
  "StringFlag fs n = (case map_of fs n of Some (StringV s) \<Rightarrow> s | _ \<Rightarrow> '''')"

definition BoolFlag :: "flag_set \<Rightarrow> string \<Rightarrow> bool" where
  "BoolFlag fs n = (case map_of fs n of Some (BoolV b) \<Rightarrow> b | _ \<Rightarrow> False)"

definition IntFlag :: "flag_set \<Rightarrow> string \<Rightarrow> int" where
  "IntFlag fs n = (case map_of fs n of Some (IntV i) \<Rightarrow> i | _ \<Rightarrow> 0)"

definition DurationFlag :: "flag_set \<Rightarrow> string \<Rightarrow> int" where
  "DurationFlag fs n = (case map_of fs n of Some (DurationV i) \<Rightarrow> i | _ \<Rightarrow> 0)"

section \<open>Settings given as flags\<close>

text \<open>A list of settings, a later one overriding an earlier one of the same name, as a command line.\<close>

definition render_flags :: "(string \<times> string) list \<Rightarrow> string list" where
  "render_flags sets = map (\<lambda>(n, v). ''--'' @ n @ ''='' @ v) sets"

definition flag_name :: "string \<Rightarrow> bool" where
  "flag_name n \<longleftrightarrow> n \<noteq> '''' \<and> hd n \<noteq> CHR ''-'' \<and> CHR ''='' \<notin> set n"

text \<open>The settings a flag set accepts: declared names, values of their kind.\<close>

definition accepts :: "(nat \<Rightarrow> nat \<Rightarrow> nat \<Rightarrow> nat) \<Rightarrow> flag_set \<Rightarrow> (string \<times> string) list \<Rightarrow> bool" where
  "accepts fmul fs sets \<longleftrightarrow>
     (\<forall>(n, v)\<in>set sets. flag_name n \<and> (\<exists>old. map_of fs n = Some old \<and> set_value fmul old v \<noteq> None))"

definition flag_result :: "(nat \<Rightarrow> nat \<Rightarrow> nat \<Rightarrow> nat) \<Rightarrow> flag_set \<Rightarrow> (string \<times> string) list \<Rightarrow> string \<Rightarrow> flag_value option" where
  "flag_result fmul fs sets n =
     (case map_of fs n of
        None \<Rightarrow> None
      | Some old \<Rightarrow> (case map_of (rev sets) n of None \<Rightarrow> Some old | Some v \<Rightarrow> set_value fmul old v))"

lemma split_flag_render [simp]: "flag_name n \<Longrightarrow> split_flag (n @ CHR ''='' # v) = (n, Some v)"
proof -
  assume "flag_name n"
  then have "\<forall>c\<in>set n. c \<noteq> CHR ''=''" by (auto simp: flag_name_def)
  then show ?thesis by (simp add: split_flag_def takeWhile_tail dropWhile_append2)
qed

lemma set_value_kind:
  "set_value fmul old v = Some x \<Longrightarrow> set_value fmul x = set_value fmul old"
  by (cases old) (auto simp: fun_eq_iff)

lemma parse_flags_render_step:
  assumes "flag_name n" "map_of fs n = Some old" "set_value fmul old v = Some x"
  shows "parse_flags fmul fs ((''--'' @ n @ ''='' @ v) # rest) = parse_flags fmul (AList.update n x fs) rest"
proof -
  from assms(1) obtain c m where n: "n = c # m" "c \<noteq> CHR ''-''" "c \<noteq> CHR ''=''"
    by (cases n) (auto simp: flag_name_def)
  have "split_flag (c # m @ CHR ''='' # v) = (n, Some v)" using split_flag_render [OF assms(1), of v] n by simp
  with n assms show ?thesis by (cases old) (auto simp: set_flag_def strip_minuses_def flag_argument_def split: option.splits)
qed

lemma parse_flags_render:
  assumes "accepts fmul fs sets"
  shows "\<exists>fs'. parse_flags fmul fs (render_flags sets) = Inr (fs', []) \<and> (\<forall>n. map_of fs' n = flag_result fmul fs sets n)"
  using assms
proof (induction sets arbitrary: fs)
  case Nil
  then show ?case by (auto simp: render_flags_def flag_result_def split: option.splits)
next
  case (Cons s sets)
  obtain n v where s: "s = (n, v)" by (cases s)
  obtain old x where o: "flag_name n" "map_of fs n = Some old" "set_value fmul old v = Some x"
    using Cons.prems s by (auto simp: accepts_def)
  let ?fs = "AList.update n x fs"
  have "accepts fmul ?fs sets"
    using Cons.prems s o set_value_kind [OF o(3)] by (fastforce simp: accepts_def)
  from Cons.IH [OF this] obtain fs' where p: "parse_flags fmul ?fs (render_flags sets) = Inr (fs', [])"
    and m: "\<forall>n. map_of fs' n = flag_result fmul ?fs sets n" by blast
  have "parse_flags fmul fs (render_flags (s # sets)) = Inr (fs', [])"
    using p parse_flags_render_step [OF o] s by (simp add: render_flags_def)
  moreover have "map_of fs' k = flag_result fmul fs (s # sets) k" for k
    using m o s set_value_kind [OF o(3)]
    by (cases "k = n"; cases "map_of (rev sets) k") (auto simp: flag_result_def map_add_def split: option.splits)
  ultimately show ?case by blast
qed

section \<open>Kinds and ranges\<close>

text \<open>A command line never changes the kind of a flag, and never stores an integer out of range.\<close>

fun same_kind :: "flag_value \<Rightarrow> flag_value \<Rightarrow> bool" where
  "same_kind (StringV _) (StringV _) = True"
| "same_kind (BoolV _) (BoolV _) = True"
| "same_kind (IntV _) (IntV _) = True"
| "same_kind (DurationV _) (DurationV _) = True"
| "same_kind _ _ = False"

fun flag_in_range :: "flag_value \<Rightarrow> bool" where
  "flag_in_range (IntV i) = in_int64 i"
| "flag_in_range (DurationV i) = in_int64 i"
| "flag_in_range _ = True"

definition keeps_types :: "flag_set \<Rightarrow> flag_set \<Rightarrow> bool" where
  "keeps_types fs fs' \<longleftrightarrow>
     (\<forall>n a. map_of fs n = Some a \<longrightarrow>
        (\<exists>b. map_of fs' n = Some b \<and> same_kind a b \<and> (flag_in_range a \<longrightarrow> flag_in_range b)))"

lemma same_kind_refl: "same_kind a a"
  by (cases a) auto

lemma keeps_types_refl: "keeps_types fs fs"
  by (simp add: keeps_types_def same_kind_refl)

lemma same_kind_trans: "same_kind a b \<Longrightarrow> same_kind b c \<Longrightarrow> same_kind a c"
  by (cases a; cases b; cases c) auto

lemma keeps_types_trans: "keeps_types a b \<Longrightarrow> keeps_types b c \<Longrightarrow> keeps_types a c"
  unfolding keeps_types_def by (meson same_kind_trans)

lemma set_value_types:
  "set_value fmul old v = Some x \<Longrightarrow> same_kind old x \<and> (flag_in_range old \<longrightarrow> flag_in_range x)"
  by (cases old) (auto dest: ParseInt0_bound ParseDuration_bound)

lemma set_flag_types:
  assumes "set_flag fmul fs n old v = Inr fs'" "map_of fs n = Some old"
  shows "keeps_types fs fs'"
proof -
  obtain x where x: "set_value fmul old v = Some x" "fs' = AList.update n x fs"
    using assms(1) by (auto simp: set_flag_def split: option.splits)
  then show ?thesis using set_value_types [OF x(1)] assms(2)
    by (simp add: keeps_types_def same_kind_refl)
qed

lemma parse_flags_types: "parse_flags fmul fs args = Inr (fs', rest) \<Longrightarrow> keeps_types fs fs'"
proof (induction fmul fs args rule: parse_flags.induct)
  case (1 fmul fs)
  then show ?case by (simp add: keeps_types_refl)
next
  case (2 fmul fs s rest')
  show ?case
  proof (cases "length s < 2 \<or> hd s \<noteq> CHR ''-'' \<or> s = ''--''")
    case True
    then show ?thesis using "2.prems" by (auto simp: keeps_types_refl split: if_splits)
  next
    case False
    define nm where "nm = strip_minuses s"
    obtain name val where sp: "split_flag nm = (name, val)" by fastforce
    have ok: "\<not> (nm = [] \<or> hd nm = CHR ''-'' \<or> hd nm = CHR ''='')"
      using "2.prems" False by (auto simp: nm_def Let_def split: if_splits)
    obtain old where old: "map_of fs name = Some old"
      using "2.prems" False ok sp by (auto simp: Let_def nm_def [symmetric] split: option.splits)
    obtain v r where arg: "flag_argument old val rest' = Some (v, r)"
      using "2.prems" False ok sp old by (auto simp: Let_def nm_def [symmetric] split: option.splits)
    obtain fs1 where step: "set_flag fmul fs name old v = Inr fs1" "parse_flags fmul fs1 r = Inr (fs', rest)"
      using "2.prems" False ok sp old arg by (auto simp: Let_def nm_def [symmetric] split: sum.splits)
    have "keeps_types fs1 fs'"
      using "2.IH" [OF _ _ nm_def ok sp [symmetric] old arg refl step(1) step(2)] False by blast
    then show ?thesis by (rule keeps_types_trans [OF set_flag_types [OF step(1) old]])
  qed
qed

end
