(* ===== verification/Program_Config.thy ===== *)
theory Program_Config
  imports Go_Flag
begin

text \<open>
  The configuration of the API server and of the controller (\<^verbatim>\<open>config.go\<close>, \<^verbatim>\<open>env.go\<close>, \<^verbatim>\<open>load.go\<close>, \<^verbatim>\<open>util.go\<close> of
  the two \<^verbatim>\<open>config\<close> packages) and of the command line tool (\<^verbatim>\<open>root.go\<close>): every setting is a flag whose
  default comes from an environment variable, or from the program. \<^verbatim>\<open>Load\<close> takes the environment and
  the command line and returns the configuration, or the error of the flag package with which the program exits.
\<close>

type_synonym environ = "string \<Rightarrow> string option"
type_synonym float_mul = "nat \<Rightarrow> nat \<Rightarrow> nat \<Rightarrow> nat"

definition Getenv :: "environ \<Rightarrow> string \<Rightarrow> string" where
  "Getenv env key = (case env key of None \<Rightarrow> '''' | Some v \<Rightarrow> v)"

section \<open>The API server\<close>

record Config =
  GRPCAddr :: string
  HTTPAddr :: string
  EtcdEndpoints :: "string list"
  OTLPEndpoint :: string
  ServiceName :: string
  ObservabilityEnabled :: bool
  LogLevel :: string
  AuthEnabled :: bool
  APIKey :: string
  HTTPTLSEnabled :: bool
  HTTPTLSCertFile :: string
  HTTPTLSKeyFile :: string
  GRPCTLSEnabled :: bool
  GRPCTLSCertFile :: string
  GRPCTLSKeyFile :: string
  GRPCTLSServerName :: string

definition envOrDefault :: "environ \<Rightarrow> string \<Rightarrow> string \<Rightarrow> string" where
  "envOrDefault env key def = (let v = Getenv env key in if v \<noteq> '''' then v else def)"

definition envBoolOrDefault :: "environ \<Rightarrow> string \<Rightarrow> bool \<Rightarrow> bool" where
  "envBoolOrDefault env key def =
     (let v = Getenv env key in
      if v \<noteq> '''' then
        (let l = ToLower v in
         if l \<in> {''1'', ''true'', ''t'', ''yes'', ''y''} then True
         else if l \<in> {''0'', ''false'', ''f'', ''no'', ''n''} then False
         else def)
      else def)"

definition splitComma :: "string \<Rightarrow> string list" where
  "splitComma v = filter (\<lambda>p. p \<noteq> '''') (split_on (CHR '','') v)"

definition load_flags :: "environ \<Rightarrow> flag_set" where
  "load_flags env =
     [(''grpc-addr'', StringV (envOrDefault env ''FLOW_GRPC_ADDR'' '':9090'')),
      (''http-addr'', StringV (envOrDefault env ''FLOW_HTTP_ADDR'' '':8080'')),
      (''etcd'', StringV (envOrDefault env ''ETCD_ENDPOINTS'' ''http://127.0.0.1:2379'')),
      (''otel-endpoint'', StringV (envOrDefault env ''OTEL_EXPORTER_OTLP_ENDPOINT'' ''localhost:4317'')),
      (''service-name'', StringV (envOrDefault env ''OTEL_SERVICE_NAME'' ''flow-api'')),
      (''observability-enabled'', BoolV (envBoolOrDefault env ''FLOW_OBSERVABILITY_ENABLED'' False)),
      (''log-level'', StringV (envOrDefault env ''FLOW_LOG_LEVEL'' ''info'')),
      (''auth-enabled'', BoolV (envBoolOrDefault env ''FLOW_AUTH_ENABLED'' False)),
      (''api-key'', StringV (envOrDefault env ''FLOW_API_KEY'' '''')),
      (''http-tls-enabled'', BoolV (envBoolOrDefault env ''FLOW_HTTP_TLS_ENABLED'' False)),
      (''http-tls-cert'', StringV (envOrDefault env ''FLOW_HTTP_TLS_CERT'' '''')),
      (''http-tls-key'', StringV (envOrDefault env ''FLOW_HTTP_TLS_KEY'' '''')),
      (''grpc-tls-enabled'', BoolV (envBoolOrDefault env ''FLOW_GRPC_TLS_ENABLED'' False)),
      (''grpc-tls-cert'', StringV (envOrDefault env ''FLOW_GRPC_TLS_CERT'' '''')),
      (''grpc-tls-key'', StringV (envOrDefault env ''FLOW_GRPC_TLS_KEY'' '''')),
      (''grpc-tls-server-name'', StringV (envOrDefault env ''FLOW_GRPC_TLS_SERVER_NAME'' ''''))]"

definition config_of :: "flag_set \<Rightarrow> Config" where
  "config_of fs =
     \<lparr>GRPCAddr = StringFlag fs ''grpc-addr'',
      HTTPAddr = StringFlag fs ''http-addr'',
      EtcdEndpoints = splitComma (StringFlag fs ''etcd''),
      OTLPEndpoint = StringFlag fs ''otel-endpoint'',
      ServiceName = StringFlag fs ''service-name'',
      ObservabilityEnabled = BoolFlag fs ''observability-enabled'',
      LogLevel = StringFlag fs ''log-level'',
      AuthEnabled = BoolFlag fs ''auth-enabled'',
      APIKey = StringFlag fs ''api-key'',
      HTTPTLSEnabled = BoolFlag fs ''http-tls-enabled'',
      HTTPTLSCertFile = StringFlag fs ''http-tls-cert'',
      HTTPTLSKeyFile = StringFlag fs ''http-tls-key'',
      GRPCTLSEnabled = BoolFlag fs ''grpc-tls-enabled'',
      GRPCTLSCertFile = StringFlag fs ''grpc-tls-cert'',
      GRPCTLSKeyFile = StringFlag fs ''grpc-tls-key'',
      GRPCTLSServerName = StringFlag fs ''grpc-tls-server-name''\<rparr>"

definition Load :: "float_mul \<Rightarrow> environ \<Rightarrow> string list \<Rightarrow> flag_error + Config" where
  "Load fmul env args =
     (case parse_flags fmul (load_flags env) args of
        Inl e \<Rightarrow> Inl e
      | Inr (fs, _) \<Rightarrow> Inr (config_of fs))"

section \<open>The controller\<close>

record CtlConfig =
  ctl_EtcdEndpoints :: "string list"
  ctl_OTLPEndpoint :: string
  ctl_ServiceName :: string
  ctl_RuntimeNamespace :: string
  ctl_ObservabilityEnabled :: bool
  ctl_LogLevel :: string
  ctl_WorkerCount :: int
  ctl_LeaderElectionEnabled :: bool
  ctl_LeaderElectionName :: string
  ctl_LeaderElectionNamespace :: string
  ctl_LeaderElectionLeaseDuration :: int
  ctl_LeaderElectionRenewDeadline :: int
  ctl_LeaderElectionRetryPeriod :: int

definition ctl_envOrDefault :: "environ \<Rightarrow> string \<Rightarrow> string \<Rightarrow> string" where
  "ctl_envOrDefault env key def = (let v = Getenv env key in if v \<noteq> '''' then v else def)"

definition ctl_envBoolOrDefault :: "environ \<Rightarrow> string \<Rightarrow> bool \<Rightarrow> bool" where
  "ctl_envBoolOrDefault env key def =
     (let v = Getenv env key in
      if v \<noteq> '''' then
        (let l = ToLower v in
         if l \<in> {''1'', ''true'', ''t'', ''yes'', ''y''} then True
         else if l \<in> {''0'', ''false'', ''f'', ''no'', ''n''} then False
         else def)
      else def)"

definition envDurationOrDefault :: "float_mul \<Rightarrow> environ \<Rightarrow> string \<Rightarrow> int \<Rightarrow> int" where
  "envDurationOrDefault fmul env key def =
     (let v = Getenv env key in
      if v \<noteq> '''' then (case ParseDuration fmul v of Some parsed \<Rightarrow> parsed | None \<Rightarrow> def) else def)"

definition envIntOrDefault :: "environ \<Rightarrow> string \<Rightarrow> int \<Rightarrow> int" where
  "envIntOrDefault env key def =
     (let v = Getenv env key in
      if v \<noteq> '''' then (case Atoi v of Some parsed \<Rightarrow> parsed | None \<Rightarrow> def) else def)"

definition ctl_splitComma :: "string \<Rightarrow> string list" where
  "ctl_splitComma v = filter (\<lambda>p. p \<noteq> '''') (split_on (CHR '','') v)"

definition Second :: int where
  "Second = 1000000000"

definition ctl_load_flags :: "float_mul \<Rightarrow> environ \<Rightarrow> flag_set" where
  "ctl_load_flags fmul env =
     [(''etcd'', StringV (ctl_envOrDefault env ''ETCD_ENDPOINTS'' ''http://127.0.0.1:2379'')),
      (''otel-endpoint'', StringV (ctl_envOrDefault env ''OTEL_EXPORTER_OTLP_ENDPOINT'' ''localhost:4317'')),
      (''service-name'', StringV (ctl_envOrDefault env ''OTEL_SERVICE_NAME'' ''flow-controller'')),
      (''observability-enabled'', BoolV (ctl_envBoolOrDefault env ''FLOW_OBSERVABILITY_ENABLED'' False)),
      (''log-level'', StringV (ctl_envOrDefault env ''FLOW_LOG_LEVEL'' ''info'')),
      (''worker-count'', IntV (envIntOrDefault env ''FLOW_CONTROLLER_WORKER_COUNT'' 1)),
      (''runtime-namespace'', StringV (ctl_envOrDefault env ''FLOW_PIPE_RUNTIME_NAMESPACE''
         (ctl_envOrDefault env ''POD_NAMESPACE'' ''default''))),
      (''leader-election-enabled'', BoolV (ctl_envBoolOrDefault env ''FLOW_CONTROLLER_LEADER_ELECTION_ENABLED'' True)),
      (''leader-election-namespace'', StringV (ctl_envOrDefault env ''FLOW_CONTROLLER_LEADER_ELECTION_NAMESPACE''
         (ctl_envOrDefault env ''POD_NAMESPACE'' ''default''))),
      (''leader-election-name'', StringV (ctl_envOrDefault env ''FLOW_CONTROLLER_LEADER_ELECTION_NAME'' ''flow-controller'')),
      (''leader-election-lease-duration'',
         DurationV (envDurationOrDefault fmul env ''FLOW_CONTROLLER_LEADER_ELECTION_LEASE_DURATION'' (30 * Second))),
      (''leader-election-renew-deadline'',
         DurationV (envDurationOrDefault fmul env ''FLOW_CONTROLLER_LEADER_ELECTION_RENEW_DEADLINE'' (20 * Second))),
      (''leader-election-retry-period'',
         DurationV (envDurationOrDefault fmul env ''FLOW_CONTROLLER_LEADER_ELECTION_RETRY_PERIOD'' (5 * Second)))]"

definition ctl_config_of :: "flag_set \<Rightarrow> CtlConfig" where
  "ctl_config_of fs =
     (let workers = IntFlag fs ''worker-count''; workers = (if workers < 1 then 1 else workers) in
      \<lparr>ctl_EtcdEndpoints = ctl_splitComma (StringFlag fs ''etcd''),
       ctl_OTLPEndpoint = StringFlag fs ''otel-endpoint'',
       ctl_ServiceName = StringFlag fs ''service-name'',
       ctl_RuntimeNamespace = StringFlag fs ''runtime-namespace'',
       ctl_ObservabilityEnabled = BoolFlag fs ''observability-enabled'',
       ctl_LogLevel = StringFlag fs ''log-level'',
       ctl_WorkerCount = workers,
       ctl_LeaderElectionEnabled = BoolFlag fs ''leader-election-enabled'',
       ctl_LeaderElectionName = StringFlag fs ''leader-election-name'',
       ctl_LeaderElectionNamespace = StringFlag fs ''leader-election-namespace'',
       ctl_LeaderElectionLeaseDuration = DurationFlag fs ''leader-election-lease-duration'',
       ctl_LeaderElectionRenewDeadline = DurationFlag fs ''leader-election-renew-deadline'',
       ctl_LeaderElectionRetryPeriod = DurationFlag fs ''leader-election-retry-period''\<rparr>)"

definition ctl_Load :: "float_mul \<Rightarrow> environ \<Rightarrow> string list \<Rightarrow> flag_error + CtlConfig" where
  "ctl_Load fmul env args =
     (case parse_flags fmul (ctl_load_flags fmul env) args of
        Inl e \<Rightarrow> Inl e
      | Inr (fs, _) \<Rightarrow> Inr (ctl_config_of fs))"

section \<open>The command line tool\<close>

definition envBoolDefault :: "environ \<Rightarrow> string \<Rightarrow> bool \<Rightarrow> bool" where
  "envBoolDefault env key fallback =
     (case env key of
        None \<Rightarrow> fallback
      | Some value \<Rightarrow> (case ParseBool value of None \<Rightarrow> fallback | Some parsed \<Rightarrow> parsed))"

section \<open>Which source wins\<close>

text \<open>
  The value of a setting by rule: the last flag of the command line, else a usable environment variable,
  else the default of the program.
\<close>

definition str_setting :: "environ \<Rightarrow> (string \<times> string) list \<Rightarrow> string \<Rightarrow> string \<Rightarrow> string \<Rightarrow> string" where
  "str_setting env sets flag var def =
     (case map_of (rev sets) flag of
        Some v \<Rightarrow> v
      | None \<Rightarrow> (case env var of None \<Rightarrow> def | Some v \<Rightarrow> if v = '''' then def else v))"

definition truth_words :: "string set" where
  "truth_words = {''1'', ''true'', ''t'', ''yes'', ''y''}"

definition false_words :: "string set" where
  "false_words = {''0'', ''false'', ''f'', ''no'', ''n''}"

definition bool_setting :: "environ \<Rightarrow> (string \<times> string) list \<Rightarrow> string \<Rightarrow> string \<Rightarrow> bool \<Rightarrow> bool" where
  "bool_setting env sets flag var def =
     (case map_of (rev sets) flag of
        Some v \<Rightarrow> ParseBool v = Some True
      | None \<Rightarrow> (case env var of
            None \<Rightarrow> def
          | Some v \<Rightarrow> ToLower v \<in> truth_words \<or> ToLower v \<notin> false_words \<and> def))"

lemma StringFlag_setting:
  assumes "map_of fs' n = flag_result fmul fs sets n" "map_of fs n = Some (StringV (envOrDefault env var def))"
  shows "StringFlag fs' n = str_setting env sets n var def"
  using assms
  by (auto simp: StringFlag_def flag_result_def str_setting_def envOrDefault_def Getenv_def Let_def split: option.splits)

lemma accepts_bool:
  assumes "accepts fmul fs sets" "map_of fs n = Some (BoolV b)" "map_of (rev sets) n = Some v"
  shows "ParseBool v \<noteq> None"
proof -
  have "(n, v) \<in> set sets" using map_of_SomeD [OF assms(3)] by simp
  with assms(1,2) show ?thesis by (fastforce simp: accepts_def)
qed

lemma BoolFlag_setting:
  assumes "map_of fs' n = flag_result fmul fs sets n" "accepts fmul fs sets"
    "map_of fs n = Some (BoolV (envBoolOrDefault env var def))"
  shows "BoolFlag fs' n = bool_setting env sets n var def"
  using assms(1,3) accepts_bool [OF assms(2,3)]
  by (auto simp: BoolFlag_def flag_result_def bool_setting_def envBoolOrDefault_def Getenv_def Let_def
      truth_words_def false_words_def split: option.splits)

lemma load_flags_string:
  "map_of (load_flags env) ''grpc-addr'' = Some (StringV (envOrDefault env ''FLOW_GRPC_ADDR'' '':9090''))"
  "map_of (load_flags env) ''http-addr'' = Some (StringV (envOrDefault env ''FLOW_HTTP_ADDR'' '':8080''))"
  "map_of (load_flags env) ''etcd'' = Some (StringV (envOrDefault env ''ETCD_ENDPOINTS'' ''http://127.0.0.1:2379''))"
  "map_of (load_flags env) ''otel-endpoint'' = Some (StringV (envOrDefault env ''OTEL_EXPORTER_OTLP_ENDPOINT'' ''localhost:4317''))"
  "map_of (load_flags env) ''log-level'' = Some (StringV (envOrDefault env ''FLOW_LOG_LEVEL'' ''info''))"
  "map_of (load_flags env) ''service-name'' = Some (StringV (envOrDefault env ''OTEL_SERVICE_NAME'' ''flow-api''))"
  "map_of (load_flags env) ''api-key'' = Some (StringV (envOrDefault env ''FLOW_API_KEY'' ''''))"
  "map_of (load_flags env) ''http-tls-cert'' = Some (StringV (envOrDefault env ''FLOW_HTTP_TLS_CERT'' ''''))"
  "map_of (load_flags env) ''http-tls-key'' = Some (StringV (envOrDefault env ''FLOW_HTTP_TLS_KEY'' ''''))"
  "map_of (load_flags env) ''grpc-tls-cert'' = Some (StringV (envOrDefault env ''FLOW_GRPC_TLS_CERT'' ''''))"
  "map_of (load_flags env) ''grpc-tls-key'' = Some (StringV (envOrDefault env ''FLOW_GRPC_TLS_KEY'' ''''))"
  "map_of (load_flags env) ''grpc-tls-server-name'' = Some (StringV (envOrDefault env ''FLOW_GRPC_TLS_SERVER_NAME'' ''''))"
  by (simp_all add: load_flags_def)

lemma load_flags_bool:
  "map_of (load_flags env) ''observability-enabled'' = Some (BoolV (envBoolOrDefault env ''FLOW_OBSERVABILITY_ENABLED'' False))"
  "map_of (load_flags env) ''auth-enabled'' = Some (BoolV (envBoolOrDefault env ''FLOW_AUTH_ENABLED'' False))"
  "map_of (load_flags env) ''http-tls-enabled'' = Some (BoolV (envBoolOrDefault env ''FLOW_HTTP_TLS_ENABLED'' False))"
  "map_of (load_flags env) ''grpc-tls-enabled'' = Some (BoolV (envBoolOrDefault env ''FLOW_GRPC_TLS_ENABLED'' False))"
  by (simp_all add: load_flags_def)

lemma splitComma_pieces: "set (splitComma v) = set (split_on (CHR '','') v) - {''''}" "'''' \<notin> set (splitComma v)"
  by (auto simp: splitComma_def)

lemma ctl_same [simp]: "ctl_envOrDefault = envOrDefault" "ctl_envBoolOrDefault = envBoolOrDefault" "ctl_splitComma = splitComma"
  by (simp_all add: fun_eq_iff ctl_envOrDefault_def envOrDefault_def ctl_envBoolOrDefault_def envBoolOrDefault_def
      ctl_splitComma_def splitComma_def)

section \<open>Properties\<close>

text \<open>
  C38: where the settings of the API server come from. Given settings as flags \<^verbatim>\<open>--name=value\<close> that the server declares, with
  values of their kind, \<^verbatim>\<open>Load\<close> succeeds; every setting is the last flag of its name, else its environment
  variable when that is set and usable, else the default; and no etcd endpoint is empty.
\<close>

theorem load_precedence:
  assumes "accepts fmul (load_flags env) sets"
  shows "\<exists>cfg. Load fmul env (render_flags sets) = Inr cfg
    \<and> GRPCAddr cfg = str_setting env sets ''grpc-addr'' ''FLOW_GRPC_ADDR'' '':9090''
    \<and> HTTPAddr cfg = str_setting env sets ''http-addr'' ''FLOW_HTTP_ADDR'' '':8080''
    \<and> EtcdEndpoints cfg = filter (\<lambda>p. p \<noteq> '''')
        (split_on (CHR '','') (str_setting env sets ''etcd'' ''ETCD_ENDPOINTS'' ''http://127.0.0.1:2379''))
    \<and> OTLPEndpoint cfg = str_setting env sets ''otel-endpoint'' ''OTEL_EXPORTER_OTLP_ENDPOINT'' ''localhost:4317''
    \<and> ObservabilityEnabled cfg = bool_setting env sets ''observability-enabled'' ''FLOW_OBSERVABILITY_ENABLED'' False
    \<and> LogLevel cfg = str_setting env sets ''log-level'' ''FLOW_LOG_LEVEL'' ''info''
    \<and> ServiceName cfg = str_setting env sets ''service-name'' ''OTEL_SERVICE_NAME'' ''flow-api''
    \<and> AuthEnabled cfg = bool_setting env sets ''auth-enabled'' ''FLOW_AUTH_ENABLED'' False
    \<and> APIKey cfg = str_setting env sets ''api-key'' ''FLOW_API_KEY'' ''''
    \<and> HTTPTLSEnabled cfg = bool_setting env sets ''http-tls-enabled'' ''FLOW_HTTP_TLS_ENABLED'' False
    \<and> HTTPTLSCertFile cfg = str_setting env sets ''http-tls-cert'' ''FLOW_HTTP_TLS_CERT'' ''''
    \<and> HTTPTLSKeyFile cfg = str_setting env sets ''http-tls-key'' ''FLOW_HTTP_TLS_KEY'' ''''
    \<and> GRPCTLSEnabled cfg = bool_setting env sets ''grpc-tls-enabled'' ''FLOW_GRPC_TLS_ENABLED'' False
    \<and> GRPCTLSCertFile cfg = str_setting env sets ''grpc-tls-cert'' ''FLOW_GRPC_TLS_CERT'' ''''
    \<and> GRPCTLSKeyFile cfg = str_setting env sets ''grpc-tls-key'' ''FLOW_GRPC_TLS_KEY'' ''''
    \<and> GRPCTLSServerName cfg = str_setting env sets ''grpc-tls-server-name'' ''FLOW_GRPC_TLS_SERVER_NAME'' ''''"
proof -
  obtain fs where p: "parse_flags fmul (load_flags env) (render_flags sets) = Inr (fs, [])"
    and m: "\<And>n. map_of fs n = flag_result fmul (load_flags env) sets n"
    using parse_flags_render [OF assms] by blast
  note str = load_flags_string [where env = env, THEN StringFlag_setting [OF m]]
  note bool = load_flags_bool [where env = env, THEN BoolFlag_setting [OF m assms]]
  have "Load fmul env (render_flags sets) = Inr (config_of fs)" using p by (simp add: Load_def)
  then show ?thesis
    by (intro exI [of _ "config_of fs"] conjI)
      (simp_all add: config_of_def splitComma_def str bool)
qed

definition demo_env :: environ where
  "demo_env = (\<lambda>_. None)(''FLOW_API_KEY'' \<mapsto> ''k1'', ''FLOW_AUTH_ENABLED'' \<mapsto> ''yes'')"

theorem load_precedence_witness:
  "\<exists>cfg. Load (\<lambda>_ _ _. 0) demo_env [''--api-key=k2'', ''--http-tls-enabled=T''] = Inr cfg
     \<and> APIKey cfg = ''k2'' \<and> AuthEnabled cfg \<and> HTTPTLSEnabled cfg \<and> GRPCAddr cfg = '':9090''"
proof -
  let ?sets = "[(''api-key'', ''k2''), (''http-tls-enabled'', ''T'')]"
  have a: "accepts (\<lambda>_ _ _. 0) (load_flags demo_env) ?sets"
    by (auto simp: accepts_def flag_name_def load_flags_def ParseBool_def intro: exI [of _ True])
  have r: "render_flags ?sets = [''--api-key=k2'', ''--http-tls-enabled=T'']" by (simp add: render_flags_def)
  have l: "ToLower ''yes'' = ''yes''" by code_simp
  obtain cfg where "Load (\<lambda>_ _ _. 0) demo_env (render_flags ?sets) = Inr cfg"
    "APIKey cfg = str_setting demo_env ?sets ''api-key'' ''FLOW_API_KEY'' ''''"
    "AuthEnabled cfg = bool_setting demo_env ?sets ''auth-enabled'' ''FLOW_AUTH_ENABLED'' False"
    "HTTPTLSEnabled cfg = bool_setting demo_env ?sets ''http-tls-enabled'' ''FLOW_HTTP_TLS_ENABLED'' False"
    "GRPCAddr cfg = str_setting demo_env ?sets ''grpc-addr'' ''FLOW_GRPC_ADDR'' '':9090''"
    using load_precedence [OF a] by blast
  then show ?thesis unfolding r
    by (intro exI [of _ cfg]) (simp add: str_setting_def bool_setting_def demo_env_def truth_words_def l ParseBool_def del: ToLower.simps)
qed

text \<open>
  C39: every flag keeps its type through a command line, so the controller never starts with less than one worker or with
  numbers out of the range of Go's \<^verbatim>\<open>int\<close> and \<^verbatim>\<open>time.Duration\<close>: whatever the environment and the
  command line, when \<^verbatim>\<open>Load\<close> of the controller returns a configuration its worker count lies between 1 and
  the largest \<^verbatim>\<open>int\<close>, the three durations fit in 64 bits, and no etcd endpoint is empty.
\<close>

theorem ctl_load_in_range:
  assumes "ctl_Load fmul env args = Inr cfg"
  shows "1 \<le> ctl_WorkerCount cfg \<and> in_int64 (ctl_WorkerCount cfg)
    \<and> in_int64 (ctl_LeaderElectionLeaseDuration cfg) \<and> in_int64 (ctl_LeaderElectionRenewDeadline cfg)
    \<and> in_int64 (ctl_LeaderElectionRetryPeriod cfg) \<and> '''' \<notin> set (ctl_EtcdEndpoints cfg)"
proof -
  obtain fs rest where p: "parse_flags fmul (ctl_load_flags fmul env) args = Inr (fs, rest)" and c: "cfg = ctl_config_of fs"
    using assms by (auto simp: ctl_Load_def split: sum.splits prod.splits)
  note k = parse_flags_types [OF p, unfolded keeps_types_def, rule_format]
  have int: "in_int64 (IntFlag fs n)" if "map_of (ctl_load_flags fmul env) n = Some (IntV i)" "in_int64 i" for n i
    using k [OF that(1)] that(2) by (auto simp: IntFlag_def split: flag_value.splits)
  have dur: "in_int64 (DurationFlag fs n)" if "map_of (ctl_load_flags fmul env) n = Some (DurationV i)" "in_int64 i" for n i
    using k [OF that(1)] that(2) by (auto simp: DurationFlag_def split: flag_value.splits)
  have i: "in_int64 (envIntOrDefault env v 1)" for v
    by (auto simp: envIntOrDefault_def Let_def in_int64_def split: option.splits dest!: Atoi_bound)
  have d: "in_int64 (envDurationOrDefault fmul env v (j * Second))" if "j \<in> {5, 20, 30}" for v j
    using that by (auto simp: envDurationOrDefault_def Let_def in_int64_def Second_def split: option.splits dest!: ParseDuration_bound)
  have "in_int64 (IntFlag fs ''worker-count'')" by (rule int [OF _ i]) (simp add: ctl_load_flags_def)
  moreover have "in_int64 (DurationFlag fs ''leader-election-lease-duration'')"
    "in_int64 (DurationFlag fs ''leader-election-renew-deadline'')" "in_int64 (DurationFlag fs ''leader-election-retry-period'')"
    by (rule dur, simp add: ctl_load_flags_def, simp add: d)+
  ultimately show ?thesis using c by (auto simp: ctl_config_of_def Let_def in_int64_def splitComma_pieces(2))
qed

theorem ctl_load_in_range_witness:
  "\<exists>cfg. ctl_Load (\<lambda>_ _ _. 0) (\<lambda>_. None) [''-etcd'', ''a,,b'', ''--leader-election-enabled''] = Inr cfg
     \<and> 1 \<le> ctl_WorkerCount cfg"
proof -
  have "\<not> isl (ctl_Load (\<lambda>_ _ _. 0) (\<lambda>_. None) [''-etcd'', ''a,,b'', ''--leader-election-enabled''])"
    by code_simp
  then obtain cfg where "ctl_Load (\<lambda>_ _ _. 0) (\<lambda>_. None) [''-etcd'', ''a,,b'', ''--leader-election-enabled''] = Inr cfg"
    by (cases "ctl_Load (\<lambda>_ _ _. 0) (\<lambda>_. None) [''-etcd'', ''a,,b'', ''--leader-election-enabled'']") auto
  with ctl_load_in_range [OF this] show ?thesis by blast
qed

end
