(* ===== verification/Api_Server.thy ===== *)
theory Api_Server
  imports Api_Service Program_Config
begin

text \<open>
  The servers of the API (\<^verbatim>\<open>auth.go\<close>, \<^verbatim>\<open>grpc.go\<close>, \<^verbatim>\<open>http.go\<close>, \<^verbatim>\<open>server.go\<close>): the checks of the configuration,
  the interceptor and the middleware that ask for the API key, the wrappers that record metrics, and the
  construction and run of the two servers. The network, the TLS files, the meters, the reflection service of
  gRPC and the gateway multiplexer are parameters.
\<close>

section \<open>Authentication\<close>

datatype setup_error =
    ApiKeyEmpty
  | HttpCertEmpty
  | HttpKeyEmpty
  | GrpcCertEmpty
  | GrpcKeyEmpty
  | GrpcServerNameEmpty
  | MetricsFailed string
  | ListenFailed string string
  | GrpcTlsConfig string
  | GatewayFailed string
  | SchemaGatewayFailed string
  | GrpcServerFailed setup_error
  | HttpServerFailed setup_error

definition bearerPrefix :: string where
  "bearerPrefix = ''bearer ''"

definition ensureAPIKeyConfigured :: "Config \<Rightarrow> setup_error option" where
  "ensureAPIKeyConfigured cfg =
     (if \<not> AuthEnabled cfg then None
      else if TrimSpace (APIKey cfg) = '''' then Some ApiKeyEmpty
      else None)"

definition ensureHTTPServerTLSConfigured :: "Config \<Rightarrow> setup_error option" where
  "ensureHTTPServerTLSConfigured cfg =
     (if \<not> HTTPTLSEnabled cfg then None
      else if TrimSpace (HTTPTLSCertFile cfg) = '''' then Some HttpCertEmpty
      else if TrimSpace (HTTPTLSKeyFile cfg) = '''' then Some HttpKeyEmpty
      else None)"

definition ensureGRPCServerTLSConfigured :: "Config \<Rightarrow> setup_error option" where
  "ensureGRPCServerTLSConfigured cfg =
     (if \<not> GRPCTLSEnabled cfg then None
      else if TrimSpace (GRPCTLSCertFile cfg) = '''' then Some GrpcCertEmpty
      else if TrimSpace (GRPCTLSKeyFile cfg) = '''' then Some GrpcKeyEmpty
      else if TrimSpace (GRPCTLSServerName cfg) = '''' then Some GrpcServerNameEmpty
      else None)"

definition parseBearerToken :: "string \<Rightarrow> string" where
  "parseBearerToken value =
     (let value = TrimSpace value in
      if value = '''' then ''''
      else let lower = ToLower value in
        if \<not> HasPrefix lower bearerPrefix then ''''
        else TrimSpace (drop (length bearerPrefix) value))"

fun firstBearerToken :: "string list \<Rightarrow> string" where
  "firstBearerToken [] = ''''"
| "firstBearerToken (value # values) =
     (let token = parseBearerToken value in if token \<noteq> '''' then token else firstBearerToken values)"

text \<open>Metadata of a call and headers of a request: the values of each name, in order.\<close>

type_synonym metadata = "(string \<times> string list) list"

definition md_Get :: "metadata \<Rightarrow> string \<Rightarrow> string list" where
  "md_Get md k = (case map_of md k of None \<Rightarrow> [] | Some vs \<Rightarrow> vs)"

definition Header_Get :: "metadata \<Rightarrow> string \<Rightarrow> string" where
  "Header_Get h k = (case md_Get h k of [] \<Rightarrow> '''' | v # _ \<Rightarrow> v)"

type_synonym 'w unary_handler = "rpc_request \<Rightarrow> 'w \<Rightarrow> (rpc_error + rpc_response) \<times> 'w"

definition apiKeyUnaryInterceptor :: "Config \<Rightarrow> metadata \<Rightarrow> 'w unary_handler \<Rightarrow> 'w unary_handler" where
  "apiKeyUnaryInterceptor cfg md handler req w =
     (if \<not> AuthEnabled cfg then handler req w
      else let token = firstBearerToken (md_Get md ''authorization'') in
        if token = '''' then (Inl (Unauthenticated ''missing api key''), w)
        else if token \<noteq> APIKey cfg then (Inl (Unauthenticated ''invalid api key''), w)
        else handler req w)"

section \<open>HTTP\<close>

record http_request =
  hr_Method :: string
  hr_Path :: string
  hr_Header :: metadata
  hr_Body :: string

text \<open>What a handler does with the response writer.\<close>

datatype http_write = WriteHeader int | WriteBody string

type_synonym 'w http_handler = "http_request \<Rightarrow> 'w \<Rightarrow> http_write list \<times> 'w"

definition apiKeyHTTPMiddleware :: "Config \<Rightarrow> 'w http_handler \<Rightarrow> 'w http_handler" where
  "apiKeyHTTPMiddleware cfg next r w =
     (if \<not> AuthEnabled cfg then next r w
      else let token = firstBearerToken [Header_Get (hr_Header r) ''Authorization''] in
        if token = '''' \<or> token \<noteq> APIKey cfg
        then ([WriteHeader 401, WriteBody (''unauthorized'' @ [CHR 0x0A])], w)
        else next r w)"

text \<open>\<^verbatim>\<open>statusRecorder\<close> keeps the last status a handler writes.\<close>

fun recorded_status :: "int \<Rightarrow> http_write list \<Rightarrow> int" where
  "recorded_status status [] = status"
| "recorded_status status (WriteHeader statusCode # ws) = recorded_status statusCode ws"
| "recorded_status status (WriteBody _ # ws) = recorded_status status ws"

record http_metric =
  hm_method :: string
  hm_route :: string
  hm_status_code :: int
  hm_duration :: int
  hm_span_error :: bool

text \<open>\<open>start\<close> and \<open>stop\<close> are the readings of the clock around the call, in milliseconds.\<close>

definition httpMiddleware :: "'w http_handler \<Rightarrow> int \<Rightarrow> int \<Rightarrow> http_request \<Rightarrow> 'w \<Rightarrow> http_metric \<times> http_write list \<times> 'w" where
  "httpMiddleware next start stop r w =
     (case next r w of (ws, w') \<Rightarrow>
        let status = recorded_status 200 ws in
        (\<lparr>hm_method = hr_Method r, hm_route = hr_Path r, hm_status_code = status, hm_duration = stop - start,
          hm_span_error = (status \<ge> 500)\<rparr>, ws, w'))"

section \<open>gRPC metrics\<close>

definition FullMethod :: "rpc_request \<Rightarrow> string" where
  "FullMethod req =
     (case req of
        RpcCreateFlow _ \<Rightarrow> ''/flowpipe.v1.FlowService/CreateFlow''
      | RpcUpdateFlow _ \<Rightarrow> ''/flowpipe.v1.FlowService/UpdateFlow''
      | RpcDeleteFlow _ \<Rightarrow> ''/flowpipe.v1.FlowService/DeleteFlow''
      | RpcGetFlow _ \<Rightarrow> ''/flowpipe.v1.FlowService/GetFlow''
      | RpcListFlows \<Rightarrow> ''/flowpipe.v1.FlowService/ListFlows''
      | RpcGetFlowStatus _ \<Rightarrow> ''/flowpipe.v1.FlowService/GetFlowStatus''
      | RpcRollbackFlow _ \<Rightarrow> ''/flowpipe.v1.FlowService/RollbackFlow''
      | RpcCreateSchema _ \<Rightarrow> ''/flowpipe.v1.SchemaRegistryService/CreateSchema''
      | RpcGetSchema _ \<Rightarrow> ''/flowpipe.v1.SchemaRegistryService/GetSchema''
      | RpcListSchemaVersions _ \<Rightarrow> ''/flowpipe.v1.SchemaRegistryService/ListSchemaVersions''
      | RpcDeleteSchema _ \<Rightarrow> ''/flowpipe.v1.SchemaRegistryService/DeleteSchema'')"

record grpc_metric =
  gm_method :: string
  gm_duration :: int
  gm_span_error :: bool

definition unaryTracingInterceptor ::
  "'w unary_handler \<Rightarrow> int \<Rightarrow> int \<Rightarrow> rpc_request \<Rightarrow> 'w \<Rightarrow> grpc_metric \<times> (rpc_error + rpc_response) \<times> 'w" where
  "unaryTracingInterceptor handler start stop req w =
     (case handler req w of (resp, w') \<Rightarrow>
        (\<lparr>gm_method = FullMethod req, gm_duration = stop - start, gm_span_error = isl resp\<rparr>, resp, w'))"

text \<open>
  The chain of the server: the key is asked for first, so a refused call leaves no metric. The world of the chain
  is the log of metrics beside the world of the store.
\<close>

definition metered :: "'w unary_handler \<Rightarrow> int \<Rightarrow> int \<Rightarrow> (grpc_metric list \<times> 'w) unary_handler" where
  "metered handler start stop req st =
     (case st of (log, w) \<Rightarrow>
        (case unaryTracingInterceptor handler start stop req w of (metric, resp, w') \<Rightarrow> (resp, metric # log, w')))"

definition ChainUnary ::
  "Config \<Rightarrow> 'w Store \<Rightarrow> int \<Rightarrow> int \<Rightarrow> metadata \<Rightarrow> (grpc_metric list \<times> 'w) unary_handler" where
  "ChainUnary cfg st start stop md = apiKeyUnaryInterceptor cfg md (metered (handle_rpc st) start stop)"

section \<open>The servers\<close>

text \<open>
  What the environment answers: an error text, or nothing when the step succeeds. The reflection service of gRPC answers a
  message of its stream from the services that are registered.
\<close>

record server_env =
  se_counter :: "string option"
  se_histogram :: "string option"
  se_listen :: "string \<Rightarrow> string option"
  se_serverTLS :: "string \<Rightarrow> string \<Rightarrow> string option"
  se_clientTLS :: "string \<Rightarrow> string \<Rightarrow> string option"
  se_gateway :: "string \<Rightarrow> string option"
  se_schemaGateway :: "string \<Rightarrow> string option"
  se_reflection :: "string list \<Rightarrow> string \<Rightarrow> string"

record 'w GRPCServer =
  gs_addr :: string
  gs_tls :: "(string \<times> string) option"
  gs_call :: "int \<Rightarrow> int \<Rightarrow> metadata \<Rightarrow> (grpc_metric list \<times> 'w) unary_handler"
  gs_reflect :: "metadata \<Rightarrow> string \<Rightarrow> string"

text \<open>
  The second component lists the addresses that are being listened on afterwards. Reflection is a streaming service: the
  server has a chain of unary interceptors and none for streams, so its messages reach it with any metadata.
\<close>

definition registered_services :: "string list" where
  "registered_services = [''flowpipe.v1.FlowService'', ''flowpipe.v1.SchemaRegistryService'']"

definition NewGRPCServer :: "server_env \<Rightarrow> Config \<Rightarrow> 'w Store \<Rightarrow> (setup_error + 'w GRPCServer) \<times> string list" where
  "NewGRPCServer env cfg st =
     (case ensureAPIKeyConfigured cfg of
        Some e \<Rightarrow> (Inl e, [])
      | None \<Rightarrow>
     (case ensureGRPCServerTLSConfigured cfg of
        Some e \<Rightarrow> (Inl e, [])
      | None \<Rightarrow>
     (case se_counter env of
        Some e \<Rightarrow> (Inl (MetricsFailed e), [])
      | None \<Rightarrow>
     (case se_histogram env of
        Some e \<Rightarrow> (Inl (MetricsFailed e), [])
      | None \<Rightarrow>
     (case se_listen env (GRPCAddr cfg) of
        Some e \<Rightarrow> (Inl (ListenFailed (GRPCAddr cfg) e), [])
      | None \<Rightarrow>
          if GRPCTLSEnabled cfg then
            (case se_serverTLS env (GRPCTLSCertFile cfg) (GRPCTLSKeyFile cfg) of
               Some e \<Rightarrow> (Inl (GrpcTlsConfig e), [GRPCAddr cfg])
             | None \<Rightarrow>
                 (Inr \<lparr>gs_addr = GRPCAddr cfg, gs_tls = Some (GRPCTLSCertFile cfg, GRPCTLSKeyFile cfg),
                    gs_call = ChainUnary cfg st, gs_reflect = (\<lambda>md. se_reflection env registered_services)\<rparr>,
                  [GRPCAddr cfg]))
          else (Inr \<lparr>gs_addr = GRPCAddr cfg, gs_tls = None, gs_call = ChainUnary cfg st,
                  gs_reflect = (\<lambda>md. se_reflection env registered_services)\<rparr>, [GRPCAddr cfg]))))))"

record 'w HTTPServer =
  hs_addr :: string
  hs_serve :: "int \<Rightarrow> int \<Rightarrow> http_request \<Rightarrow> 'w \<Rightarrow> http_metric \<times> http_write list \<times> 'w"
  hs_tlsEnabled :: bool
  hs_tlsCertFile :: string
  hs_tlsKeyFile :: string

definition NewHTTPServer :: "server_env \<Rightarrow> Config \<Rightarrow> 'w http_handler \<Rightarrow> setup_error + 'w HTTPServer" where
  "NewHTTPServer env cfg mux =
     (case ensureAPIKeyConfigured cfg of
        Some e \<Rightarrow> Inl e
      | None \<Rightarrow>
     (case ensureHTTPServerTLSConfigured cfg of
        Some e \<Rightarrow> Inl e
      | None \<Rightarrow>
     (case (if GRPCTLSEnabled cfg then se_clientTLS env (GRPCTLSCertFile cfg) (GRPCTLSServerName cfg) else None) of
        Some e \<Rightarrow> Inl (GrpcTlsConfig e)
      | None \<Rightarrow>
     (case se_gateway env (GRPCAddr cfg) of
        Some e \<Rightarrow> Inl (GatewayFailed e)
      | None \<Rightarrow>
     (case se_schemaGateway env (GRPCAddr cfg) of
        Some e \<Rightarrow> Inl (SchemaGatewayFailed e)
      | None \<Rightarrow>
     (case se_counter env of
        Some e \<Rightarrow> Inl (MetricsFailed e)
      | None \<Rightarrow>
     (case se_histogram env of
        Some e \<Rightarrow> Inl (MetricsFailed e)
      | None \<Rightarrow>
          Inr \<lparr>hs_addr = HTTPAddr cfg, hs_serve = httpMiddleware (apiKeyHTTPMiddleware cfg mux),
            hs_tlsEnabled = HTTPTLSEnabled cfg, hs_tlsCertFile = HTTPTLSCertFile cfg,
            hs_tlsKeyFile = HTTPTLSKeyFile cfg\<rparr>)))))))"

datatype serve_call = ListenAndServeTLS string string | ListenAndServe

definition HTTPServer_Run :: "'w HTTPServer \<Rightarrow> serve_call" where
  "HTTPServer_Run h = (if hs_tlsEnabled h then ListenAndServeTLS (hs_tlsCertFile h) (hs_tlsKeyFile h) else ListenAndServe)"

record 'w Server =
  srv_grpc :: "'w GRPCServer"
  srv_http :: "'w HTTPServer"

definition Server_New :: "server_env \<Rightarrow> Config \<Rightarrow> 'w Store \<Rightarrow> 'w http_handler \<Rightarrow> (setup_error + 'w Server) \<times> string list" where
  "Server_New env cfg st mux =
     (case NewGRPCServer env cfg st of
        (Inl e, lis) \<Rightarrow> (Inl (GrpcServerFailed e), lis)
      | (Inr grpcSrv, lis) \<Rightarrow>
          (case NewHTTPServer env cfg mux of
             Inl e \<Rightarrow> (Inl (HttpServerFailed e), lis)
           | Inr httpSrv \<Rightarrow> (Inr \<lparr>srv_grpc = grpcSrv, srv_http = httpSrv\<rparr>, lis)))"

text \<open>What \<^verbatim>\<open>Run\<close> waits for, and what it does then: it returns after it has shut both servers down.\<close>

datatype run_event = ContextDone | ServerReturned "string option"

datatype shutdown_step = ShutdownGRPC | ShutdownHTTP

definition Server_Run :: "run_event \<Rightarrow> string option \<times> shutdown_step list" where
  "Server_Run ev =
     (case ev of
        ContextDone \<Rightarrow> (None, [ShutdownGRPC, ShutdownHTTP])
      | ServerReturned err \<Rightarrow> (err, [ShutdownGRPC, ShutdownHTTP]))"

section \<open>Tokens\<close>

text \<open>The values that carry a token.\<close>

lemma firstBearerToken_in:
  "firstBearerToken vs \<noteq> '''' \<Longrightarrow> \<exists>v\<in>set vs. parseBearerToken v = firstBearerToken vs"
  by (induction vs) (auto simp: Let_def split: if_splits)

lemma parseBearerToken_trimmed: "TrimSpace (parseBearerToken v) = parseBearerToken v"
  by (simp add: parseBearerToken_def Let_def TrimSpace_idem TrimSpace_Nil)

text \<open>No encoding of a space has an ASCII byte beside another byte.\<close>

lemma rune_tail: "r \<in> set (map rev space_runes) \<Longrightarrow> CHR '' '' \<notin> set (tl r)"
  by (auto simp: space_runes_def)

lemma rune_head: "r \<in> set space_runes \<Longrightarrow> r \<noteq> [] \<and> hd r \<noteq> CHR ''B''"
  by (auto simp: space_runes_def)

lemma TrimSpace_bearer:
  assumes "TrimSpace k = k" "k \<noteq> ''''"
  shows "TrimSpace (''Bearer '' @ k) = ''Bearer '' @ k"
proof -
  let ?B = "map rev space_runes"
  have "find (\<lambda>r. r \<noteq> [] \<and> take (length r) (''Bearer '' @ k) = r) space_runes = None"
    unfolding find_None_iff
  proof (intro notI, elim exE conjE)
    fix r assume r: "r \<in> set space_runes" "r \<noteq> []" "take (length r) (''Bearer '' @ k) = r"
    then have "hd r = CHR ''B''" by (metis append_Cons hd_take list.sel(1) length_greater_0_conv)
    with rune_head [OF r(1)] show False by simp
  qed
  then have front: "trim_front space_runes (''Bearer '' @ k) = ''Bearer '' @ k" by (rule trim_front_fix)
  have "rev k = trim_front ?B (rev (trim_front space_runes k))"
    using assms(1) unfolding TrimSpace_def by (metis rev_rev_ident)
  then have nok: "find (\<lambda>r. r \<noteq> [] \<and> take (length r) (rev k) = r) ?B = None" using trim_front_no_rune by metis
  have "find (\<lambda>r. r \<noteq> [] \<and> take (length r) (rev (''Bearer '' @ k)) = r) ?B = None"
    unfolding find_None_iff
  proof (intro notI, elim exE conjE)
    fix r assume r: "r \<in> set ?B" "r \<noteq> []" "take (length r) (rev (''Bearer '' @ k)) = r"
    show False
    proof (cases "length r \<le> length k")
      case True
      then have "take (length r) (rev k) = r" using r(3) by simp
      with nok r(1,2) show False unfolding find_None_iff by blast
    next
      case False
      define n where "n = length r - length k"
      from False have n: "n \<noteq> 0" by (simp add: n_def)
      have "r = rev k @ take n (rev ''Bearer '')" using r(3) False by (simp add: n_def)
      also have "take n (rev ''Bearer '') = CHR '' '' # take (n - 1) (rev ''Bearer'')" using n by (cases n) simp_all
      finally have "CHR '' '' \<in> set (tl r)" using assms(2) by (cases "rev k") auto
      with rune_tail [OF r(1)] show False by simp
    qed
  qed
  then have "trim_front ?B (rev (''Bearer '' @ k)) = rev (''Bearer '' @ k)" by (rule trim_front_fix)
  with front show ?thesis by (simp add: TrimSpace_def)
qed

lemma ToLower_bearer: "HasPrefix (ToLower (''Bearer '' @ k)) bearerPrefix"
proof -
  have "map lower_byte ''Bearer '' = ''bearer ''" by code_simp
  then show ?thesis by (simp add: HasPrefix_def bearerPrefix_def)
qed

lemma parseBearerToken_bearer:
  assumes "TrimSpace k = k" "k \<noteq> ''''"
  shows "parseBearerToken (''Bearer '' @ k) = k"
  using TrimSpace_bearer [OF assms] ToLower_bearer [of k] assms
  by (simp add: parseBearerToken_def Let_def bearerPrefix_def del: ToLower.simps)

text \<open>The key does not guard the reflection service: its answers are the same with and without it.\<close>

lemma reflection_ignores_key:
  assumes "NewGRPCServer env cfg st = (Inr g, lis)"
  shows "gs_reflect g md msg = se_reflection env registered_services msg"
  using assms by (auto simp: NewGRPCServer_def split: option.splits if_splits)

section \<open>Properties\<close>

text \<open>
  C10: with authentication on, nothing reaches the store without the key. For servers that were set up
  without an error the key is not blank; a gRPC call either presents the key as a bearer token in one of
  its authorization values, or is refused as unauthenticated with the store and the metrics untouched;
  an HTTP request likewise presents it in its Authorization header, or gets status 401 with the gateway untouched.
  The calls are those of the two services of the API; the reflection service, which does not reach the store, asks for no key.
\<close>

theorem calls_need_the_key:
  assumes "NewGRPCServer env cfg st = (Inr g, lis)" "NewHTTPServer env cfg mux = Inr h" "AuthEnabled cfg"
  shows "TrimSpace (APIKey cfg) \<noteq> ''''
    \<and> ((\<exists>v\<in>set (md_Get md ''authorization''). parseBearerToken v = APIKey cfg)
       \<or> (\<exists>t. gs_call g start stop md req s = (Inl (Unauthenticated t), s)))
    \<and> (parseBearerToken (Header_Get (hr_Header r) ''Authorization'') = APIKey cfg
       \<or> (\<exists>m. hs_serve h start stop r w = (m, [WriteHeader 401, WriteBody (''unauthorized'' @ [CHR 0x0A])], w)
            \<and> hm_status_code m = 401))"
proof -
  have key: "TrimSpace (APIKey cfg) \<noteq> ''''" and g: "gs_call g = ChainUnary cfg st"
    using assms(1,3) by (auto simp: NewGRPCServer_def ensureAPIKeyConfigured_def split: option.splits if_splits)
  have h: "hs_serve h = httpMiddleware (apiKeyHTTPMiddleware cfg mux)"
    using assms(2) by (auto simp: NewHTTPServer_def split: option.splits)
  have "(\<exists>v\<in>set (md_Get md ''authorization''). parseBearerToken v = APIKey cfg)
      \<or> (\<exists>t. gs_call g start stop md req s = (Inl (Unauthenticated t), s))"
    using assms(3) firstBearerToken_in [of "md_Get md ''authorization''"] unfolding g
    by (auto simp: ChainUnary_def apiKeyUnaryInterceptor_def Let_def split: if_splits)
  moreover have "parseBearerToken (Header_Get (hr_Header r) ''Authorization'') = APIKey cfg
       \<or> (\<exists>m. hs_serve h start stop r w = (m, [WriteHeader 401, WriteBody (''unauthorized'' @ [CHR 0x0A])], w)
            \<and> hm_status_code m = 401)"
    using assms(3) firstBearerToken_in [of "[Header_Get (hr_Header r) ''Authorization'']"] unfolding h
    by (auto simp: httpMiddleware_def apiKeyHTTPMiddleware_def Let_def split: if_splits)
  ultimately show ?thesis using key by blast
qed

definition quiet_env :: server_env where
  "quiet_env = \<lparr>se_counter = None, se_histogram = None, se_listen = (\<lambda>_. None), se_serverTLS = (\<lambda>_ _. None),
     se_clientTLS = (\<lambda>_ _. None), se_gateway = (\<lambda>_. None), se_schemaGateway = (\<lambda>_. None),
     se_reflection = (\<lambda>svcs _. concat svcs)\<rparr>"

definition auth_cfg :: Config where
  "auth_cfg = (config_of (load_flags (\<lambda>_. None)))\<lparr>AuthEnabled := True, APIKey := ''k1''\<rparr>"

definition mem_store :: "etcd_mem Store" where
  "mem_store = etcd_as_store mem_client mini_codec mini_json (sort_key ms_Version)"

theorem calls_need_the_key_witness:
  "\<exists>g lis t. NewGRPCServer quiet_env auth_cfg mem_store = (Inr g, lis)
     \<and> gs_call g 0 0 [(''authorization'', [''Bearer k2''])] RpcListFlows ([], mem0) = (Inl (Unauthenticated t), [], mem0)"
proof -
  have k: "APIKey auth_cfg = ''k1''" "AuthEnabled auth_cfg" "GRPCTLSEnabled auth_cfg = False" "HTTPTLSEnabled auth_cfg = False"
    by (simp_all add: auth_cfg_def config_of_def load_flags_def BoolFlag_def envBoolOrDefault_def Getenv_def)
  have t: "TrimSpace ''k1'' = ''k1''" "parseBearerToken ''Bearer k2'' = ''k2''" by code_simp+
  obtain g where g: "NewGRPCServer quiet_env auth_cfg mem_store = (Inr g, [GRPCAddr auth_cfg])"
    by (simp add: NewGRPCServer_def ensureAPIKeyConfigured_def ensureGRPCServerTLSConfigured_def k t quiet_env_def)
  obtain h where h: "NewHTTPServer quiet_env auth_cfg (\<lambda>r w. ([], w :: unit)) = Inr h"
    by (simp add: NewHTTPServer_def ensureAPIKeyConfigured_def ensureHTTPServerTLSConfigured_def k t quiet_env_def)
  have "md_Get [(''authorization'', [''Bearer k2''])] ''authorization'' = [''Bearer k2'']" by (simp add: md_Get_def)
  with calls_need_the_key [OF g h k(2), of "[(''authorization'', [''Bearer k2''])]" 0 0 RpcListFlows "([], mem0)"] g t(2) k(1)
  show ?thesis by auto
qed

end
