(* ===== verification/Flow_Spec.thy ===== *)
theory Flow_Spec
  imports Flow_Types Go_Strings
begin

text \<open>
  The shared flow library \<^verbatim>\<open>pkg/flow\<close>: \<^verbatim>\<open>normalize.Normalize\<close>, \<^verbatim>\<open>validate.Validate\<close>, \<^verbatim>\<open>diff.Diff\<close> and
  \<^verbatim>\<open>fingerprint.Fingerprint\<close>. Normalisation is proved to sort, to default every capacity, to touch
  nothing else and to be independent of the sorting algorithm on specs without duplicate names;
  validation is proved equivalent to a declarative well-formedness predicate, its error reports
  to be justified, and its verdict to be unaffected by normalisation.
\<close>

section \<open>Normalize\<close>

definition default_capacity :: "QueueSpec \<Rightarrow> QueueSpec" where
  "default_capacity q = (if q_Capacity q = 0 then q\<lparr>q_Capacity := 128\<rparr> else q)"

text \<open>
  \<^verbatim>\<open>sort.Slice\<close> is not stable, so its result on equal names is left to the arguments \<open>sortQueues\<close>
  and \<open>sortStages\<close>. The copy \<^verbatim>\<open>spec := *in\<close> is shallow: both slices are sorted in place and the queues
  are changed through their pointers, so the message the caller passed changes as well. The result
  is the returned pointer's message and the caller's message after the call.
\<close>

definition Normalize ::
  "(QueueSpec list \<Rightarrow> QueueSpec list) \<Rightarrow> (StageSpec list \<Rightarrow> StageSpec list) \<Rightarrow>
   FlowSpec option \<Rightarrow> FlowSpec option \<times> FlowSpec option" where
  "Normalize sortQueues sortStages inp =
     (case inp of
        None \<Rightarrow> (None, None)
      | Some sp \<Rightarrow>
          (let queues = sortQueues (fs_Queues sp);
               queues' = map default_capacity queues;
               stages = sortStages (fs_Stages sp);
               spec = sp\<lparr>fs_Queues := queues', fs_Stages := stages\<rparr>
           in (Some spec, Some (sp\<lparr>fs_Queues := queues', fs_Stages := stages\<rparr>))))"

abbreviation normalized ::
  "(QueueSpec list \<Rightarrow> QueueSpec list) \<Rightarrow> (StageSpec list \<Rightarrow> StageSpec list) \<Rightarrow> FlowSpec \<Rightarrow> FlowSpec" where
  "normalized sq ss sp \<equiv>
     sp\<lparr>fs_Queues := map default_capacity (sq (fs_Queues sp)), fs_Stages := ss (fs_Stages sp)\<rparr>"

lemma default_capacity_simps [simp]:
  "q_Name (default_capacity q) = q_Name q"
  "default_capacity (default_capacity q) = default_capacity q"
  "q_Capacity (default_capacity q) \<noteq> 0"
  by (simp_all add: default_capacity_def)

lemma Normalize_Some: "Normalize sq ss (Some sp) = (Some (normalized sq ss sp), Some (normalized sq ss sp))"
  by (simp add: Normalize_def Let_def)

lemma names_default_capacity [simp]: "map q_Name (map default_capacity qs) = map q_Name qs"
  by simp

text \<open>On distinct names a legal sort leaves a sorted list alone.\<close>

lemma is_sort_fixpoint:
  assumes "is_sort key srt" "sorted (map key xs)" "distinct (map key xs)"
  shows "srt xs = xs"
  using sorted_perm_unique [of "srt xs" xs key] assms
  by (metis is_sortD(1,2) mset_eq_imp_distinct_iff mset_map)

lemma is_sort_distinct:
  assumes "is_sort key srt"
  shows "distinct (map key (srt xs)) \<longleftrightarrow> distinct (map key xs)"
  by (metis assms is_sortD(1) mset_eq_imp_distinct_iff mset_map)

section \<open>Validate\<close>

datatype vmessage =
    FlowSpecIsNil
  | FlowNameRequired
  | FlowNeedsStage
  | QueueNameRequired
  | DuplicateQueueName string
  | StageNameRequired
  | DuplicateStage string
  | StageMissingType string
  | StageNeedsThread string
  | UnknownInputQueue string string
  | UnknownOutputQueue string string

record verror =
  Field :: string
  Message :: vmessage

text \<open>The text of a message; \<open>quote\<close> is the formatting of a string by the verb \<^verbatim>\<open>%q\<close>.\<close>

fun message_text :: "(string \<Rightarrow> string) \<Rightarrow> vmessage \<Rightarrow> string" where
  "message_text quote FlowSpecIsNil = ''flow spec is nil''"
| "message_text quote FlowNameRequired = ''flow name is required''"
| "message_text quote FlowNeedsStage = ''flow must contain at least one stage''"
| "message_text quote QueueNameRequired = ''queue name is required''"
| "message_text quote (DuplicateQueueName q) = ''duplicate queue name '' @ quote q"
| "message_text quote StageNameRequired = ''stage name is required''"
| "message_text quote (DuplicateStage s) = ''duplicate stage '' @ quote s"
| "message_text quote (StageMissingType s) = ''stage '' @ quote s @ '' missing type''"
| "message_text quote (StageNeedsThread s) =
     ''stage '' @ quote s @ '' must declare at least one thread''"
| "message_text quote (UnknownInputQueue s q) =
     ''stage '' @ quote s @ '' references unknown input queue '' @ quote q"
| "message_text quote (UnknownOutputQueue s q) =
     ''stage '' @ quote s @ '' references unknown output queue '' @ quote q"

definition Error_Error :: "(string \<Rightarrow> string) \<Rightarrow> verror \<Rightarrow> string" where
  "Error_Error quote e =
     (if Field e = '''' then message_text quote (Message e)
      else Field e @ '': '' @ message_text quote (Message e))"

abbreviation verr :: "string \<Rightarrow> vmessage \<Rightarrow> verror" where
  "verr f m \<equiv> \<lparr>Field = f, Message = m\<rparr>"

text \<open>The queue loop; the accumulator holds the names of \<^verbatim>\<open>queueNames\<close>.\<close>

fun validate_queues :: "string list \<Rightarrow> QueueSpec list \<Rightarrow> verror + string list" where
  "validate_queues queueNames [] = Inr queueNames"
| "validate_queues queueNames (q # qs) =
     (if q_Name q = '''' then Inl (verr ''queues.name'' QueueNameRequired)
      else if q_Name q \<in> set queueNames
        then Inl (verr ''queues.name'' (DuplicateQueueName (q_Name q)))
      else validate_queues (q_Name q # queueNames) qs)"

text \<open>One iteration of the stage loop: the error it returns with, if any.\<close>

definition validate_stage :: "string list \<Rightarrow> string list \<Rightarrow> StageSpec \<Rightarrow> verror option" where
  "validate_stage queueNames stageNames s =
     (if st_Name s = '''' then Some (verr ''stages.name'' StageNameRequired)
      else if st_Name s \<in> set stageNames
        then Some (verr ''stages.name'' (DuplicateStage (st_Name s)))
      else if st_Type s = ''''
        then Some (verr ''stages.type'' (StageMissingType (st_Name s)))
      else if st_Threads s < 1
        then Some (verr ''stages.threads'' (StageNeedsThread (st_Name s)))
      else (case st_InputQueue s of
              Some q \<Rightarrow>
                if q \<notin> set queueNames
                then Some (verr ''stages.input_queue'' (UnknownInputQueue (st_Name s) q))
                else (case st_OutputQueue s of
                        Some q' \<Rightarrow>
                          if q' \<notin> set queueNames
                          then Some (verr ''stages.output_queue'' (UnknownOutputQueue (st_Name s) q'))
                          else None
                      | None \<Rightarrow> None)
            | None \<Rightarrow>
                (case st_OutputQueue s of
                   Some q' \<Rightarrow>
                     if q' \<notin> set queueNames
                     then Some (verr ''stages.output_queue'' (UnknownOutputQueue (st_Name s) q'))
                     else None
                 | None \<Rightarrow> None)))"

fun validate_stages :: "string list \<Rightarrow> string list \<Rightarrow> StageSpec list \<Rightarrow> verror option" where
  "validate_stages queueNames stageNames [] = None"
| "validate_stages queueNames stageNames (s # ss) =
     (case validate_stage queueNames stageNames s of
        Some e \<Rightarrow> Some e
      | None \<Rightarrow> validate_stages queueNames (st_Name s # stageNames) ss)"

definition Validate :: "FlowSpec option \<Rightarrow> verror option" where
  "Validate spec =
     (case spec of
        None \<Rightarrow> Some (verr ''spec'' FlowSpecIsNil)
      | Some sp \<Rightarrow>
          if fs_Name sp = '''' then Some (verr ''name'' FlowNameRequired)
          else if fs_Stages sp = [] then Some (verr ''stages'' FlowNeedsStage)
          else (case validate_queues [] (fs_Queues sp) of
                  Inl e \<Rightarrow> Some e
                | Inr queueNames \<Rightarrow> validate_stages queueNames [] (fs_Stages sp)))"

section \<open>Diff and Fingerprint\<close>

datatype diff_line = DiffName string string | DiffQueues nat nat | DiffStages nat nat

definition Diff :: "FlowSpec \<Rightarrow> FlowSpec \<Rightarrow> diff_line list" where
  "Diff a b =
     (if fs_Name a \<noteq> fs_Name b then [DiffName (fs_Name a) (fs_Name b)] else [])
     @ (if length (fs_Queues a) \<noteq> length (fs_Queues b)
        then [DiffQueues (length (fs_Queues a)) (length (fs_Queues b))] else [])
     @ (if length (fs_Stages a) \<noteq> length (fs_Stages b)
        then [DiffStages (length (fs_Stages a)) (length (fs_Stages b))] else [])"

text \<open>
  \<open>marshal\<close> stands for \<^verbatim>\<open>proto.Marshal\<close> (the bytes and the error, which is dropped), \<open>sha256\<close> for
  \<^verbatim>\<open>sha256.Sum256\<close>.
\<close>

definition Fingerprint :: "('m \<Rightarrow> string \<times> 'e option) \<Rightarrow> (string \<Rightarrow> string) \<Rightarrow> 'm \<Rightarrow> string" where
  "Fingerprint marshal sha256 msg = EncodeToString (sha256 (fst (marshal msg)))"

section \<open>What validation accepts\<close>

definition queue_names :: "FlowSpec \<Rightarrow> string list" where
  "queue_names sp = map q_Name (fs_Queues sp)"

definition stage_ok :: "string set \<Rightarrow> StageSpec \<Rightarrow> bool" where
  "stage_ok qs s \<longleftrightarrow> st_Name s \<noteq> '''' \<and> st_Type s \<noteq> '''' \<and> 1 \<le> st_Threads s
     \<and> (\<forall>q. st_InputQueue s = Some q \<longrightarrow> q \<in> qs) \<and> (\<forall>q. st_OutputQueue s = Some q \<longrightarrow> q \<in> qs)"

text \<open>
  A well-formed flow: a name, at least one stage, unique non-empty queue names, unique stage
  names, and stages with a name, a type, a thread and existing queues only.
\<close>

definition valid_spec :: "FlowSpec \<Rightarrow> bool" where
  "valid_spec sp \<longleftrightarrow> fs_Name sp \<noteq> '''' \<and> fs_Stages sp \<noteq> []
     \<and> '''' \<notin> set (queue_names sp) \<and> distinct (queue_names sp)
     \<and> distinct (map st_Name (fs_Stages sp))
     \<and> (\<forall>s\<in>set (fs_Stages sp). stage_ok (set (queue_names sp)) s)"

lemma validate_queues_iff:
  "validate_queues ns qs = Inr ns' \<longleftrightarrow>
     '''' \<notin> set (map q_Name qs) \<and> distinct (map q_Name qs) \<and> set (map q_Name qs) \<inter> set ns = {}
     \<and> ns' = rev (map q_Name qs) @ ns"
  by (induction qs arbitrary: ns) auto

lemma one_le_u32: "(1::u32) \<le> x \<longleftrightarrow> x \<noteq> 0"
  by (metis linorder_not_less word_less_1)

lemma validate_stage_None:
  "validate_stage qs ss s = None \<longleftrightarrow> st_Name s \<notin> set ss \<and> stage_ok (set qs) s"
  by (auto simp: validate_stage_def stage_ok_def one_le_u32 split: option.splits)

lemma validate_stages_None:
  "validate_stages qs ss sts = None \<longleftrightarrow>
     distinct (map st_Name sts) \<and> set (map st_Name sts) \<inter> set ss = {} \<and> (\<forall>s\<in>set sts. stage_ok (set qs) s)"
proof (induction sts arbitrary: ss)
  case (Cons s sts)
  show ?case
    using validate_stage_None [of qs ss s] Cons.IH [of "st_Name s # ss"]
    by (cases "validate_stage qs ss s") auto
qed simp

lemma Validate_iff: "Validate (Some sp) = None \<longleftrightarrow> valid_spec sp"
proof (cases "validate_queues [] (fs_Queues sp)")
  case (Inl e)
  then have "\<not> ('''' \<notin> set (queue_names sp) \<and> distinct (queue_names sp))"
    using validate_queues_iff [of "[]" "fs_Queues sp"] by (auto simp: queue_names_def)
  with Inl show ?thesis by (auto simp: Validate_def valid_spec_def)
next
  case (Inr ns)
  then have "'''' \<notin> set (queue_names sp)" "distinct (queue_names sp)" "set ns = set (queue_names sp)"
    using validate_queues_iff [of "[]" "fs_Queues sp" ns] by (auto simp: queue_names_def)
  with Inr show ?thesis
    by (auto simp: Validate_def valid_spec_def validate_stages_None)
qed

section \<open>Error reports\<close>

text \<open>What each message says about the spec.\<close>

fun justified :: "FlowSpec \<Rightarrow> vmessage \<Rightarrow> bool" where
  "justified sp FlowSpecIsNil \<longleftrightarrow> False"
| "justified sp FlowNameRequired \<longleftrightarrow> fs_Name sp = ''''"
| "justified sp FlowNeedsStage \<longleftrightarrow> fs_Stages sp = []"
| "justified sp QueueNameRequired \<longleftrightarrow> '''' \<in> set (queue_names sp)"
| "justified sp (DuplicateQueueName n) \<longleftrightarrow> 2 \<le> count_list (queue_names sp) n"
| "justified sp StageNameRequired \<longleftrightarrow> '''' \<in> st_Name ` set (fs_Stages sp)"
| "justified sp (DuplicateStage n) \<longleftrightarrow> 2 \<le> count_list (map st_Name (fs_Stages sp)) n"
| "justified sp (StageMissingType n) \<longleftrightarrow> (\<exists>s\<in>set (fs_Stages sp). st_Name s = n \<and> st_Type s = '''')"
| "justified sp (StageNeedsThread n) \<longleftrightarrow> (\<exists>s\<in>set (fs_Stages sp). st_Name s = n \<and> st_Threads s = 0)"
| "justified sp (UnknownInputQueue n q) \<longleftrightarrow>
     (\<exists>s\<in>set (fs_Stages sp). st_Name s = n \<and> st_InputQueue s = Some q) \<and> q \<notin> set (queue_names sp)"
| "justified sp (UnknownOutputQueue n q) \<longleftrightarrow>
     (\<exists>s\<in>set (fs_Stages sp). st_Name s = n \<and> st_OutputQueue s = Some q) \<and> q \<notin> set (queue_names sp)"

lemma count_list_pos: "x \<in> set xs \<Longrightarrow> 0 < count_list xs x"
  by (induction xs) auto

lemma validate_queues_error:
  "validate_queues ns qs = Inl e \<Longrightarrow>
     (Message e = QueueNameRequired \<and> '''' \<in> set (map q_Name qs))
     \<or> (\<exists>n. Message e = DuplicateQueueName n \<and> 2 \<le> count_list (ns @ map q_Name qs) n)"
proof (induction qs arbitrary: ns)
  case (Cons q qs)
  consider "q_Name q = ''''" | "q_Name q \<noteq> ''''" "q_Name q \<in> set ns"
    | "q_Name q \<noteq> ''''" "q_Name q \<notin> set ns" by blast
  then show ?case
  proof cases
    case 2
    then have "0 < count_list ns (q_Name q)" by (simp add: count_list_pos)
    then have "2 \<le> count_list (ns @ map q_Name (q # qs)) (q_Name q)" by simp
    moreover have "Message e = DuplicateQueueName (q_Name q)"
      using 2 Cons.prems by (simp split: if_splits) (hypsubst, simp)
    ultimately show ?thesis by blast
  next
    case 3
    with Cons.prems have "validate_queues (q_Name q # ns) qs = Inl e" by simp
    note Cons.IH [OF this]
    moreover have "count_list ((q_Name q # ns) @ map q_Name qs) n = count_list (ns @ map q_Name (q # qs)) n"
      for n by simp
    ultimately show ?thesis by (metis list.set_intros(2) list.simps(9))
  next
    case 1
    with Cons.prems have "Message e = QueueNameRequired" by (simp, hypsubst, simp)
    with 1 show ?thesis by simp
  qed
qed simp

lemma validate_stage_error:
  assumes "validate_stage qs ss s = Some e"
  shows "(case Message e of
       StageNameRequired \<Rightarrow> st_Name s = ''''
     | DuplicateStage n \<Rightarrow> n = st_Name s \<and> n \<in> set ss
     | StageMissingType n \<Rightarrow> n = st_Name s \<and> st_Type s = ''''
     | StageNeedsThread n \<Rightarrow> n = st_Name s \<and> st_Threads s = 0
     | UnknownInputQueue n q \<Rightarrow> n = st_Name s \<and> st_InputQueue s = Some q \<and> q \<notin> set qs
     | UnknownOutputQueue n q \<Rightarrow> n = st_Name s \<and> st_OutputQueue s = Some q \<and> q \<notin> set qs
     | _ \<Rightarrow> False)"
  using assms unfolding validate_stage_def
  by (simp split: if_split_asm option.split_asm) (hypsubst, simp)+

lemma validate_stages_error:
  "validate_stages qs ss sts = Some e \<Longrightarrow> \<exists>pre s post. sts = pre @ s # post
     \<and> validate_stage qs (rev (map st_Name pre) @ ss) s = Some e"
proof (induction sts arbitrary: ss)
  case (Cons s sts)
  show ?case
  proof (cases "validate_stage qs ss s")
    case None
    with Cons.prems have "validate_stages qs (st_Name s # ss) sts = Some e" by simp
    from Cons.IH [OF this] obtain pre t post where "sts = pre @ t # post"
      "validate_stage qs (rev (map st_Name pre) @ st_Name s # ss) t = Some e" by blast
    then show ?thesis by (intro exI [of _ "s # pre"]) auto
  next
    case (Some e')
    with Cons.prems show ?thesis by (intro exI [of _ "[]"]) auto
  qed
qed simp

lemma validate_stages_justified:
  assumes "validate_stages qs [] (fs_Stages sp) = Some e" "set qs = set (queue_names sp)"
  shows "justified sp (Message e)"
proof -
  obtain pre s post where st: "fs_Stages sp = pre @ s # post"
    and e: "validate_stage qs (rev (map st_Name pre)) s = Some e"
    using validate_stages_error [OF assms(1)] by auto
  have dup: "2 \<le> count_list (map st_Name (fs_Stages sp)) (st_Name s)"
    if "st_Name s \<in> st_Name ` set pre"
    using that count_list_pos [of "st_Name s" "map st_Name pre"] by (simp add: st)
  show ?thesis
    using validate_stage_error [OF e] assms(2) dup by (cases "Message e") (auto simp: st)
qed

lemma Validate_justified: "Validate (Some sp) = Some e \<Longrightarrow> justified sp (Message e)"
proof -
  assume v: "Validate (Some sp) = Some e"
  show ?thesis
  proof (cases "fs_Name sp = '''' \<or> fs_Stages sp = []")
    case True
    with v show ?thesis by (auto simp: Validate_def split: if_splits)
  next
    case False
    show ?thesis
    proof (cases "validate_queues [] (fs_Queues sp)")
      case (Inl e')
      with v False have "e' = e" by (simp add: Validate_def)
      with validate_queues_error [OF Inl] show ?thesis by (auto simp: queue_names_def)
    next
      case (Inr ns)
      then have "set ns = set (queue_names sp)"
        using validate_queues_iff [of "[]" "fs_Queues sp" ns] by (auto simp: queue_names_def)
      moreover have "validate_stages ns [] (fs_Stages sp) = Some e"
        using v False Inr by (simp add: Validate_def)
      ultimately show ?thesis by (intro validate_stages_justified)
    qed
  qed
qed

section \<open>Properties\<close>

text \<open>
  C9: Validation accepts exactly the well-formed flows: \<^verbatim>\<open>Validate\<close> returns nil for a message if and
  only if the message is there and has a name, a stage, unique non-empty queue and stage names, and
  stages with a type, at least one thread and references to declared queues only.
\<close>

theorem validate_accepts: "Validate spec = None \<longleftrightarrow> (\<exists>sp. spec = Some sp \<and> valid_spec sp)"
proof (cases spec)
  case None
  then show ?thesis by (simp add: Validate_def)
next
  case (Some sp)
  then show ?thesis by (simp add: Validate_iff)
qed

text \<open>
  C27: Every validation error is true of the spec: a reported duplicate occurs at least twice, a
  reported stage is in the flow and has the reported defect, a reported queue reference is made by
  that stage and names no declared queue.
\<close>

theorem validate_error_justified:
  "Validate (Some sp) = Some e \<Longrightarrow> justified sp (Message e)"
  by (rule Validate_justified)

theorem validate_error_justified_witness:
  "Validate (Some (demo_spec\<lparr>fs_Queues := []\<rparr>))
     = Some (verr ''stages.output_queue'' (UnknownOutputQueue ''src'' ''q''))
   \<and> justified (demo_spec\<lparr>fs_Queues := []\<rparr>) (UnknownOutputQueue ''src'' ''q'')"
proof -
  have v: "Validate (Some (demo_spec\<lparr>fs_Queues := []\<rparr>))
     = Some (verr ''stages.output_queue'' (UnknownOutputQueue ''src'' ''q''))"
    by (simp add: Validate_def demo_spec_def empty_spec_def mk_stage_def validate_stage_def)
  from validate_error_justified [OF v] v show ?thesis by simp
qed



text \<open>
  On flows without duplicate names the result of normalisation depends neither on the sorting
  algorithm nor on the order in which queues and stages were written, so their fingerprints agree.
\<close>

lemma normalize_deterministic:
  assumes "is_sort q_Name sq" "is_sort st_Name ss" "is_sort q_Name sq'" "is_sort st_Name ss'"
    and "distinct (queue_names sp)" "distinct (map st_Name (fs_Stages sp))"
    and "mset qs = mset (fs_Queues sp)" "mset sts = mset (fs_Stages sp)"
  shows "Normalize sq ss (Some (sp\<lparr>fs_Queues := qs, fs_Stages := sts\<rparr>)) = Normalize sq' ss' (Some sp)
    \<and> Fingerprint marshal sha (fst (Normalize sq ss (Some (sp\<lparr>fs_Queues := qs, fs_Stages := sts\<rparr>))))
      = Fingerprint marshal sha (fst (Normalize sq' ss' (Some sp)))"
proof -
  have "sq qs = sq' (fs_Queues sp)"
    using assms(1,3,5,7) by (intro is_sort_perm) (auto simp: queue_names_def)
  moreover have "ss sts = ss' (fs_Stages sp)"
    using assms(2,4,6,8) by (intro is_sort_perm)
  ultimately show ?thesis by (simp add: Normalize_Some)
qed

lemma normalize_deterministic_example:
  "is_sort q_Name (sort_key q_Name) \<and> distinct (map st_Name (fs_Stages demo_spec))
   \<and> Normalize (sort_key q_Name) (sort_key st_Name)
       (Some (demo_spec\<lparr>fs_Queues := fs_Queues demo_spec, fs_Stages := rev (fs_Stages demo_spec)\<rparr>))
     = Normalize (sort_key q_Name) (sort_key st_Name) (Some demo_spec)"
proof -
  have d: "distinct (queue_names demo_spec)" "distinct (map st_Name (fs_Stages demo_spec))"
    by (simp_all add: demo_spec_def empty_spec_def mk_stage_def mk_queue_def queue_names_def)
  note normalize_deterministic [OF is_sort_sort_key is_sort_sort_key is_sort_sort_key
      is_sort_sort_key d refl, of "rev (fs_Stages demo_spec)", THEN conjunct1]
  then show ?thesis using d by (simp add: is_sort_sort_key)
qed

text \<open>
  C26: Normalisation and validation commute: with any legal sort, a flow is valid after
  normalisation exactly when it was valid before, and normalising a valid flow a second time
  changes nothing.
\<close>

theorem normalize_keeps_verdict:
  assumes "is_sort q_Name sq" "is_sort st_Name ss"
  shows "(Validate (fst (Normalize sq ss inp)) = None \<longleftrightarrow> Validate inp = None)
    \<and> (Validate inp = None \<longrightarrow> Normalize sq ss (fst (Normalize sq ss inp)) = Normalize sq ss inp)"
proof (cases inp)
  case None
  then show ?thesis by (simp add: Normalize_def Validate_def)
next
  case (Some sp)
  note q = is_sortD [OF assms(1)] is_sort_distinct [OF assms(1)]
  note s = is_sortD [OF assms(2)] is_sort_distinct [OF assms(2)]
  have names: "set (queue_names (normalized sq ss sp)) = set (queue_names sp)"
    "distinct (queue_names (normalized sq ss sp)) \<longleftrightarrow> distinct (queue_names sp)"
    using q by (simp_all add: queue_names_def comp_def)
  have "ss (fs_Stages sp) = [] \<longleftrightarrow> fs_Stages sp = []"
    using s(4) [of "fs_Stages sp"] by auto
  then have v: "valid_spec (normalized sq ss sp) \<longleftrightarrow> valid_spec sp"
    using s names by (simp add: valid_spec_def)
  have "normalized sq ss (normalized sq ss sp) = normalized sq ss sp" if "valid_spec sp"
  proof -
    have "sq (map default_capacity (sq (fs_Queues sp))) = map default_capacity (sq (fs_Queues sp))"
      using that q by (intro is_sort_fixpoint [OF assms(1)]) (simp_all add: valid_spec_def queue_names_def comp_def)
    moreover have "ss (ss (fs_Stages sp)) = ss (fs_Stages sp)"
      using that s by (intro is_sort_fixpoint [OF assms(2)]) (simp_all add: valid_spec_def)
    ultimately show ?thesis by (simp add: comp_def)
  qed
  then show ?thesis
    using v by (simp add: Some Normalize_Some Validate_iff)
qed

theorem normalize_keeps_verdict_witness:
  "Validate (Some demo_spec) = None
   \<and> Validate (fst (Normalize (sort_key q_Name) (sort_key st_Name) (Some demo_spec))) = None"
proof -
  have "Validate (Some demo_spec) = None"
    by (simp add: Validate_def demo_spec_def empty_spec_def mk_stage_def mk_queue_def validate_stage_def)
  with normalize_keeps_verdict [OF is_sort_sort_key is_sort_sort_key, of "Some demo_spec"]
  show ?thesis by blast
qed

end
