(* ===== verification/Cli.thy ===== *)
theory Cli
  imports Api_Server Flow_Spec
begin

text \<open>
  The command line tool (\<^verbatim>\<open>cli/cmd/flowctl\<close>, \<^verbatim>\<open>cli/internal/loader\<close>): the connection to the API with its credentials,
  loading a flow file, and the commands. Reading files, YAML, JSON, the encoding of a response and the
  network are parameters; the network hands a call with its metadata to whatever serves at the address. A command
  returns its error, if any, and the lines it prints.
\<close>

section \<open>Connecting\<close>

text \<open>The global flags of the tool that a connection uses.\<close>

record cli_flags =
  cf_apiKey :: string
  cf_grpcTLSEnabled :: bool
  cf_grpcTLSCertFile :: string
  cf_grpcTLSServerName :: string

definition cli_flags_of :: "environ \<Rightarrow> cli_flags" where
  "cli_flags_of env =
     \<lparr>cf_apiKey = Getenv env ''FLOW_API_KEY'',
      cf_grpcTLSEnabled = envBoolDefault env ''FLOW_GRPC_TLS_ENABLED'' False,
      cf_grpcTLSCertFile = Getenv env ''FLOW_GRPC_TLS_CERT'',
      cf_grpcTLSServerName = Getenv env ''FLOW_GRPC_TLS_SERVER_NAME''\<rparr>"

record apiKeyCredentials =
  cr_token :: string
  cr_requireTransportSecurity :: bool

definition GetRequestMetadata :: "apiKeyCredentials \<Rightarrow> metadata" where
  "GetRequestMetadata c = (if cr_token c = '''' then [] else [(''authorization'', [cr_token c])])"

definition formatBearerToken :: "string \<Rightarrow> string" where
  "formatBearerToken token =
     (let value = TrimSpace token in
      if value = '''' then ''''
      else if HasPrefix (ToLower value) ''bearer '' then value
      else ''Bearer '' @ value)"

datatype cli_error =
    ApiAddressRequired
  | CliTlsCertEmpty
  | CliTlsServerNameEmpty
  | CliTlsConfig string
  | ConnectFailed string string
  | SubmitConnect string cli_error
  | ReadFailed string string
  | YamlDecode string
  | YamlToJson string
  | DecodeFlowSpec string
  | InvalidFlow verror
  | FlowNameRequired_cli
  | VersionRequired
  | CallFailed string rpc_error
  | EncodeResponse string
  | RuntimeFailed string
  | UnsupportedFormat string
  | InvalidSchemaVersion string
  | SchemaVersionZero
  | SchemaFileRequired
  | ReadStdin string

text \<open>
  The network as the tool sees it: loading the certificate, dialing with or without TLS, and a call over the
  connection. A world \<open>'w\<close> lies behind it.
\<close>

record 'w network =
  nw_clientTLS :: "string \<Rightarrow> string \<Rightarrow> string option"
  nw_dial :: "string \<Rightarrow> bool \<Rightarrow> string option"
  nw_call :: "string \<Rightarrow> metadata \<Rightarrow> 'w unary_handler"

record conn =
  cn_addr :: string
  cn_creds :: "apiKeyCredentials option"

definition dialAPI :: "'w network \<Rightarrow> cli_flags \<Rightarrow> string \<Rightarrow> cli_error + conn" where
  "dialAPI net fl addr =
     (if addr = '''' then Inl ApiAddressRequired
      else if cf_grpcTLSEnabled fl \<and> TrimSpace (cf_grpcTLSCertFile fl) = '''' then Inl CliTlsCertEmpty
      else if cf_grpcTLSEnabled fl \<and> TrimSpace (cf_grpcTLSServerName fl) = '''' then Inl CliTlsServerNameEmpty
      else
        (case (if cf_grpcTLSEnabled fl then nw_clientTLS net (cf_grpcTLSCertFile fl) (cf_grpcTLSServerName fl) else None) of
           Some e \<Rightarrow> Inl (CliTlsConfig e)
         | None \<Rightarrow>
             let creds = (if TrimSpace (cf_apiKey fl) \<noteq> ''''
                          then Some \<lparr>cr_token = formatBearerToken (cf_apiKey fl),
                                 cr_requireTransportSecurity = cf_grpcTLSEnabled fl\<rparr>
                          else None) in
             (case nw_dial net addr (cf_grpcTLSEnabled fl) of
                Some e \<Rightarrow> Inl (ConnectFailed addr e)
              | None \<Rightarrow> Inr \<lparr>cn_addr = addr, cn_creds = creds\<rparr>)))"

text \<open>A call over a connection carries the metadata of its credentials.\<close>

definition client_call :: "'w network \<Rightarrow> conn \<Rightarrow> 'w unary_handler" where
  "client_call net cn =
     nw_call net (cn_addr cn) (case cn_creds cn of None \<Rightarrow> [] | Some c \<Rightarrow> GetRequestMetadata c)"

section \<open>Loading a flow\<close>

record 'y loader =
  ld_ReadFile :: "string \<Rightarrow> string + string"
  ld_yaml :: "string \<Rightarrow> string + 'y"
  ld_json :: "'y \<Rightarrow> string + string"
  ld_protojson :: "string \<Rightarrow> string + FlowSpec"

definition LoadFlowSpec :: "'y loader \<Rightarrow> string \<Rightarrow> cli_error + FlowSpec" where
  "LoadFlowSpec ld path =
     (case ld_ReadFile ld path of
        Inl e \<Rightarrow> Inl (ReadFailed path e)
      | Inr data \<Rightarrow>
     (case ld_yaml ld data of
        Inl e \<Rightarrow> Inl (YamlDecode e)
      | Inr raw \<Rightarrow>
     (case ld_json ld raw of
        Inl e \<Rightarrow> Inl (YamlToJson e)
      | Inr jsonBytes \<Rightarrow>
     (case ld_protojson ld jsonBytes of
        Inl e \<Rightarrow> Inl (DecodeFlowSpec e)
      | Inr spec \<Rightarrow> Inr spec))))"

text \<open>The start of every command that takes a flow file: load, normalize, validate. \<open>sq\<close> and \<open>ss\<close> are the sorts of the run.\<close>

definition load_valid ::
  "'y loader \<Rightarrow> (QueueSpec list \<Rightarrow> QueueSpec list) \<Rightarrow> (StageSpec list \<Rightarrow> StageSpec list) \<Rightarrow> string \<Rightarrow> cli_error + FlowSpec" where
  "load_valid ld sq ss path =
     (case LoadFlowSpec ld path of
        Inl e \<Rightarrow> Inl e
      | Inr loaded \<Rightarrow>
          (case fst (Normalize sq ss (Some loaded)) of
             None \<Rightarrow> Inl (InvalidFlow (verr ''spec'' FlowSpecIsNil))
           | Some spec \<Rightarrow>
               (case Validate (Some spec) of
                  Some e \<Rightarrow> Inl (InvalidFlow e)
                | None \<Rightarrow> Inr spec)))"

section \<open>Commands on flows\<close>

text \<open>What a command prints: the lines of a success, the two verdicts of \<^verbatim>\<open>validate\<close>, or an encoded response.\<close>

datatype cli_output =
    SubmittedTo string string
  | UpdatedOn string string
  | DeletedFrom string string
  | FlowIsValid
  | FlowIsInvalid
  | Encoded string

type_synonym 'w outcome = "(cli_error option \<times> cli_output list) \<times> 'w"

text \<open>\<open>enc\<close> is the JSON encoding of a response.\<close>

definition writeProto :: "(rpc_response \<Rightarrow> string + string) \<Rightarrow> rpc_response \<Rightarrow> cli_error option \<times> cli_output list" where
  "writeProto enc msg =
     (case enc msg of
        Inl e \<Rightarrow> (Some (EncodeResponse e), [])
      | Inr data \<Rightarrow> (None, [Encoded data]))"

definition show_reply ::
  "(rpc_response \<Rightarrow> string + string) \<Rightarrow> string \<Rightarrow> (rpc_error + rpc_response) \<times> 'w \<Rightarrow> 'w outcome" where
  "show_reply enc what res =
     (case res of
        (Inl e, w') \<Rightarrow> ((Some (CallFailed what e), []), w')
      | (Inr msg, w') \<Rightarrow> (writeProto enc msg, w'))"

definition submitCmd ::
  "'w network \<Rightarrow> cli_flags \<Rightarrow> 'y loader \<Rightarrow> (QueueSpec list \<Rightarrow> QueueSpec list) \<Rightarrow> (StageSpec list \<Rightarrow> StageSpec list)
     \<Rightarrow> string \<Rightarrow> string \<Rightarrow> 'w \<Rightarrow> 'w outcome" where
  "submitCmd net fl ld sq ss submitAPIAddr path w =
     (case load_valid ld sq ss path of
        Inl e \<Rightarrow> ((Some e, []), w)
      | Inr spec \<Rightarrow>
     (case dialAPI net fl submitAPIAddr of
        Inl e \<Rightarrow> ((Some (SubmitConnect submitAPIAddr e), []), w)
      | Inr conn \<Rightarrow>
     (case client_call net conn (RpcCreateFlow \<lparr>cfr_Spec = Some spec\<rparr>) w of
        (Inl e, w') \<Rightarrow> ((Some (CallFailed ''submit flow'' e), []), w')
      | (Inr _, w') \<Rightarrow> ((None, [SubmittedTo (fs_Name spec) submitAPIAddr]), w'))))"

definition updateCmd ::
  "'w network \<Rightarrow> cli_flags \<Rightarrow> 'y loader \<Rightarrow> (QueueSpec list \<Rightarrow> QueueSpec list) \<Rightarrow> (StageSpec list \<Rightarrow> StageSpec list)
     \<Rightarrow> string \<Rightarrow> string \<Rightarrow> string \<Rightarrow> 'w \<Rightarrow> 'w outcome" where
  "updateCmd net fl ld sq ss updateAPIAddr updateName path w =
     (case load_valid ld sq ss path of
        Inl e \<Rightarrow> ((Some e, []), w)
      | Inr spec \<Rightarrow>
          let name = (if updateName = '''' then fs_Name spec else updateName) in
          if name = '''' then ((Some FlowNameRequired_cli, []), w)
          else
     (case dialAPI net fl updateAPIAddr of
        Inl e \<Rightarrow> ((Some e, []), w)
      | Inr conn \<Rightarrow>
     (case client_call net conn (RpcUpdateFlow \<lparr>ufr_Name = name, ufr_Spec = Some spec\<rparr>) w of
        (Inl e, w') \<Rightarrow> ((Some (CallFailed ''update flow'' e), []), w')
      | (Inr _, w') \<Rightarrow> ((None, [UpdatedOn name updateAPIAddr]), w'))))"

definition getCmd ::
  "'w network \<Rightarrow> cli_flags \<Rightarrow> (rpc_response \<Rightarrow> string + string) \<Rightarrow> string \<Rightarrow> string \<Rightarrow> 'w \<Rightarrow> 'w outcome" where
  "getCmd net fl enc getAPIAddr name w =
     (case dialAPI net fl getAPIAddr of
        Inl e \<Rightarrow> ((Some e, []), w)
      | Inr conn \<Rightarrow> show_reply enc ''get flow'' (client_call net conn (RpcGetFlow \<lparr>gfr_Name = name\<rparr>) w))"

definition listCmd ::
  "'w network \<Rightarrow> cli_flags \<Rightarrow> (rpc_response \<Rightarrow> string + string) \<Rightarrow> string \<Rightarrow> 'w \<Rightarrow> 'w outcome" where
  "listCmd net fl enc listAPIAddr w =
     (case dialAPI net fl listAPIAddr of
        Inl e \<Rightarrow> ((Some e, []), w)
      | Inr conn \<Rightarrow> show_reply enc ''list flows'' (client_call net conn RpcListFlows w))"

definition statusCmd ::
  "'w network \<Rightarrow> cli_flags \<Rightarrow> (rpc_response \<Rightarrow> string + string) \<Rightarrow> string \<Rightarrow> string \<Rightarrow> 'w \<Rightarrow> 'w outcome" where
  "statusCmd net fl enc statusAPIAddr name w =
     (case dialAPI net fl statusAPIAddr of
        Inl e \<Rightarrow> ((Some e, []), w)
      | Inr conn \<Rightarrow> show_reply enc ''get flow status'' (client_call net conn (RpcGetFlowStatus \<lparr>gsr_Name = name\<rparr>) w))"

definition stopCmd :: "'w network \<Rightarrow> cli_flags \<Rightarrow> string \<Rightarrow> string \<Rightarrow> 'w \<Rightarrow> 'w outcome" where
  "stopCmd net fl stopAPIAddr name w =
     (case dialAPI net fl stopAPIAddr of
        Inl e \<Rightarrow> ((Some e, []), w)
      | Inr conn \<Rightarrow>
     (case client_call net conn (RpcDeleteFlow \<lparr>dfr_Name = name\<rparr>) w of
        (Inl e, w') \<Rightarrow> ((Some (CallFailed ''delete flow'' e), []), w')
      | (Inr _, w') \<Rightarrow> ((None, [DeletedFrom name stopAPIAddr]), w')))"

definition rollbackCmd ::
  "'w network \<Rightarrow> cli_flags \<Rightarrow> (rpc_response \<Rightarrow> string + string) \<Rightarrow> string \<Rightarrow> u64 \<Rightarrow> string \<Rightarrow> 'w \<Rightarrow> 'w outcome" where
  "rollbackCmd net fl enc rollbackAPIAddr rollbackVersion name w =
     (if rollbackVersion = 0 then ((Some VersionRequired, []), w)
      else
        (case dialAPI net fl rollbackAPIAddr of
           Inl e \<Rightarrow> ((Some e, []), w)
         | Inr conn \<Rightarrow> show_reply enc ''rollback flow''
             (client_call net conn (RpcRollbackFlow \<lparr>rfr_Name = name, rfr_Version = rollbackVersion\<rparr>) w)))"

text \<open>\<open>exe\<close> runs the program \<^verbatim>\<open>flow_runtime\<close> on a file and returns its error, if any.\<close>

definition runCmd ::
  "'y loader \<Rightarrow> (QueueSpec list \<Rightarrow> QueueSpec list) \<Rightarrow> (StageSpec list \<Rightarrow> StageSpec list)
     \<Rightarrow> (string \<Rightarrow> string \<Rightarrow> 'w \<Rightarrow> string option \<times> 'w) \<Rightarrow> string \<Rightarrow> 'w \<Rightarrow> 'w outcome" where
  "runCmd ld sq ss exe path w =
     (case load_valid ld sq ss path of
        Inl e \<Rightarrow> ((Some e, []), w)
      | Inr _ \<Rightarrow>
          (case exe ''flow_runtime'' path w of
             (Some e, w') \<Rightarrow> ((Some (RuntimeFailed e), []), w')
           | (None, w') \<Rightarrow> ((None, []), w')))"

definition validateCmd ::
  "'y loader \<Rightarrow> (QueueSpec list \<Rightarrow> QueueSpec list) \<Rightarrow> (StageSpec list \<Rightarrow> StageSpec list) \<Rightarrow> string \<Rightarrow> cli_error option \<times> cli_output list" where
  "validateCmd ld sq ss path =
     (case load_valid ld sq ss path of
        Inl (InvalidFlow e) \<Rightarrow> (Some (InvalidFlow e), [FlowIsInvalid])
      | Inl e \<Rightarrow> (Some e, [])
      | Inr _ \<Rightarrow> (None, [FlowIsValid]))"

section \<open>Commands on schemas\<close>

definition parseQueueSchemaFormat :: "string \<Rightarrow> cli_error + InMemorySchemaFormat" where
  "parseQueueSchemaFormat value =
     (let v = ToLower (TrimSpace value) in
      if v = ''arrow'' \<or> v = ''apache-arrow'' then Inr IN_MEMORY_SCHEMA_FORMAT_ARROW
      else if v = ''json'' then Inr IN_MEMORY_SCHEMA_FORMAT_JSON
      else if v = ''protobuf'' \<or> v = ''proto'' then Inr IN_MEMORY_SCHEMA_FORMAT_PROTOBUF
      else if v = ''flatbuffers'' \<or> v = ''flatbuffer'' then Inr IN_MEMORY_SCHEMA_FORMAT_FLATBUFFERS
      else Inl (UnsupportedFormat value))"

definition parseSchemaVersion :: "string \<Rightarrow> cli_error + u32" where
  "parseSchemaVersion value =
     (case ParseUint value 32 of
        None \<Rightarrow> Inl (InvalidSchemaVersion value)
      | Some version \<Rightarrow> if version = 0 then Inl SchemaVersionZero else Inr (of_nat version))"

text \<open>\<open>stdin\<close> is the result of reading the standard input to its end.\<close>

definition readSchemaPayload :: "'y loader \<Rightarrow> string + string \<Rightarrow> string \<Rightarrow> cli_error + string" where
  "readSchemaPayload ld stdin path =
     (if path = '''' then Inl SchemaFileRequired
      else if path = ''-'' then
        (case stdin of Inl e \<Rightarrow> Inl (ReadStdin e) | Inr data \<Rightarrow> Inr data)
      else (case ld_ReadFile ld path of Inl e \<Rightarrow> Inl (ReadFailed path e) | Inr data \<Rightarrow> Inr data))"

definition schemaCreateCmd ::
  "'w network \<Rightarrow> cli_flags \<Rightarrow> (rpc_response \<Rightarrow> string + string) \<Rightarrow> 'y loader \<Rightarrow> string + string
     \<Rightarrow> string \<Rightarrow> string \<Rightarrow> string \<Rightarrow> string \<Rightarrow> 'w \<Rightarrow> 'w outcome" where
  "schemaCreateCmd net fl enc ld stdin addr fmt file schemaID w =
     (case parseQueueSchemaFormat fmt of
        Inl e \<Rightarrow> ((Some e, []), w)
      | Inr format \<Rightarrow>
     (case readSchemaPayload ld stdin file of
        Inl e \<Rightarrow> ((Some e, []), w)
      | Inr payload \<Rightarrow>
     (case dialAPI net fl addr of
        Inl e \<Rightarrow> ((Some e, []), w)
      | Inr conn \<Rightarrow> show_reply enc ''create schema''
          (client_call net conn (RpcCreateSchema \<lparr>csr_Schema = Some \<lparr>sd_SchemaId = schemaID, sd_Version = 0,
             sd_Format = format, sd_RawSchema = payload\<rparr>\<rparr>) w))))"

definition schemaGetCmd ::
  "'w network \<Rightarrow> cli_flags \<Rightarrow> (rpc_response \<Rightarrow> string + string) \<Rightarrow> string \<Rightarrow> string \<Rightarrow> string \<Rightarrow> 'w \<Rightarrow> 'w outcome" where
  "schemaGetCmd net fl enc addr schemaID ver w =
     (case parseSchemaVersion ver of
        Inl e \<Rightarrow> ((Some e, []), w)
      | Inr version \<Rightarrow>
     (case dialAPI net fl addr of
        Inl e \<Rightarrow> ((Some e, []), w)
      | Inr conn \<Rightarrow> show_reply enc ''get schema''
          (client_call net conn (RpcGetSchema \<lparr>gscr_SchemaId = schemaID, gscr_Version = version\<rparr>) w)))"

definition schemaListCmd ::
  "'w network \<Rightarrow> cli_flags \<Rightarrow> (rpc_response \<Rightarrow> string + string) \<Rightarrow> string \<Rightarrow> string \<Rightarrow> 'w \<Rightarrow> 'w outcome" where
  "schemaListCmd net fl enc addr schemaID w =
     (case dialAPI net fl addr of
        Inl e \<Rightarrow> ((Some e, []), w)
      | Inr conn \<Rightarrow> show_reply enc ''list schema versions''
          (client_call net conn (RpcListSchemaVersions \<lparr>lsr_SchemaId = schemaID\<rparr>) w))"

definition schemaDeleteCmd ::
  "'w network \<Rightarrow> cli_flags \<Rightarrow> (rpc_response \<Rightarrow> string + string) \<Rightarrow> string \<Rightarrow> string \<Rightarrow> 'w \<Rightarrow> 'w outcome" where
  "schemaDeleteCmd net fl enc addr schemaID w =
     (case dialAPI net fl addr of
        Inl e \<Rightarrow> ((Some e, []), w)
      | Inr conn \<Rightarrow> show_reply enc ''delete schema''
          (client_call net conn (RpcDeleteSchema \<lparr>dsr_SchemaId = schemaID\<rparr>) w))"

section \<open>What the tool sends\<close>

lemma formatBearerToken_parsed:
  assumes "TrimSpace k = key" "key \<noteq> ''''" "\<not> HasPrefix (ToLower key) bearerPrefix"
  shows "parseBearerToken (formatBearerToken k) = key"
proof -
  have "TrimSpace key = key" using TrimSpace_idem [of k] assms(1) by simp
  then show ?thesis
    using assms parseBearerToken_bearer [of key] by (simp add: formatBearerToken_def Let_def bearerPrefix_def)
qed

lemma formatBearerToken_empty: "formatBearerToken k = '''' \<longleftrightarrow> TrimSpace k = ''''"
  by (simp add: formatBearerToken_def Let_def)

lemma dialAPI_conn:
  assumes "dialAPI net fl addr = Inr cn"
  shows "cn_addr cn = addr \<and> (case cn_creds cn of None \<Rightarrow> [] | Some c \<Rightarrow> GetRequestMetadata c)
    = (if TrimSpace (cf_apiKey fl) = '''' then [] else [(''authorization'', [formatBearerToken (cf_apiKey fl)])])"
  using assms
  by (auto simp: dialAPI_def Let_def GetRequestMetadata_def formatBearerToken_empty split: if_splits option.splits)

lemma load_valid_iff:
  "load_valid ld sq ss path = Inr sp \<longleftrightarrow>
     (\<exists>loaded. LoadFlowSpec ld path = Inr loaded \<and> sp = normalized sq ss loaded \<and> valid_spec sp)"
  by (auto simp: load_valid_def Normalize_Some Validate_iff [symmetric] split: sum.splits option.splits)

section \<open>Properties\<close>

text \<open>The key itself, as a user may write it: with white space around it, and with or without \<^verbatim>\<open>Bearer\<close> in front.\<close>

definition bare_key :: "string \<Rightarrow> string" where
  "bare_key k = (let key = TrimSpace k in if HasPrefix (ToLower key) ''bearer '' then TrimSpace (drop 7 key) else key)"

lemma formatBearerToken_bare: "TrimSpace k \<noteq> '''' \<Longrightarrow> parseBearerToken (formatBearerToken k) = bare_key k"
proof (cases "HasPrefix (ToLower (TrimSpace k)) ''bearer ''")
  case True
  assume "TrimSpace k \<noteq> ''''"
  with True show ?thesis
    by (simp add: formatBearerToken_def parseBearerToken_def bare_key_def bearerPrefix_def Let_def TrimSpace_idem eval_nat_numeral)
next
  case False
  assume "TrimSpace k \<noteq> ''''"
  with False show ?thesis using formatBearerToken_parsed [OF refl, of k] by (simp add: bare_key_def bearerPrefix_def Let_def)
qed

lemma bare_key_trimmed: "TrimSpace (bare_key k) = bare_key k"
  by (simp add: bare_key_def Let_def TrimSpace_idem)

lemma bare_key_empty: "TrimSpace k = '''' \<Longrightarrow> bare_key k = ''''"
  by (simp add: bare_key_def Let_def HasPrefix_def)

text \<open>
  C30: which keys of the tool the server accepts, when authentication is on. A call of the tool reaches the service exactly when the tool
  has a key and that key, without surrounding white space and without a leading \<^verbatim>\<open>Bearer\<close>, is the key of the server; otherwise the call
  is refused as unauthenticated, says whether the key was missing or wrong, and changes nothing. So a server whose key has surrounding
  white space refuses every call of the tool, whatever its key.
\<close>

theorem cli_key_accepted:
  assumes "AuthEnabled cfg" "dialAPI net fl addr = Inr cn"
    "\<And>md. nw_call net addr md = apiKeyUnaryInterceptor cfg md handler"
  shows "client_call net cn req w =
      (if bare_key (cf_apiKey fl) = '''' then (Inl (Unauthenticated ''missing api key''), w)
       else if bare_key (cf_apiKey fl) \<noteq> APIKey cfg then (Inl (Unauthenticated ''invalid api key''), w)
       else handler req w)
    \<and> (TrimSpace (APIKey cfg) \<noteq> APIKey cfg \<longrightarrow> (\<exists>t. client_call net cn req w = (Inl (Unauthenticated t), w)))"
proof -
  note cn = dialAPI_conn [OF assms(2)]
  have call: "client_call net cn req w = apiKeyUnaryInterceptor cfg
      (if TrimSpace (cf_apiKey fl) = '''' then [] else [(''authorization'', [formatBearerToken (cf_apiKey fl)])]) handler req w"
    using cn assms(3) by (simp add: client_call_def)
  have eq: "client_call net cn req w =
      (if bare_key (cf_apiKey fl) = '''' then (Inl (Unauthenticated ''missing api key''), w)
       else if bare_key (cf_apiKey fl) \<noteq> APIKey cfg then (Inl (Unauthenticated ''invalid api key''), w)
       else handler req w)"
  proof (cases "TrimSpace (cf_apiKey fl) = ''''")
    case True
    then show ?thesis unfolding call by (simp add: apiKeyUnaryInterceptor_def md_Get_def assms(1) bare_key_empty)
  next
    case False
    then show ?thesis unfolding call
      by (simp add: apiKeyUnaryInterceptor_def md_Get_def assms(1) Let_def formatBearerToken_bare [OF False])
  qed
  then show ?thesis using bare_key_trimmed [of "cf_apiKey fl"] by auto
qed

definition cli_key :: "string \<Rightarrow> cli_flags" where
  "cli_key k = \<lparr>cf_apiKey = k, cf_grpcTLSEnabled = False, cf_grpcTLSCertFile = '''', cf_grpcTLSServerName = ''''\<rparr>"

definition direct_net :: "Config \<Rightarrow> 'w unary_handler \<Rightarrow> 'w network" where
  "direct_net cfg handler = \<lparr>nw_clientTLS = (\<lambda>_ _. None), nw_dial = (\<lambda>_ _. None),
     nw_call = (\<lambda>addr md. apiKeyUnaryInterceptor cfg md handler)\<rparr>"

theorem cli_key_accepted_witness:
  "\<exists>cn. dialAPI (direct_net auth_cfg (handle_rpc mem_store)) (cli_key '' bearer k1 '') ''a:1'' = Inr cn
     \<and> client_call (direct_net auth_cfg (handle_rpc mem_store)) cn RpcListFlows mem0 = handle_rpc mem_store RpcListFlows mem0"
proof -
  let ?net = "direct_net auth_cfg (handle_rpc mem_store)"
  have k: "APIKey auth_cfg = ''k1''" "AuthEnabled auth_cfg" by (simp_all add: auth_cfg_def)
  have t: "bare_key '' bearer k1 '' = ''k1''" by code_simp
  obtain cn where d: "dialAPI ?net (cli_key '' bearer k1 '') ''a:1'' = Inr cn"
    by (simp add: dialAPI_def direct_net_def cli_key_def)
  have "nw_call ?net ''a:1'' md = apiKeyUnaryInterceptor auth_cfg md (handle_rpc mem_store)" for md
    by (simp add: direct_net_def)
  from cli_key_accepted [OF k(2) d this, of RpcListFlows mem0] d show ?thesis by (simp add: k t cli_key_def)
qed

text \<open>
  C28: the tool sends valid flows only, and at most once. On every outcome of \<^verbatim>\<open>submit\<close> either nothing was sent
  and the command failed, or exactly one \<^verbatim>\<open>CreateFlow\<close> call was made, with what \<^verbatim>\<open>Normalize\<close> makes of the loaded flow; that form is
  valid, and it is the loaded flow with its stages and queues sorted by name and capacity 128 in the queues that had
  none; and the command succeeds exactly when the call does.
\<close>

theorem submit_sends_valid_flow:
  assumes "is_sort q_Name sq" "is_sort st_Name ss" "submitCmd net fl ld sq ss addr path w = ((e, out), w')"
  shows "w' = w \<and> e \<noteq> None \<and> out = []
    \<or> (\<exists>loaded sp cn r. LoadFlowSpec ld path = Inr loaded \<and> dialAPI net fl addr = Inr cn
        \<and> client_call net cn (RpcCreateFlow \<lparr>cfr_Spec = Some sp\<rparr>) w = (r, w')
        \<and> valid_spec sp \<and> fst (Normalize sq ss (Some loaded)) = Some sp
        \<and> sp = loaded\<lparr>fs_Queues := fs_Queues sp, fs_Stages := fs_Stages sp\<rparr>
        \<and> sorted (map q_Name (fs_Queues sp)) \<and> sorted (map st_Name (fs_Stages sp))
        \<and> mset (fs_Stages sp) = mset (fs_Stages loaded)
        \<and> mset (fs_Queues sp) = image_mset (\<lambda>q. if q_Capacity q = 0 then q\<lparr>q_Capacity := 128\<rparr> else q) (mset (fs_Queues loaded))
        \<and> (\<forall>q\<in>set (fs_Queues sp). 0 < q_Capacity q)
        \<and> (e = None \<longleftrightarrow> \<not> isl r))"
proof (cases "load_valid ld sq ss path")
  case (Inl x)
  with assms(3) show ?thesis by (auto simp: submitCmd_def)
next
  case (Inr sp)
  then obtain loaded where l: "LoadFlowSpec ld path = Inr loaded" "sp = normalized sq ss loaded" "valid_spec sp"
    by (auto simp: load_valid_iff)
  have pos: "0 < q_Capacity (default_capacity q)" for q
    using default_capacity_simps(3) [of q] word_neq_0_conv by blast
  have cap: "(\<lambda>q. if q_Capacity q = 0 then q\<lparr>q_Capacity := 128\<rparr> else q) = default_capacity"
    by (simp add: fun_eq_iff default_capacity_def)
  have n: "sorted (map q_Name (fs_Queues sp))" "sorted (map st_Name (fs_Stages sp))"
    "mset (fs_Stages sp) = mset (fs_Stages loaded)" "\<forall>q\<in>set (fs_Queues sp). 0 < q_Capacity q"
    "mset (fs_Queues sp) = image_mset (\<lambda>q. if q_Capacity q = 0 then q\<lparr>q_Capacity := 128\<rparr> else q) (mset (fs_Queues loaded))"
    "fst (Normalize sq ss (Some loaded)) = Some sp" "sp = loaded\<lparr>fs_Queues := fs_Queues sp, fs_Stages := fs_Stages sp\<rparr>"
    unfolding cap using is_sortD [OF assms(1)] is_sortD [OF assms(2)] l(2) by (auto simp: comp_def pos Normalize_Some)
  show ?thesis
  proof (cases "dialAPI net fl addr")
    case (Inl x)
    with assms(3) Inr show ?thesis by (auto simp: submitCmd_def)
  next
    case dial: (Inr cn)
    obtain r w1 where c: "client_call net cn (RpcCreateFlow \<lparr>cfr_Spec = Some sp\<rparr>) w = (r, w1)" by fastforce
    have "w' = w1 \<and> (e = None \<longleftrightarrow> \<not> isl r)"
      using assms(3) Inr dial c by (cases r) (auto simp: submitCmd_def)
    with l n dial c show ?thesis by blast
  qed
qed

definition file_loader :: "FlowSpec \<Rightarrow> unit loader" where
  "file_loader sp = \<lparr>ld_ReadFile = (\<lambda>_. Inr ''''), ld_yaml = (\<lambda>_. Inr ()), ld_json = (\<lambda>_. Inr ''''), ld_protojson = (\<lambda>_. Inr sp)\<rparr>"

theorem submit_sends_valid_flow_witness:
  "\<exists>w' cn sp r. submitCmd (direct_net auth_cfg (handle_rpc mem_store)) (cli_key ''k1'') (file_loader demo_spec)
       (sort_key q_Name) (sort_key st_Name) ''a:1'' ''f.yaml'' mem0 = ((None, [SubmittedTo ''f'' ''a:1'']), w')
     \<and> client_call (direct_net auth_cfg (handle_rpc mem_store)) cn (RpcCreateFlow \<lparr>cfr_Spec = Some sp\<rparr>) mem0 = (r, w')
     \<and> valid_spec sp \<and> \<not> isl r"
proof -
  let ?net = "direct_net auth_cfg (handle_rpc mem_store)"
  have e: "fst (submitCmd ?net (cli_key ''k1'') (file_loader demo_spec) (sort_key q_Name) (sort_key st_Name) ''a:1'' ''f.yaml'' mem0)
      = (None, [SubmittedTo ''f'' ''a:1''])" by code_simp
  then obtain w' where r: "submitCmd ?net (cli_key ''k1'') (file_loader demo_spec) (sort_key q_Name) (sort_key st_Name)
      ''a:1'' ''f.yaml'' mem0 = ((None, [SubmittedTo ''f'' ''a:1'']), w')" by (metis prod.collapse)
  from submit_sends_valid_flow [OF is_sort_sort_key is_sort_sort_key r] r show ?thesis by blast
qed

end
