(* ===== verification/Cli_Tool.thy ===== *)
theory Cli_Tool
  imports Cli
begin

text \<open>
  The tool as a program: the tree of its commands with their flags, defaults and arities (the \<^verbatim>\<open>init\<close> functions and the command variables
  of \<^verbatim>\<open>cli/cmd/flowctl\<close>), \<^verbatim>\<open>Execute\<close> and \<^verbatim>\<open>main\<close>. The library that parses a command line against such a tree, cobra, is not part of the
  repository: it is a parameter, and the locale \<open>cobra\<close> states what it documents. A small parser interprets it.
\<close>

section \<open>Commands and flags\<close>

datatype pflag_value = PString string | PBool bool | PDuration int | PUint64 u64

fun same_type :: "pflag_value \<Rightarrow> pflag_value \<Rightarrow> bool" where
  "same_type (PString _) (PString _) = True"
| "same_type (PBool _) (PBool _) = True"
| "same_type (PDuration _) (PDuration _) = True"
| "same_type (PUint64 _) (PUint64 _) = True"
| "same_type _ _ = False"

record pflag =
  pf_name :: string
  pf_short :: string
  pf_default :: pflag_value

definition flag_var :: "string \<Rightarrow> pflag_value \<Rightarrow> pflag" where
  "flag_var name value = \<lparr>pf_name = name, pf_short = '''', pf_default = value\<rparr>"

datatype cobra_args = NoArgs | ExactArgs nat | DefaultArgs

fun args_ok :: "cobra_args \<Rightarrow> string list \<Rightarrow> bool" where
  "args_ok NoArgs as = (as = [])"
| "args_ok (ExactArgs n) as = (length as = n)"
| "args_ok DefaultArgs as = True"

text \<open>Which \<^verbatim>\<open>RunE\<close> function a command has.\<close>

datatype action =
    DoGet | DoList | DoRollback | DoRun | DoSchemaCreate | DoSchemaGet | DoSchemaList | DoSchemaDelete
  | DoStatus | DoStop | DoSubmit | DoUpdate | DoValidate

datatype command =
  Command (cm_Use: string) (cm_Aliases: "string list") (cm_Args: cobra_args) (cm_RunE: "action option")
    (cm_Flags: "pflag list") (cm_PersistentFlags: "pflag list") (cm_Required: "string list") (cm_Commands: "command list")

definition leaf :: "string \<Rightarrow> string list \<Rightarrow> cobra_args \<Rightarrow> action \<Rightarrow> pflag list \<Rightarrow> string list \<Rightarrow> command" where
  "leaf use aliases as act flags required = Command use aliases as (Some act) flags [] required []"

definition get_flags :: "pflag list" where
  "get_flags = [flag_var ''api'' (PString ''localhost:9090''), flag_var ''timeout'' (PDuration (5 * Second))]"

definition list_flags :: "pflag list" where
  "list_flags = [flag_var ''api'' (PString ''localhost:9090''), flag_var ''timeout'' (PDuration (5 * Second))]"

definition rollback_flags :: "pflag list" where
  "rollback_flags = [flag_var ''api'' (PString ''localhost:9090''), flag_var ''timeout'' (PDuration (5 * Second)),
     flag_var ''version'' (PUint64 0)]"

definition status_flags :: "pflag list" where
  "status_flags = [flag_var ''api'' (PString ''localhost:9090''), flag_var ''timeout'' (PDuration (5 * Second))]"

definition stop_flags :: "pflag list" where
  "stop_flags = [flag_var ''api'' (PString ''localhost:9090''), flag_var ''timeout'' (PDuration (5 * Second))]"

definition submit_flags :: "pflag list" where
  "submit_flags = [flag_var ''api'' (PString ''localhost:9090''), flag_var ''timeout'' (PDuration (5 * Second))]"

definition update_flags :: "pflag list" where
  "update_flags = [flag_var ''api'' (PString ''localhost:9090''), flag_var ''timeout'' (PDuration (5 * Second)),
     flag_var ''name'' (PString '''')]"

text \<open>One definition per command variable: its use line, aliases, arity, \<^verbatim>\<open>RunE\<close> function and flags.\<close>

definition get_command :: command where
  "get_command = leaf ''get <flow-name>'' [] (ExactArgs 1) DoGet get_flags []"

definition list_command :: command where
  "list_command = leaf ''list'' [] NoArgs DoList list_flags []"

definition rollback_command :: command where
  "rollback_command = leaf ''rollback <flow-name>'' [] (ExactArgs 1) DoRollback rollback_flags []"

definition run_command :: command where
  "run_command = leaf ''run <flow.yaml>'' [] (ExactArgs 1) DoRun [] []"

definition status_command :: command where
  "status_command = leaf ''status <flow-name>'' [] (ExactArgs 1) DoStatus status_flags []"

definition stop_command :: command where
  "stop_command = leaf ''stop <flow-name>'' [''remove'', ''delete''] (ExactArgs 1) DoStop stop_flags []"

definition submit_command :: command where
  "submit_command = leaf ''submit <flow.yaml>'' [] (ExactArgs 1) DoSubmit submit_flags []"

definition update_command :: command where
  "update_command = leaf ''update <flow.yaml>'' [] (ExactArgs 1) DoUpdate update_flags []"

definition validate_command :: command where
  "validate_command = leaf ''validate <flow.yaml>'' [] (ExactArgs 1) DoValidate [] []"

definition schema_create_flags :: "pflag list" where
  "schema_create_flags = [flag_var ''api'' (PString ''localhost:9090''), flag_var ''timeout'' (PDuration (5 * Second)),
     flag_var ''format'' (PString ''''), flag_var ''schema-file'' (PString '''')]"

definition schema_get_flags :: "pflag list" where
  "schema_get_flags = [flag_var ''api'' (PString ''localhost:9090''), flag_var ''timeout'' (PDuration (5 * Second))]"

definition schema_list_flags :: "pflag list" where
  "schema_list_flags = [flag_var ''api'' (PString ''localhost:9090''), flag_var ''timeout'' (PDuration (5 * Second))]"

definition schema_delete_flags :: "pflag list" where
  "schema_delete_flags = [flag_var ''api'' (PString ''localhost:9090''), flag_var ''timeout'' (PDuration (5 * Second))]"

definition schema_create_command :: command where
  "schema_create_command = leaf ''create <schema-id>'' [] (ExactArgs 1) DoSchemaCreate schema_create_flags [''format'', ''schema-file'']"

definition schema_get_command :: command where
  "schema_get_command = leaf ''get <schema-id> <version>'' [] (ExactArgs 2) DoSchemaGet schema_get_flags []"

definition schema_list_command :: command where
  "schema_list_command = leaf ''list <schema-id>'' [] (ExactArgs 1) DoSchemaList schema_list_flags []"

definition schema_delete_command :: command where
  "schema_delete_command = leaf ''delete <schema-id>'' [] (ExactArgs 1) DoSchemaDelete schema_delete_flags []"

definition schemaCmd :: command where
  "schemaCmd = Command ''schema'' [] DefaultArgs None [] [] []
     [schema_create_command, schema_get_command, schema_list_command, schema_delete_command]"

definition persistent_flags :: "environ \<Rightarrow> pflag list" where
  "persistent_flags env =
     [flag_var ''api'' (PString ''''),
      flag_var ''api-key'' (PString (Getenv env ''FLOW_API_KEY'')),
      flag_var ''grpc-tls-enabled'' (PBool (envBoolDefault env ''FLOW_GRPC_TLS_ENABLED'' False)),
      flag_var ''grpc-tls-cert'' (PString (Getenv env ''FLOW_GRPC_TLS_CERT'')),
      flag_var ''grpc-tls-server-name'' (PString (Getenv env ''FLOW_GRPC_TLS_SERVER_NAME'')),
      flag_var ''namespace'' (PString ''default''),
      \<lparr>pf_name = ''verbose'', pf_short = ''v'', pf_default = PBool False\<rparr>]"

definition rootCmd :: "environ \<Rightarrow> command" where
  "rootCmd env = Command ''flowctl'' [] DefaultArgs None [] (persistent_flags env) []
     [get_command, list_command, rollback_command, run_command, schemaCmd, status_command, stop_command, submit_command,
      update_command, validate_command]"

lemmas command_defs = get_command_def list_command_def rollback_command_def run_command_def status_command_def stop_command_def
  submit_command_def update_command_def validate_command_def schema_create_command_def schema_get_command_def
  schema_list_command_def schema_delete_command_def schema_create_flags_def schema_get_flags_def schema_list_flags_def
  schema_delete_flags_def leaf_def

section \<open>The parser of the command line\<close>

text \<open>
  What a parse ends in: an error, the help text (of a command that cannot run by itself, or on request), or a command with the values of
  its flags and its positional arguments.
\<close>

type_synonym flag_values = "string \<Rightarrow> pflag_value option"

datatype cobra_result = CobraError string | CobraHelp | CobraRun action flag_values "string list"

type_synonym parser = "command \<Rightarrow> string list \<Rightarrow> cobra_result"

text \<open>
  The commands that can run, each with its path, its arity, the flags that can be given to it and those that must be. A
  flag of a command hides a persistent flag of the same name of the commands above it.
\<close>

definition hide :: "pflag list \<Rightarrow> pflag list \<Rightarrow> pflag list" where
  "hide own inherited = own @ filter (\<lambda>f. pf_name f \<notin> pf_name ` set own) inherited"

definition cm_Name :: "string \<Rightarrow> string" where
  "cm_Name use = takeWhile (\<lambda>x. x \<noteq> CHR '' '') use"

record runnable =
  rn_path :: "string list"
  rn_action :: action
  rn_args :: cobra_args
  rn_flags :: "pflag list"
  rn_required :: "string list"

fun runnables :: "string list \<Rightarrow> pflag list \<Rightarrow> command \<Rightarrow> runnable list" where
  "runnables path inherited (Command use aliases as run flags pflags required cs) =
     (case run of None \<Rightarrow> []
      | Some act \<Rightarrow> [\<lparr>rn_path = path, rn_action = act, rn_args = as, rn_flags = hide (flags @ pflags) inherited, rn_required = required\<rparr>])
     @ concat (map (\<lambda>c. runnables (path @ [cm_Name (cm_Use c)]) (hide pflags inherited) c) cs)"

definition mentioned :: "string \<Rightarrow> string list \<Rightarrow> bool" where
  "mentioned name args \<longleftrightarrow> (\<exists>x\<in>set args. x = ''--'' @ name \<or> prefix (''--'' @ name @ ''='') x)"

locale cobra =
  fixes parse :: parser
  assumes run_law: "parse root args = CobraRun act vals as \<Longrightarrow>
    \<exists>r\<in>set (runnables [] [] root). rn_action r = act \<and> args_ok (rn_args r) as \<and> (\<forall>name\<in>set (rn_required r). mentioned name args)
      \<and> (distinct (map pf_name (rn_flags r)) \<longrightarrow>
          (\<forall>f\<in>set (rn_flags r). \<exists>v. vals (pf_name f) = Some v \<and> same_type v (pf_default f)
             \<and> (pf_short f = '''' \<and> \<not> mentioned (pf_name f) args \<longrightarrow> v = pf_default f)))"

section \<open>Running the tool\<close>

text \<open>
  What the tool finds around it: the network under a deadline, files and decoders, the sorts of the run, the encoder of responses, the
  standard input and the execution of the local runtime.
\<close>

record ('y, 'w) tool =
  tl_net :: "int \<Rightarrow> 'w network"
  tl_loader :: "'y loader"
  tl_sq :: "QueueSpec list \<Rightarrow> QueueSpec list"
  tl_ss :: "StageSpec list \<Rightarrow> StageSpec list"
  tl_enc :: "rpc_response \<Rightarrow> string + string"
  tl_stdin :: "string + string"
  tl_exe :: "string \<Rightarrow> string \<Rightarrow> 'w \<Rightarrow> string option \<times> 'w"

definition string_flag :: "flag_values \<Rightarrow> string \<Rightarrow> string" where
  "string_flag vals n = (case vals n of Some (PString s) \<Rightarrow> s | _ \<Rightarrow> '''')"

definition bool_flag :: "flag_values \<Rightarrow> string \<Rightarrow> bool" where
  "bool_flag vals n = (case vals n of Some (PBool b) \<Rightarrow> b | _ \<Rightarrow> False)"

definition duration_flag :: "flag_values \<Rightarrow> string \<Rightarrow> int" where
  "duration_flag vals n = (case vals n of Some (PDuration d) \<Rightarrow> d | _ \<Rightarrow> 0)"

definition uint64_flag :: "flag_values \<Rightarrow> string \<Rightarrow> u64" where
  "uint64_flag vals n = (case vals n of Some (PUint64 v) \<Rightarrow> v | _ \<Rightarrow> 0)"

definition connection_flags :: "flag_values \<Rightarrow> cli_flags" where
  "connection_flags vals =
     \<lparr>cf_apiKey = string_flag vals ''api-key'', cf_grpcTLSEnabled = bool_flag vals ''grpc-tls-enabled'',
      cf_grpcTLSCertFile = string_flag vals ''grpc-tls-cert'', cf_grpcTLSServerName = string_flag vals ''grpc-tls-server-name''\<rparr>"

text \<open>\<open>None\<close> is a panic: an argument that is not there.\<close>

definition arg :: "string list \<Rightarrow> nat \<Rightarrow> string option" where
  "arg as i = (if i < length as then Some (as ! i) else None)"

text \<open>The function of a command on the values of its flags and its arguments.\<close>

definition run_action :: "('y, 'w) tool \<Rightarrow> action \<Rightarrow> flag_values \<Rightarrow> string list \<Rightarrow> 'w \<Rightarrow> 'w outcome option" where
  "run_action td act vals as w =
     (let net = tl_net td (duration_flag vals ''timeout''); addr = string_flag vals ''api''; fl = connection_flags vals
      in case act of
           DoGet \<Rightarrow> map_option (\<lambda>n. getCmd net fl (tl_enc td) addr n w) (arg as 0)
         | DoList \<Rightarrow> Some (listCmd net fl (tl_enc td) addr w)
         | DoRollback \<Rightarrow> map_option (\<lambda>n. rollbackCmd net fl (tl_enc td) addr (uint64_flag vals ''version'') n w) (arg as 0)
         | DoRun \<Rightarrow> map_option (\<lambda>p. runCmd (tl_loader td) (tl_sq td) (tl_ss td) (tl_exe td) p w) (arg as 0)
         | DoSchemaCreate \<Rightarrow> map_option (\<lambda>i. schemaCreateCmd net fl (tl_enc td) (tl_loader td) (tl_stdin td) addr
              (string_flag vals ''format'') (string_flag vals ''schema-file'') i w) (arg as 0)
         | DoSchemaGet \<Rightarrow> Option.bind (arg as 0) (\<lambda>i. map_option (\<lambda>v. schemaGetCmd net fl (tl_enc td) addr i v w) (arg as 1))
         | DoSchemaList \<Rightarrow> map_option (\<lambda>i. schemaListCmd net fl (tl_enc td) addr i w) (arg as 0)
         | DoSchemaDelete \<Rightarrow> map_option (\<lambda>i. schemaDeleteCmd net fl (tl_enc td) addr i w) (arg as 0)
         | DoStatus \<Rightarrow> map_option (\<lambda>n. statusCmd net fl (tl_enc td) addr n w) (arg as 0)
         | DoStop \<Rightarrow> map_option (\<lambda>n. stopCmd net fl addr n w) (arg as 0)
         | DoSubmit \<Rightarrow> map_option (\<lambda>p. submitCmd net fl (tl_loader td) (tl_sq td) (tl_ss td) addr p w) (arg as 0)
         | DoUpdate \<Rightarrow> map_option (\<lambda>p. updateCmd net fl (tl_loader td) (tl_sq td) (tl_ss td) addr (string_flag vals ''name'') p w) (arg as 0)
         | DoValidate \<Rightarrow> map_option (\<lambda>p. (validateCmd (tl_loader td) (tl_sq td) (tl_ss td) p, w)) (arg as 0))"

datatype tool_error = UsageError string | CommandError cli_error

definition Execute ::
  "parser \<Rightarrow> environ \<Rightarrow> ('y, 'w) tool \<Rightarrow> string list \<Rightarrow> 'w \<Rightarrow> ((tool_error option \<times> cli_output list) \<times> 'w) option" where
  "Execute parse env td args w =
     (case parse (rootCmd env) args of
        CobraError e \<Rightarrow> Some ((Some (UsageError e), []), w)
      | CobraHelp \<Rightarrow> Some ((None, []), w)
      | CobraRun act vals as \<Rightarrow>
          map_option (\<lambda>((e, out), w'). ((map_option CommandError e, out), w')) (run_action td act vals as w))"

text \<open>The exit code and the world after it; a panic ends a Go program with code 2.\<close>

definition tool_main :: "parser \<Rightarrow> environ \<Rightarrow> ('y, 'w) tool \<Rightarrow> string list \<Rightarrow> 'w \<Rightarrow> (nat \<times> cli_output list) \<times> 'w" where
  "tool_main parse env td args w =
     (case Execute parse env td args w of
        None \<Rightarrow> ((2, []), w)
      | Some ((Some e, out), w') \<Rightarrow> ((1, out), w')
      | Some ((None, out), w') \<Rightarrow> ((0, out), w'))"

definition debugf :: "bool \<Rightarrow> string \<Rightarrow> string list" where
  "debugf verbose line = (if verbose then [line @ [CHR 0x0A]] else [])"

text \<open>Whether the credentials insist on an encrypted connection.\<close>

definition RequireTransportSecurity :: "apiKeyCredentials \<Rightarrow> bool" where
  "RequireTransportSecurity c = cr_requireTransportSecurity c"

lemma dial_security:
  assumes "dialAPI net fl addr = Inr cn" "cn_creds cn = Some c"
  shows "RequireTransportSecurity c = cf_grpcTLSEnabled fl"
  using assms by (auto simp: dialAPI_def RequireTransportSecurity_def Let_def split: if_splits option.splits)

section \<open>The commands of the tool\<close>

definition uses_api :: "action \<Rightarrow> bool" where
  "uses_api act \<longleftrightarrow> act \<noteq> DoRun \<and> act \<noteq> DoValidate"

definition arity :: "action \<Rightarrow> nat" where
  "arity act = (case act of DoList \<Rightarrow> 0 | DoSchemaGet \<Rightarrow> 2 | _ \<Rightarrow> 1)"

lemma run_action_total: "length as = arity act \<Longrightarrow> \<exists>r. run_action td act vals as w = Some r"
  by (cases act) (auto simp: run_action_def arity_def arg_def Let_def)

lemma root_runnables:
  "r \<in> set (runnables [] [] (rootCmd env)) \<Longrightarrow>
     (\<forall>as. args_ok (rn_args r) as \<longrightarrow> length as = arity (rn_action r))
     \<and> distinct (map pf_name (rn_flags r))
     \<and> set (tl (persistent_flags env)) \<subseteq> set (rn_flags r)
     \<and> (uses_api (rn_action r) \<longrightarrow> set get_flags \<subseteq> set (rn_flags r))"
  unfolding rootCmd_def schemaCmd_def command_defs
  by (simp add: cm_Name_def, elim disjE;
      simp add: hide_def persistent_flags_def flag_var_def get_flags_def list_flags_def rollback_flags_def status_flags_def stop_flags_def
        submit_flags_def update_flags_def arity_def uses_api_def)

section \<open>A small parser\<close>

text \<open>Commands by their names without aliases, flags in the form \<^verbatim>\<open>--name=value\<close> after the command.\<close>

definition pflag_read :: "pflag_value \<Rightarrow> string \<Rightarrow> pflag_value option" where
  "pflag_read old s =
     (case old of
        PString _ \<Rightarrow> Some (PString s)
      | PBool _ \<Rightarrow> map_option PBool (ParseBool s)
      | PDuration _ \<Rightarrow> map_option PDuration (ParseDuration (\<lambda>_ _ _. 0) s)
      | PUint64 _ \<Rightarrow> map_option (\<lambda>n. PUint64 (of_nat n)) (ParseUint s 64))"

definition named_flag :: "pflag list \<Rightarrow> string \<Rightarrow> pflag option" where
  "named_flag fl n = find (\<lambda>f. pf_name f = n) fl"

definition opt_value :: "pflag list \<Rightarrow> string \<Rightarrow> (string \<times> pflag_value) option" where
  "opt_value fl x =
     (let name = takeWhile (\<lambda>c. c \<noteq> CHR ''='') (drop 2 x); rest = dropWhile (\<lambda>c. c \<noteq> CHR ''='') (drop 2 x)
      in if rest = [] then None
         else (case named_flag fl name of
                 None \<Rightarrow> None
               | Some f \<Rightarrow> map_option (Pair name) (pflag_read (pf_default f) (drop 1 rest))))"

fun opt_values :: "pflag list \<Rightarrow> string list \<Rightarrow> (string \<times> pflag_value) list option" where
  "opt_values fl [] = Some []"
| "opt_values fl (x # xs) =
     (case opt_value fl x of None \<Rightarrow> None | Some p \<Rightarrow> map_option (\<lambda>ps. ps @ [p]) (opt_values fl xs))"

definition mini_cmdline :: parser where
  "mini_cmdline root args =
     (case find (\<lambda>r. take (length (rn_path r)) args = rn_path r) (runnables [] [] root) of
        None \<Rightarrow> CobraHelp
      | Some r \<Rightarrow>
          (let words = drop (length (rn_path r)) args; as = filter (\<lambda>x. \<not> prefix ''--'' x) words
           in case opt_values (rn_flags r) (filter (prefix ''--'') words) of
                None \<Rightarrow> CobraError ''unknown flag''
              | Some given \<Rightarrow>
                  if \<not> args_ok (rn_args r) as then CobraError ''accepts other arguments''
                  else if \<not> list_all (\<lambda>n. mentioned n args) (rn_required r) then CobraError ''required flag(s) not set''
                  else CobraRun (rn_action r)
                    (\<lambda>n. case map_of given n of Some v \<Rightarrow> Some v | None \<Rightarrow> map_option pf_default (named_flag (rn_flags r) n)) as))"

lemma opt_values_given:
  assumes "opt_values fl xs = Some ps" "(n, v) \<in> set ps"
  shows "\<exists>x\<in>set xs. opt_value fl x = Some (n, v)"
  using assms by (induction xs arbitrary: ps) (auto split: option.splits)

lemma named_flag_distinct:
  assumes "distinct (map pf_name fl)" "f \<in> set fl"
  shows "named_flag fl (pf_name f) = Some f"
  using assms by (induction fl) (auto simp: named_flag_def)

lemma pflag_read_type: "pflag_read old s = Some v \<Longrightarrow> same_type v old"
  by (cases old) (auto simp: pflag_read_def)

lemma opt_value_mentions:
  assumes "opt_value fl x = Some (n, v)" "prefix ''--'' x"
  shows "prefix (''--'' @ n @ ''='') x \<and> (\<exists>f. named_flag fl n = Some f \<and> same_type v (pf_default f))"
proof -
  obtain y where x: "x = ''--'' @ y" using assms(2) by (auto simp: prefix_def)
  let ?r = "dropWhile (\<lambda>c. c \<noteq> CHR ''='') y"
  have o: "?r \<noteq> []" "n = takeWhile (\<lambda>c. c \<noteq> CHR ''='') y"
    "\<exists>f. named_flag fl n = Some f \<and> same_type v (pf_default f)"
    using assms(1) pflag_read_type by (auto simp: opt_value_def x Let_def split: if_splits option.splits)
  have "y = n @ ''='' @ tl ?r"
    using o(1,2) takeWhile_dropWhile_id [of "\<lambda>c. c \<noteq> CHR ''=''" y] hd_dropWhile [of "\<lambda>c. c \<noteq> CHR ''=''" y] by (cases ?r) auto
  then show ?thesis using o(3) x by (metis append.assoc prefixI)
qed

interpretation mini_cobra: cobra mini_cmdline
proof
  fix root args act vals as
  assume p: "mini_cmdline root args = CobraRun act vals as"
  obtain r where found: "find (\<lambda>r. take (length (rn_path r)) args = rn_path r) (runnables [] [] root) = Some r"
    using p by (auto simp: mini_cmdline_def split: option.splits)
  then have r: "r \<in> set (runnables [] [] root)" by (auto simp: find_Some_iff)
  obtain given where given: "opt_values (rn_flags r) (filter (prefix ''--'') (drop (length (rn_path r)) args)) = Some given"
    and ok: "rn_action r = act" "args_ok (rn_args r) as" "\<forall>name\<in>set (rn_required r). mentioned name args"
    and vals: "vals = (\<lambda>n. case map_of given n of Some v \<Rightarrow> Some v | None \<Rightarrow> map_option pf_default (named_flag (rn_flags r) n))"
    using p unfolding mini_cmdline_def found Let_def by (auto simp: list_all_iff split: option.splits if_splits)
  have "\<exists>v. vals (pf_name f) = Some v \<and> same_type v (pf_default f) \<and> (\<not> mentioned (pf_name f) args \<longrightarrow> v = pf_default f)"
    if f: "distinct (map pf_name (rn_flags r))" "f \<in> set (rn_flags r)" for f
  proof (cases "map_of given (pf_name f)")
    case None
    then show ?thesis using named_flag_distinct [OF f] by (cases "pf_default f") (auto simp: vals)
  next
    case (Some v)
    then obtain x where x: "x \<in> set args" "prefix ''--'' x" "opt_value (rn_flags r) x = Some (pf_name f, v)"
      using opt_values_given [OF given map_of_SomeD [OF Some]] by (auto dest: in_set_dropD)
    then have "mentioned (pf_name f) args" "same_type v (pf_default f)"
      using opt_value_mentions [OF x(3,2)] named_flag_distinct [OF f] by (auto simp: mentioned_def)
    then show ?thesis using Some by (simp add: vals)
  qed
  then show "\<exists>r\<in>set (runnables [] [] root). rn_action r = act \<and> args_ok (rn_args r) as \<and> (\<forall>name\<in>set (rn_required r). mentioned name args)
      \<and> (distinct (map pf_name (rn_flags r)) \<longrightarrow>
          (\<forall>f\<in>set (rn_flags r). \<exists>v. vals (pf_name f) = Some v \<and> same_type v (pf_default f)
             \<and> (pf_short f = '''' \<and> \<not> mentioned (pf_name f) args \<longrightarrow> v = pf_default f)))"
    using r ok by blast
qed

section \<open>Properties\<close>

context cobra
begin

lemma root_run:
  assumes "parse (rootCmd env) args = CobraRun act vals as"
  shows "length as = arity act"
    and "f \<in> set (tl (persistent_flags env)) \<Longrightarrow> pf_short f = '''' \<Longrightarrow> \<not> mentioned (pf_name f) args \<Longrightarrow> vals (pf_name f) = Some (pf_default f)"
    and "uses_api act \<Longrightarrow> f \<in> set get_flags \<Longrightarrow> \<not> mentioned (pf_name f) args \<Longrightarrow> vals (pf_name f) = Some (pf_default f)"
proof -
  obtain r where r: "r \<in> set (runnables [] [] (rootCmd env))" "rn_action r = act" "args_ok (rn_args r) as"
    and fl: "distinct (map pf_name (rn_flags r)) \<Longrightarrow>
          (\<forall>f\<in>set (rn_flags r). \<exists>v. vals (pf_name f) = Some v \<and> same_type v (pf_default f)
             \<and> (pf_short f = '''' \<and> \<not> mentioned (pf_name f) args \<longrightarrow> v = pf_default f))"
    using run_law [OF assms] by blast
  note c = root_runnables [OF r(1)]
  show "length as = arity act" using c r by simp
  show "vals (pf_name f) = Some (pf_default f)"
    if "f \<in> set (tl (persistent_flags env))" "pf_short f = ''''" "\<not> mentioned (pf_name f) args" using c fl that by blast
  show "vals (pf_name f) = Some (pf_default f)" if "uses_api act" "f \<in> set get_flags" "\<not> mentioned (pf_name f) args"
  proof -
    have "pf_short f = ''''" using that(2) by (auto simp: get_flags_def flag_var_def)
    then show ?thesis using c fl that r(2) by blast
  qed
qed

end

text \<open>
  C29: the tool handles every command line. It never panics; a command line that is refused or only asks for help changes nothing, and
  otherwise one command has run with its own flags. Exit code 0 means that there was no error. Where the command line does not
  give them, the address of the API is \<^verbatim>\<open>localhost:9090\<close>, the deadline five seconds, and the key and the TLS settings are
  those of the environment.
\<close>

theorem command_line_runs:
  assumes "cobra parse" "tool_main parse env td args w = ((code, out), w')"
  shows "(code = 0 \<or> code = 1)
    \<and> (w' = w \<and> out = [] \<and> (\<forall>act vals as. parse (rootCmd env) args \<noteq> CobraRun act vals as)
       \<or> (\<exists>act vals as e. parse (rootCmd env) args = CobraRun act vals as \<and> run_action td act vals as w = Some ((e, out), w')
            \<and> (code = 0 \<longleftrightarrow> e = None)
            \<and> (uses_api act \<and> \<not> mentioned ''api'' args \<longrightarrow> string_flag vals ''api'' = ''localhost:9090'')
            \<and> (uses_api act \<and> \<not> mentioned ''timeout'' args \<longrightarrow> duration_flag vals ''timeout'' = 5000000000)
            \<and> ((\<forall>n\<in>{''api-key'', ''grpc-tls-enabled'', ''grpc-tls-cert'', ''grpc-tls-server-name''}. \<not> mentioned n args)
                 \<longrightarrow> connection_flags vals = cli_flags_of env)))"
proof (cases "parse (rootCmd env) args")
  case (CobraRun act vals as)
  note r = cobra.root_run [OF assms(1) CobraRun]
  obtain e out1 w1 where a: "run_action td act vals as w = Some ((e, out1), w1)" using run_action_total [OF r(1), of td vals w] by auto
  have m: "code = (if e = None then 0 else 1)" "out1 = out" "w1 = w'"
    using assms(2) CobraRun a by (auto simp: tool_main_def Execute_def split: option.splits)
  have "string_flag vals ''api'' = ''localhost:9090''" if "uses_api act" "\<not> mentioned ''api'' args"
    using r(3) [of "flag_var ''api'' (PString ''localhost:9090'')"] that by (simp add: get_flags_def flag_var_def string_flag_def)
  moreover have "duration_flag vals ''timeout'' = 5000000000" if "uses_api act" "\<not> mentioned ''timeout'' args"
    using r(3) [of "flag_var ''timeout'' (PDuration (5 * Second))"] that
    by (simp add: get_flags_def flag_var_def duration_flag_def Second_def)
  moreover have "connection_flags vals = cli_flags_of env"
    if "\<forall>n\<in>{''api-key'', ''grpc-tls-enabled'', ''grpc-tls-cert'', ''grpc-tls-server-name''}. \<not> mentioned n args"
    using r(2) [of "persistent_flags env ! 1"] r(2) [of "persistent_flags env ! 2"] r(2) [of "persistent_flags env ! 3"]
      r(2) [of "persistent_flags env ! 4"] that
    by (simp add: persistent_flags_def flag_var_def connection_flags_def cli_flags_of_def string_flag_def bool_flag_def)
  ultimately show ?thesis using CobraRun a m by auto
qed (use assms(2) in \<open>auto simp: tool_main_def Execute_def\<close>)

definition demo_tool :: "(unit, etcd_mem) tool" where
  "demo_tool = \<lparr>tl_net = (\<lambda>_. direct_net auth_cfg (handle_rpc mem_store)), tl_loader = file_loader demo_spec, tl_sq = sort_key q_Name,
     tl_ss = sort_key st_Name, tl_enc = (\<lambda>_. Inr ''ok''), tl_stdin = Inr '''', tl_exe = (\<lambda>_ _ w. (None, w))\<rparr>"

theorem command_line_runs_witness:
  "\<exists>w' vals. tool_main mini_cmdline (\<lambda>_. None) demo_tool [''submit'', ''f.yaml'', ''--api-key=k1''] mem0 = ((0, [SubmittedTo ''f'' ''localhost:9090'']), w')
     \<and> mini_cmdline (rootCmd (\<lambda>_. None)) [''submit'', ''f.yaml'', ''--api-key=k1''] = CobraRun DoSubmit vals [''f.yaml'']
     \<and> string_flag vals ''api'' = ''localhost:9090'' \<and> duration_flag vals ''timeout'' = 5000000000"
proof -
  let ?args = "[''submit'', ''f.yaml'', ''--api-key=k1'']"
  have e: "fst (tool_main mini_cmdline (\<lambda>_. None) demo_tool ?args mem0) = (0, [SubmittedTo ''f'' ''localhost:9090''])" by code_simp
  have c: "(case mini_cmdline (rootCmd (\<lambda>_. None)) ?args of CobraRun act _ as \<Rightarrow> act = DoSubmit \<and> as = [''f.yaml''] | _ \<Rightarrow> False)" by code_simp
  obtain vals where p: "mini_cmdline (rootCmd (\<lambda>_. None)) ?args = CobraRun DoSubmit vals [''f.yaml'']" using c by (auto split: cobra_result.splits)
  obtain w' where m: "tool_main mini_cmdline (\<lambda>_. None) demo_tool ?args mem0 = ((0, [SubmittedTo ''f'' ''localhost:9090'']), w')"
    using e by (metis prod.collapse)
  have "\<not> mentioned ''api'' ?args" "\<not> mentioned ''timeout'' ?args" by code_simp+
  with command_line_runs [OF mini_cobra.cobra_axioms m] m p show ?thesis by (auto simp: uses_api_def)
qed

end
