(* ===== verification/Api_Gateway.thy ===== *)
theory Api_Gateway
  imports Api_Server
begin

text \<open>
  The HTTP gateway of the API (\<^verbatim>\<open>service.pb.gw.go\<close>): how a request becomes a call, for the handlers that call
  a server in the process and for the handlers that call a client, the URL patterns, and the routes that registering
  the two services adds to the multiplexer. The runtime library of the gateway is a parameter: decoding a
  body, converting path parameters, annotating a context, writing errors and responses, matching a pattern, and the
  multiplexer. The locale \<open>gateway\<close> states what it documents.
\<close>

section \<open>The runtime library\<close>

datatype 'a decoded = Decoded 'a | DecodeEOF | DecodeError string

type_synonym path_params = "(string \<times> string) list"

record gw_pattern =
  pt_ops :: "nat list"
  pt_pool :: "string list"
  pt_verb :: string

record gw_runtime =
  rt_decodeSpec :: "string \<Rightarrow> FlowSpec decoded"
  rt_decodeSchema :: "string \<Rightarrow> SchemaDefinition decoded"
  rt_String :: "string \<Rightarrow> string + string"
  rt_Uint64 :: "string \<Rightarrow> string + u64"
  rt_Uint32 :: "string \<Rightarrow> string + u32"
  rt_annotate :: "http_request \<Rightarrow> string \<Rightarrow> string \<Rightarrow> rpc_error + metadata"
  rt_HTTPError :: "rpc_error \<Rightarrow> http_write list"
  rt_Forward :: "rpc_response \<Rightarrow> http_write list"
  rt_components :: "string \<Rightarrow> string list"
  rt_match :: "gw_pattern \<Rightarrow> string list \<Rightarrow> path_params option"
  rt_NotFound :: "http_request \<Rightarrow> http_write list"
  rt_MethodNotAllowed :: "http_request \<Rightarrow> http_write list"
  rt_plain :: "http_request \<Rightarrow> bool"

section \<open>Requests\<close>

text \<open>
  The two blocks every request function is made of: decoding the body into a field (the end of the input
  leaves the field nil), and converting a path parameter.
\<close>

definition decode_body :: "(string \<Rightarrow> 'a decoded) \<Rightarrow> http_request \<Rightarrow> rpc_error + 'a option" where
  "decode_body dec req =
     (case dec (hr_Body req) of
        Decoded x \<Rightarrow> Inr (Some x)
      | DecodeEOF \<Rightarrow> Inr None
      | DecodeError err \<Rightarrow> Inl (InvalidArgument err))"

definition path_param :: "(string \<Rightarrow> string + 'a) \<Rightarrow> path_params \<Rightarrow> string \<Rightarrow> rpc_error + 'a" where
  "path_param conv pathParams name =
     (case map_of pathParams name of
        None \<Rightarrow> Inl (InvalidArgument (''missing parameter '' @ name))
      | Some val \<Rightarrow>
          (case conv val of
             Inl err \<Rightarrow> Inl (InvalidArgument (''type mismatch, parameter: '' @ name @ '', error: '' @ err))
           | Inr v \<Rightarrow> Inr v))"

subsection \<open>Through a client\<close>

definition request_FlowService_CreateFlow_0 ::
  "gw_runtime \<Rightarrow> 'w unary_handler \<Rightarrow> http_request \<Rightarrow> path_params \<Rightarrow> 'w \<Rightarrow> (rpc_error + rpc_response) \<times> 'w" where
  "request_FlowService_CreateFlow_0 rt client req pathParams w =
     (case decode_body (rt_decodeSpec rt) req of
        Inl err \<Rightarrow> (Inl err, w)
      | Inr spec \<Rightarrow>
        client (RpcCreateFlow \<lparr>cfr_Spec = spec\<rparr>) w)"

definition request_FlowService_UpdateFlow_0 ::
  "gw_runtime \<Rightarrow> 'w unary_handler \<Rightarrow> http_request \<Rightarrow> path_params \<Rightarrow> 'w \<Rightarrow> (rpc_error + rpc_response) \<times> 'w" where
  "request_FlowService_UpdateFlow_0 rt client req pathParams w =
     (case decode_body (rt_decodeSpec rt) req of
        Inl err \<Rightarrow> (Inl err, w)
      | Inr spec \<Rightarrow>
     (case path_param (rt_String rt) pathParams ''name'' of
        Inl err \<Rightarrow> (Inl err, w)
      | Inr name \<Rightarrow>
        client (RpcUpdateFlow \<lparr>ufr_Name = name, ufr_Spec = spec\<rparr>) w))"

definition request_FlowService_DeleteFlow_0 ::
  "gw_runtime \<Rightarrow> 'w unary_handler \<Rightarrow> http_request \<Rightarrow> path_params \<Rightarrow> 'w \<Rightarrow> (rpc_error + rpc_response) \<times> 'w" where
  "request_FlowService_DeleteFlow_0 rt client req pathParams w =
     (case path_param (rt_String rt) pathParams ''name'' of
        Inl err \<Rightarrow> (Inl err, w)
      | Inr name \<Rightarrow>
        client (RpcDeleteFlow \<lparr>dfr_Name = name\<rparr>) w)"

definition request_FlowService_GetFlow_0 ::
  "gw_runtime \<Rightarrow> 'w unary_handler \<Rightarrow> http_request \<Rightarrow> path_params \<Rightarrow> 'w \<Rightarrow> (rpc_error + rpc_response) \<times> 'w" where
  "request_FlowService_GetFlow_0 rt client req pathParams w =
     (case path_param (rt_String rt) pathParams ''name'' of
        Inl err \<Rightarrow> (Inl err, w)
      | Inr name \<Rightarrow>
        client (RpcGetFlow \<lparr>gfr_Name = name\<rparr>) w)"

definition request_FlowService_ListFlows_0 ::
  "gw_runtime \<Rightarrow> 'w unary_handler \<Rightarrow> http_request \<Rightarrow> path_params \<Rightarrow> 'w \<Rightarrow> (rpc_error + rpc_response) \<times> 'w" where
  "request_FlowService_ListFlows_0 rt client req pathParams w =
        client (RpcListFlows) w"

definition request_FlowService_GetFlowStatus_0 ::
  "gw_runtime \<Rightarrow> 'w unary_handler \<Rightarrow> http_request \<Rightarrow> path_params \<Rightarrow> 'w \<Rightarrow> (rpc_error + rpc_response) \<times> 'w" where
  "request_FlowService_GetFlowStatus_0 rt client req pathParams w =
     (case path_param (rt_String rt) pathParams ''name'' of
        Inl err \<Rightarrow> (Inl err, w)
      | Inr name \<Rightarrow>
        client (RpcGetFlowStatus \<lparr>gsr_Name = name\<rparr>) w)"

definition request_FlowService_RollbackFlow_0 ::
  "gw_runtime \<Rightarrow> 'w unary_handler \<Rightarrow> http_request \<Rightarrow> path_params \<Rightarrow> 'w \<Rightarrow> (rpc_error + rpc_response) \<times> 'w" where
  "request_FlowService_RollbackFlow_0 rt client req pathParams w =
     (case path_param (rt_String rt) pathParams ''name'' of
        Inl err \<Rightarrow> (Inl err, w)
      | Inr name \<Rightarrow>
     (case path_param (rt_Uint64 rt) pathParams ''version'' of
        Inl err \<Rightarrow> (Inl err, w)
      | Inr version \<Rightarrow>
        client (RpcRollbackFlow \<lparr>rfr_Name = name, rfr_Version = version\<rparr>) w))"

definition request_SchemaRegistryService_CreateSchema_0 ::
  "gw_runtime \<Rightarrow> 'w unary_handler \<Rightarrow> http_request \<Rightarrow> path_params \<Rightarrow> 'w \<Rightarrow> (rpc_error + rpc_response) \<times> 'w" where
  "request_SchemaRegistryService_CreateSchema_0 rt client req pathParams w =
     (case decode_body (rt_decodeSchema rt) req of
        Inl err \<Rightarrow> (Inl err, w)
      | Inr schema \<Rightarrow>
        client (RpcCreateSchema \<lparr>csr_Schema = schema\<rparr>) w)"

definition request_SchemaRegistryService_GetSchema_0 ::
  "gw_runtime \<Rightarrow> 'w unary_handler \<Rightarrow> http_request \<Rightarrow> path_params \<Rightarrow> 'w \<Rightarrow> (rpc_error + rpc_response) \<times> 'w" where
  "request_SchemaRegistryService_GetSchema_0 rt client req pathParams w =
     (case path_param (rt_String rt) pathParams ''schema_id'' of
        Inl err \<Rightarrow> (Inl err, w)
      | Inr sid \<Rightarrow>
     (case path_param (rt_Uint32 rt) pathParams ''version'' of
        Inl err \<Rightarrow> (Inl err, w)
      | Inr version \<Rightarrow>
        client (RpcGetSchema \<lparr>gscr_SchemaId = sid, gscr_Version = version\<rparr>) w))"

definition request_SchemaRegistryService_ListSchemaVersions_0 ::
  "gw_runtime \<Rightarrow> 'w unary_handler \<Rightarrow> http_request \<Rightarrow> path_params \<Rightarrow> 'w \<Rightarrow> (rpc_error + rpc_response) \<times> 'w" where
  "request_SchemaRegistryService_ListSchemaVersions_0 rt client req pathParams w =
     (case path_param (rt_String rt) pathParams ''schema_id'' of
        Inl err \<Rightarrow> (Inl err, w)
      | Inr sid \<Rightarrow>
        client (RpcListSchemaVersions \<lparr>lsr_SchemaId = sid\<rparr>) w)"

definition request_SchemaRegistryService_DeleteSchema_0 ::
  "gw_runtime \<Rightarrow> 'w unary_handler \<Rightarrow> http_request \<Rightarrow> path_params \<Rightarrow> 'w \<Rightarrow> (rpc_error + rpc_response) \<times> 'w" where
  "request_SchemaRegistryService_DeleteSchema_0 rt client req pathParams w =
     (case path_param (rt_String rt) pathParams ''schema_id'' of
        Inl err \<Rightarrow> (Inl err, w)
      | Inr sid \<Rightarrow>
        client (RpcDeleteSchema \<lparr>dsr_SchemaId = sid\<rparr>) w)"

subsection \<open>Through a server in the process\<close>

definition local_request_FlowService_CreateFlow_0 ::
  "gw_runtime \<Rightarrow> 'w unary_handler \<Rightarrow> http_request \<Rightarrow> path_params \<Rightarrow> 'w \<Rightarrow> (rpc_error + rpc_response) \<times> 'w" where
  "local_request_FlowService_CreateFlow_0 rt server req pathParams w =
     (case decode_body (rt_decodeSpec rt) req of
        Inl err \<Rightarrow> (Inl err, w)
      | Inr spec \<Rightarrow>
        server (RpcCreateFlow \<lparr>cfr_Spec = spec\<rparr>) w)"

definition local_request_FlowService_UpdateFlow_0 ::
  "gw_runtime \<Rightarrow> 'w unary_handler \<Rightarrow> http_request \<Rightarrow> path_params \<Rightarrow> 'w \<Rightarrow> (rpc_error + rpc_response) \<times> 'w" where
  "local_request_FlowService_UpdateFlow_0 rt server req pathParams w =
     (case decode_body (rt_decodeSpec rt) req of
        Inl err \<Rightarrow> (Inl err, w)
      | Inr spec \<Rightarrow>
     (case path_param (rt_String rt) pathParams ''name'' of
        Inl err \<Rightarrow> (Inl err, w)
      | Inr name \<Rightarrow>
        server (RpcUpdateFlow \<lparr>ufr_Name = name, ufr_Spec = spec\<rparr>) w))"

definition local_request_FlowService_DeleteFlow_0 ::
  "gw_runtime \<Rightarrow> 'w unary_handler \<Rightarrow> http_request \<Rightarrow> path_params \<Rightarrow> 'w \<Rightarrow> (rpc_error + rpc_response) \<times> 'w" where
  "local_request_FlowService_DeleteFlow_0 rt server req pathParams w =
     (case path_param (rt_String rt) pathParams ''name'' of
        Inl err \<Rightarrow> (Inl err, w)
      | Inr name \<Rightarrow>
        server (RpcDeleteFlow \<lparr>dfr_Name = name\<rparr>) w)"

definition local_request_FlowService_GetFlow_0 ::
  "gw_runtime \<Rightarrow> 'w unary_handler \<Rightarrow> http_request \<Rightarrow> path_params \<Rightarrow> 'w \<Rightarrow> (rpc_error + rpc_response) \<times> 'w" where
  "local_request_FlowService_GetFlow_0 rt server req pathParams w =
     (case path_param (rt_String rt) pathParams ''name'' of
        Inl err \<Rightarrow> (Inl err, w)
      | Inr name \<Rightarrow>
        server (RpcGetFlow \<lparr>gfr_Name = name\<rparr>) w)"

definition local_request_FlowService_ListFlows_0 ::
  "gw_runtime \<Rightarrow> 'w unary_handler \<Rightarrow> http_request \<Rightarrow> path_params \<Rightarrow> 'w \<Rightarrow> (rpc_error + rpc_response) \<times> 'w" where
  "local_request_FlowService_ListFlows_0 rt server req pathParams w =
        server (RpcListFlows) w"

definition local_request_FlowService_GetFlowStatus_0 ::
  "gw_runtime \<Rightarrow> 'w unary_handler \<Rightarrow> http_request \<Rightarrow> path_params \<Rightarrow> 'w \<Rightarrow> (rpc_error + rpc_response) \<times> 'w" where
  "local_request_FlowService_GetFlowStatus_0 rt server req pathParams w =
     (case path_param (rt_String rt) pathParams ''name'' of
        Inl err \<Rightarrow> (Inl err, w)
      | Inr name \<Rightarrow>
        server (RpcGetFlowStatus \<lparr>gsr_Name = name\<rparr>) w)"

definition local_request_FlowService_RollbackFlow_0 ::
  "gw_runtime \<Rightarrow> 'w unary_handler \<Rightarrow> http_request \<Rightarrow> path_params \<Rightarrow> 'w \<Rightarrow> (rpc_error + rpc_response) \<times> 'w" where
  "local_request_FlowService_RollbackFlow_0 rt server req pathParams w =
     (case path_param (rt_String rt) pathParams ''name'' of
        Inl err \<Rightarrow> (Inl err, w)
      | Inr name \<Rightarrow>
     (case path_param (rt_Uint64 rt) pathParams ''version'' of
        Inl err \<Rightarrow> (Inl err, w)
      | Inr version \<Rightarrow>
        server (RpcRollbackFlow \<lparr>rfr_Name = name, rfr_Version = version\<rparr>) w))"

definition local_request_SchemaRegistryService_CreateSchema_0 ::
  "gw_runtime \<Rightarrow> 'w unary_handler \<Rightarrow> http_request \<Rightarrow> path_params \<Rightarrow> 'w \<Rightarrow> (rpc_error + rpc_response) \<times> 'w" where
  "local_request_SchemaRegistryService_CreateSchema_0 rt server req pathParams w =
     (case decode_body (rt_decodeSchema rt) req of
        Inl err \<Rightarrow> (Inl err, w)
      | Inr schema \<Rightarrow>
        server (RpcCreateSchema \<lparr>csr_Schema = schema\<rparr>) w)"

definition local_request_SchemaRegistryService_GetSchema_0 ::
  "gw_runtime \<Rightarrow> 'w unary_handler \<Rightarrow> http_request \<Rightarrow> path_params \<Rightarrow> 'w \<Rightarrow> (rpc_error + rpc_response) \<times> 'w" where
  "local_request_SchemaRegistryService_GetSchema_0 rt server req pathParams w =
     (case path_param (rt_String rt) pathParams ''schema_id'' of
        Inl err \<Rightarrow> (Inl err, w)
      | Inr sid \<Rightarrow>
     (case path_param (rt_Uint32 rt) pathParams ''version'' of
        Inl err \<Rightarrow> (Inl err, w)
      | Inr version \<Rightarrow>
        server (RpcGetSchema \<lparr>gscr_SchemaId = sid, gscr_Version = version\<rparr>) w))"

definition local_request_SchemaRegistryService_ListSchemaVersions_0 ::
  "gw_runtime \<Rightarrow> 'w unary_handler \<Rightarrow> http_request \<Rightarrow> path_params \<Rightarrow> 'w \<Rightarrow> (rpc_error + rpc_response) \<times> 'w" where
  "local_request_SchemaRegistryService_ListSchemaVersions_0 rt server req pathParams w =
     (case path_param (rt_String rt) pathParams ''schema_id'' of
        Inl err \<Rightarrow> (Inl err, w)
      | Inr sid \<Rightarrow>
        server (RpcListSchemaVersions \<lparr>lsr_SchemaId = sid\<rparr>) w)"

definition local_request_SchemaRegistryService_DeleteSchema_0 ::
  "gw_runtime \<Rightarrow> 'w unary_handler \<Rightarrow> http_request \<Rightarrow> path_params \<Rightarrow> 'w \<Rightarrow> (rpc_error + rpc_response) \<times> 'w" where
  "local_request_SchemaRegistryService_DeleteSchema_0 rt server req pathParams w =
     (case path_param (rt_String rt) pathParams ''schema_id'' of
        Inl err \<Rightarrow> (Inl err, w)
      | Inr sid \<Rightarrow>
        server (RpcDeleteSchema \<lparr>dsr_SchemaId = sid\<rparr>) w)"

section \<open>Patterns\<close>

definition pattern_FlowService_CreateFlow_0 :: gw_pattern where
  "pattern_FlowService_CreateFlow_0 = \<lparr>pt_ops = [2, 0, 2, 1],
     pt_pool = [''v1'', ''flows''], pt_verb = ''''\<rparr>"

definition pattern_FlowService_UpdateFlow_0 :: gw_pattern where
  "pattern_FlowService_UpdateFlow_0 = \<lparr>pt_ops = [2, 0, 2, 1, 1, 0, 4, 1, 5, 2],
     pt_pool = [''v1'', ''flows'', ''name''], pt_verb = ''''\<rparr>"

definition pattern_FlowService_DeleteFlow_0 :: gw_pattern where
  "pattern_FlowService_DeleteFlow_0 = \<lparr>pt_ops = [2, 0, 2, 1, 1, 0, 4, 1, 5, 2],
     pt_pool = [''v1'', ''flows'', ''name''], pt_verb = ''''\<rparr>"

definition pattern_FlowService_GetFlow_0 :: gw_pattern where
  "pattern_FlowService_GetFlow_0 = \<lparr>pt_ops = [2, 0, 2, 1, 1, 0, 4, 1, 5, 2],
     pt_pool = [''v1'', ''flows'', ''name''], pt_verb = ''''\<rparr>"

definition pattern_FlowService_ListFlows_0 :: gw_pattern where
  "pattern_FlowService_ListFlows_0 = \<lparr>pt_ops = [2, 0, 2, 1],
     pt_pool = [''v1'', ''flows''], pt_verb = ''''\<rparr>"

definition pattern_FlowService_GetFlowStatus_0 :: gw_pattern where
  "pattern_FlowService_GetFlowStatus_0 = \<lparr>pt_ops = [2, 0, 2, 1, 1, 0, 4, 1, 5, 2, 2, 3],
     pt_pool = [''v1'', ''flows'', ''name'', ''status''], pt_verb = ''''\<rparr>"

definition pattern_FlowService_RollbackFlow_0 :: gw_pattern where
  "pattern_FlowService_RollbackFlow_0 = \<lparr>pt_ops = [2, 0, 2, 1, 1, 0, 4, 1, 5, 2, 2, 3, 1, 0, 4, 1, 5, 4],
     pt_pool = [''v1'', ''flows'', ''name'', ''rollback'', ''version''], pt_verb = ''''\<rparr>"

definition pattern_SchemaRegistryService_CreateSchema_0 :: gw_pattern where
  "pattern_SchemaRegistryService_CreateSchema_0 = \<lparr>pt_ops = [2, 0, 2, 1],
     pt_pool = [''v1'', ''schemas''], pt_verb = ''''\<rparr>"

definition pattern_SchemaRegistryService_GetSchema_0 :: gw_pattern where
  "pattern_SchemaRegistryService_GetSchema_0 = \<lparr>pt_ops = [2, 0, 2, 1, 1, 0, 4, 1, 5, 2, 2, 3, 1, 0, 4, 1, 5, 4],
     pt_pool = [''v1'', ''schemas'', ''schema_id'', ''versions'', ''version''], pt_verb = ''''\<rparr>"

definition pattern_SchemaRegistryService_ListSchemaVersions_0 :: gw_pattern where
  "pattern_SchemaRegistryService_ListSchemaVersions_0 = \<lparr>pt_ops = [2, 0, 2, 1, 1, 0, 4, 1, 5, 2, 2, 3],
     pt_pool = [''v1'', ''schemas'', ''schema_id'', ''versions''], pt_verb = ''''\<rparr>"

definition pattern_SchemaRegistryService_DeleteSchema_0 :: gw_pattern where
  "pattern_SchemaRegistryService_DeleteSchema_0 = \<lparr>pt_ops = [2, 0, 2, 1, 1, 0, 4, 1, 5, 2],
     pt_pool = [''v1'', ''schemas'', ''schema_id''], pt_verb = ''''\<rparr>"

section \<open>Routes\<close>

text \<open>The handler of a route: annotate the context, make the call, write the error or forward the response.\<close>

definition gw_handle ::
  "gw_runtime \<Rightarrow> string \<Rightarrow> string \<Rightarrow> (metadata \<Rightarrow> http_request \<Rightarrow> path_params \<Rightarrow> 'w \<Rightarrow> (rpc_error + rpc_response) \<times> 'w)
     \<Rightarrow> http_request \<Rightarrow> path_params \<Rightarrow> 'w \<Rightarrow> http_write list \<times> 'w" where
  "gw_handle rt fullMethod template request req pathParams w =
     (case rt_annotate rt req fullMethod template of
        Inl err \<Rightarrow> (rt_HTTPError rt err, w)
      | Inr md \<Rightarrow>
          (case request md req pathParams w of
             (Inl err, w') \<Rightarrow> (rt_HTTPError rt err, w')
           | (Inr resp, w') \<Rightarrow> (rt_Forward rt resp, w')))"

record 'w route =
  ro_method :: string
  ro_pattern :: gw_pattern
  ro_handler :: "http_request \<Rightarrow> path_params \<Rightarrow> 'w \<Rightarrow> http_write list \<times> 'w"

definition RegisterFlowServiceHandlerServer :: "gw_runtime \<Rightarrow> (metadata \<Rightarrow> 'w unary_handler) \<Rightarrow> 'w route list" where
  "RegisterFlowServiceHandlerServer rt server =
     [\<lparr>ro_method = ''POST'', ro_pattern = pattern_FlowService_CreateFlow_0,
        ro_handler = gw_handle rt ''/flowpipe.v1.FlowService/CreateFlow'' ''/v1/flows''
          (\<lambda>md. local_request_FlowService_CreateFlow_0 rt (server md))\<rparr>,
      \<lparr>ro_method = ''PUT'', ro_pattern = pattern_FlowService_UpdateFlow_0,
        ro_handler = gw_handle rt ''/flowpipe.v1.FlowService/UpdateFlow'' ''/v1/flows/{name}''
          (\<lambda>md. local_request_FlowService_UpdateFlow_0 rt (server md))\<rparr>,
      \<lparr>ro_method = ''DELETE'', ro_pattern = pattern_FlowService_DeleteFlow_0,
        ro_handler = gw_handle rt ''/flowpipe.v1.FlowService/DeleteFlow'' ''/v1/flows/{name}''
          (\<lambda>md. local_request_FlowService_DeleteFlow_0 rt (server md))\<rparr>,
      \<lparr>ro_method = ''GET'', ro_pattern = pattern_FlowService_GetFlow_0,
        ro_handler = gw_handle rt ''/flowpipe.v1.FlowService/GetFlow'' ''/v1/flows/{name}''
          (\<lambda>md. local_request_FlowService_GetFlow_0 rt (server md))\<rparr>,
      \<lparr>ro_method = ''GET'', ro_pattern = pattern_FlowService_ListFlows_0,
        ro_handler = gw_handle rt ''/flowpipe.v1.FlowService/ListFlows'' ''/v1/flows''
          (\<lambda>md. local_request_FlowService_ListFlows_0 rt (server md))\<rparr>,
      \<lparr>ro_method = ''GET'', ro_pattern = pattern_FlowService_GetFlowStatus_0,
        ro_handler = gw_handle rt ''/flowpipe.v1.FlowService/GetFlowStatus'' ''/v1/flows/{name}/status''
          (\<lambda>md. local_request_FlowService_GetFlowStatus_0 rt (server md))\<rparr>,
      \<lparr>ro_method = ''POST'', ro_pattern = pattern_FlowService_RollbackFlow_0,
        ro_handler = gw_handle rt ''/flowpipe.v1.FlowService/RollbackFlow'' ''/v1/flows/{name}/rollback/{version}''
          (\<lambda>md. local_request_FlowService_RollbackFlow_0 rt (server md))\<rparr>]"

definition RegisterFlowServiceHandlerClient :: "gw_runtime \<Rightarrow> (metadata \<Rightarrow> 'w unary_handler) \<Rightarrow> 'w route list" where
  "RegisterFlowServiceHandlerClient rt client =
     [\<lparr>ro_method = ''POST'', ro_pattern = pattern_FlowService_CreateFlow_0,
        ro_handler = gw_handle rt ''/flowpipe.v1.FlowService/CreateFlow'' ''/v1/flows''
          (\<lambda>md. request_FlowService_CreateFlow_0 rt (client md))\<rparr>,
      \<lparr>ro_method = ''PUT'', ro_pattern = pattern_FlowService_UpdateFlow_0,
        ro_handler = gw_handle rt ''/flowpipe.v1.FlowService/UpdateFlow'' ''/v1/flows/{name}''
          (\<lambda>md. request_FlowService_UpdateFlow_0 rt (client md))\<rparr>,
      \<lparr>ro_method = ''DELETE'', ro_pattern = pattern_FlowService_DeleteFlow_0,
        ro_handler = gw_handle rt ''/flowpipe.v1.FlowService/DeleteFlow'' ''/v1/flows/{name}''
          (\<lambda>md. request_FlowService_DeleteFlow_0 rt (client md))\<rparr>,
      \<lparr>ro_method = ''GET'', ro_pattern = pattern_FlowService_GetFlow_0,
        ro_handler = gw_handle rt ''/flowpipe.v1.FlowService/GetFlow'' ''/v1/flows/{name}''
          (\<lambda>md. request_FlowService_GetFlow_0 rt (client md))\<rparr>,
      \<lparr>ro_method = ''GET'', ro_pattern = pattern_FlowService_ListFlows_0,
        ro_handler = gw_handle rt ''/flowpipe.v1.FlowService/ListFlows'' ''/v1/flows''
          (\<lambda>md. request_FlowService_ListFlows_0 rt (client md))\<rparr>,
      \<lparr>ro_method = ''GET'', ro_pattern = pattern_FlowService_GetFlowStatus_0,
        ro_handler = gw_handle rt ''/flowpipe.v1.FlowService/GetFlowStatus'' ''/v1/flows/{name}/status''
          (\<lambda>md. request_FlowService_GetFlowStatus_0 rt (client md))\<rparr>,
      \<lparr>ro_method = ''POST'', ro_pattern = pattern_FlowService_RollbackFlow_0,
        ro_handler = gw_handle rt ''/flowpipe.v1.FlowService/RollbackFlow'' ''/v1/flows/{name}/rollback/{version}''
          (\<lambda>md. request_FlowService_RollbackFlow_0 rt (client md))\<rparr>]"

definition RegisterSchemaRegistryServiceHandlerServer :: "gw_runtime \<Rightarrow> (metadata \<Rightarrow> 'w unary_handler) \<Rightarrow> 'w route list" where
  "RegisterSchemaRegistryServiceHandlerServer rt server =
     [\<lparr>ro_method = ''POST'', ro_pattern = pattern_SchemaRegistryService_CreateSchema_0,
        ro_handler = gw_handle rt ''/flowpipe.v1.SchemaRegistryService/CreateSchema'' ''/v1/schemas''
          (\<lambda>md. local_request_SchemaRegistryService_CreateSchema_0 rt (server md))\<rparr>,
      \<lparr>ro_method = ''GET'', ro_pattern = pattern_SchemaRegistryService_GetSchema_0,
        ro_handler = gw_handle rt ''/flowpipe.v1.SchemaRegistryService/GetSchema'' ''/v1/schemas/{schema_id}/versions/{version}''
          (\<lambda>md. local_request_SchemaRegistryService_GetSchema_0 rt (server md))\<rparr>,
      \<lparr>ro_method = ''GET'', ro_pattern = pattern_SchemaRegistryService_ListSchemaVersions_0,
        ro_handler = gw_handle rt ''/flowpipe.v1.SchemaRegistryService/ListSchemaVersions'' ''/v1/schemas/{schema_id}/versions''
          (\<lambda>md. local_request_SchemaRegistryService_ListSchemaVersions_0 rt (server md))\<rparr>,
      \<lparr>ro_method = ''DELETE'', ro_pattern = pattern_SchemaRegistryService_DeleteSchema_0,
        ro_handler = gw_handle rt ''/flowpipe.v1.SchemaRegistryService/DeleteSchema'' ''/v1/schemas/{schema_id}''
          (\<lambda>md. local_request_SchemaRegistryService_DeleteSchema_0 rt (server md))\<rparr>]"

definition RegisterSchemaRegistryServiceHandlerClient :: "gw_runtime \<Rightarrow> (metadata \<Rightarrow> 'w unary_handler) \<Rightarrow> 'w route list" where
  "RegisterSchemaRegistryServiceHandlerClient rt client =
     [\<lparr>ro_method = ''POST'', ro_pattern = pattern_SchemaRegistryService_CreateSchema_0,
        ro_handler = gw_handle rt ''/flowpipe.v1.SchemaRegistryService/CreateSchema'' ''/v1/schemas''
          (\<lambda>md. request_SchemaRegistryService_CreateSchema_0 rt (client md))\<rparr>,
      \<lparr>ro_method = ''GET'', ro_pattern = pattern_SchemaRegistryService_GetSchema_0,
        ro_handler = gw_handle rt ''/flowpipe.v1.SchemaRegistryService/GetSchema'' ''/v1/schemas/{schema_id}/versions/{version}''
          (\<lambda>md. request_SchemaRegistryService_GetSchema_0 rt (client md))\<rparr>,
      \<lparr>ro_method = ''GET'', ro_pattern = pattern_SchemaRegistryService_ListSchemaVersions_0,
        ro_handler = gw_handle rt ''/flowpipe.v1.SchemaRegistryService/ListSchemaVersions'' ''/v1/schemas/{schema_id}/versions''
          (\<lambda>md. request_SchemaRegistryService_ListSchemaVersions_0 rt (client md))\<rparr>,
      \<lparr>ro_method = ''DELETE'', ro_pattern = pattern_SchemaRegistryService_DeleteSchema_0,
        ro_handler = gw_handle rt ''/flowpipe.v1.SchemaRegistryService/DeleteSchema'' ''/v1/schemas/{schema_id}''
          (\<lambda>md. request_SchemaRegistryService_DeleteSchema_0 rt (client md))\<rparr>]"

text \<open>
  \<open>newClient\<close> is \<^verbatim>\<open>grpc.NewClient\<close> on an endpoint: an error, or the client over the new connection. The connection is
  closed when the context of the registration is done.
\<close>

definition RegisterFlowServiceHandler :: "gw_runtime \<Rightarrow> (metadata \<Rightarrow> 'w unary_handler) \<Rightarrow> 'w route list" where
  "RegisterFlowServiceHandler rt conn = RegisterFlowServiceHandlerClient rt conn"

definition RegisterFlowServiceHandlerFromEndpoint ::
  "gw_runtime \<Rightarrow> (string \<Rightarrow> string + (metadata \<Rightarrow> 'w unary_handler)) \<Rightarrow> string \<Rightarrow> string + 'w route list" where
  "RegisterFlowServiceHandlerFromEndpoint rt newClient endpoint =
     (case newClient endpoint of
        Inl err \<Rightarrow> Inl err
      | Inr conn \<Rightarrow> Inr (RegisterFlowServiceHandler rt conn))"

definition RegisterSchemaRegistryServiceHandler :: "gw_runtime \<Rightarrow> (metadata \<Rightarrow> 'w unary_handler) \<Rightarrow> 'w route list" where
  "RegisterSchemaRegistryServiceHandler rt conn = RegisterSchemaRegistryServiceHandlerClient rt conn"

definition RegisterSchemaRegistryServiceHandlerFromEndpoint ::
  "gw_runtime \<Rightarrow> (string \<Rightarrow> string + (metadata \<Rightarrow> 'w unary_handler)) \<Rightarrow> string \<Rightarrow> string + 'w route list" where
  "RegisterSchemaRegistryServiceHandlerFromEndpoint rt newClient endpoint =
     (case newClient endpoint of
        Inl err \<Rightarrow> Inl err
      | Inr conn \<Rightarrow> Inr (RegisterSchemaRegistryServiceHandler rt conn))"

section \<open>What the runtime library promises\<close>

text \<open>
  The operations of a pattern as the library documents them: push the next component (1), push it if it is
  the literal of the pool (2), join the top of the stack (4), and bind the top of the stack to the variable of the pool (5).
\<close>

fun run_ops :: "nat list \<Rightarrow> string list \<Rightarrow> string list \<Rightarrow> string list \<Rightarrow> path_params \<Rightarrow> path_params option" where
  "run_ops [] pool cs st bs = (if cs = [] then Some bs else None)"
| "run_ops [_] pool cs st bs = None"
| "run_ops (code # x # ops) pool cs st bs =
     (if code = 1 then (case cs of [] \<Rightarrow> None | c # cs' \<Rightarrow> run_ops ops pool cs' (c # st) bs)
      else if code = 2 then
        (case cs of [] \<Rightarrow> None | c # cs' \<Rightarrow> if c = pool ! x then run_ops ops pool cs' (c # st) bs else None)
      else if code = 4 then run_ops ops pool cs (join_with (CHR ''/'') (rev (take x st)) # drop x st) bs
      else if code = 5 then (case st of [] \<Rightarrow> None | c # st' \<Rightarrow> run_ops ops pool cs st' ((pool ! x, c) # bs))
      else None)"

definition template_match :: "gw_pattern \<Rightarrow> string list \<Rightarrow> path_params option" where
  "template_match p cs = run_ops (pt_ops p) (pt_pool p) cs [] []"

fun op_codes :: "nat list \<Rightarrow> nat set" where
  "op_codes (code # x # ops) = insert code (op_codes ops)"
| "op_codes _ = {}"

definition route_matches :: "gw_runtime \<Rightarrow> http_request \<Rightarrow> 'w route \<Rightarrow> path_params \<Rightarrow> bool" where
  "route_matches rt req ro ps \<longleftrightarrow> hr_Method req = ro_method ro
     \<and> rt_match rt (ro_pattern ro) (rt_components rt (hr_Path req)) = Some ps"

text \<open>
  The multiplexer. A request is plain when its path begins with a slash, it carries no method override and it is not a posted
  form (which the library may serve by a route of another method). Such a request is served by a route of its own method
  whose pattern matches the components of the path. Without one the library looks at the routes of the other methods: when
  the pattern of one of them matches, the answer is that the method is not allowed, and otherwise that nothing was found.
\<close>

definition path_matches :: "gw_runtime \<Rightarrow> http_request \<Rightarrow> 'w route \<Rightarrow> bool" where
  "path_matches rt req ro \<longleftrightarrow> rt_match rt (ro_pattern ro) (rt_components rt (hr_Path req)) \<noteq> None"

locale gateway =
  fixes rt :: gw_runtime and mux :: "'w route list \<Rightarrow> 'w http_handler"
  assumes match_law: "pt_verb p = '''' \<Longrightarrow> op_codes (pt_ops p) \<subseteq> {1, 2, 4, 5} \<Longrightarrow> rt_match rt p cs = template_match p cs"
    and String_law: "rt_String rt v = Inr v"
    and mux_hit: "rt_plain rt req \<Longrightarrow> ro \<in> set rs \<Longrightarrow> route_matches rt req ro ps \<Longrightarrow>
      \<exists>ro'\<in>set rs. \<exists>ps'. route_matches rt req ro' ps' \<and> mux rs req w = ro_handler ro' req ps' w"
    and mux_method: "rt_plain rt req \<Longrightarrow> (\<And>ro ps. ro \<in> set rs \<Longrightarrow> \<not> route_matches rt req ro ps) \<Longrightarrow>
      ro' \<in> set rs \<Longrightarrow> path_matches rt req ro' \<Longrightarrow> mux rs req w = (rt_MethodNotAllowed rt req, w)"
    and mux_miss: "rt_plain rt req \<Longrightarrow> (\<And>ro. ro \<in> set rs \<Longrightarrow> \<not> path_matches rt req ro) \<Longrightarrow>
      mux rs req w = (rt_NotFound rt req, w)"

section \<open>The meaning of a request\<close>

text \<open>
  The REST interface by itself: the method and the components of the path name a call, with its full
  method name and URL template, or a bad argument; every other request has no meaning.
\<close>

type_synonym meaning = "string \<times> string \<times> (rpc_error + rpc_request)"

definition flow_meaning :: "gw_runtime \<Rightarrow> http_request \<Rightarrow> string list \<Rightarrow> meaning option" where
  "flow_meaning rt req rest =
     (case rest of
        [] \<Rightarrow>
          if hr_Method req = ''POST''
          then Some (''/flowpipe.v1.FlowService/CreateFlow'', ''/v1/flows'',
                 map_sum id (\<lambda>s. RpcCreateFlow \<lparr>cfr_Spec = s\<rparr>) (decode_body (rt_decodeSpec rt) req))
          else if hr_Method req = ''GET'' then Some (''/flowpipe.v1.FlowService/ListFlows'', ''/v1/flows'', Inr RpcListFlows)
          else None
      | [n] \<Rightarrow>
          if hr_Method req = ''PUT''
          then Some (''/flowpipe.v1.FlowService/UpdateFlow'', ''/v1/flows/{name}'',
                 map_sum id (\<lambda>s. RpcUpdateFlow \<lparr>ufr_Name = n, ufr_Spec = s\<rparr>) (decode_body (rt_decodeSpec rt) req))
          else if hr_Method req = ''DELETE''
          then Some (''/flowpipe.v1.FlowService/DeleteFlow'', ''/v1/flows/{name}'', Inr (RpcDeleteFlow \<lparr>dfr_Name = n\<rparr>))
          else if hr_Method req = ''GET''
          then Some (''/flowpipe.v1.FlowService/GetFlow'', ''/v1/flows/{name}'', Inr (RpcGetFlow \<lparr>gfr_Name = n\<rparr>))
          else None
      | [n, s] \<Rightarrow>
          if hr_Method req = ''GET'' \<and> s = ''status''
          then Some (''/flowpipe.v1.FlowService/GetFlowStatus'', ''/v1/flows/{name}/status'', Inr (RpcGetFlowStatus \<lparr>gsr_Name = n\<rparr>))
          else None
      | [n, s, v] \<Rightarrow>
          if hr_Method req = ''POST'' \<and> s = ''rollback''
          then Some (''/flowpipe.v1.FlowService/RollbackFlow'', ''/v1/flows/{name}/rollback/{version}'',
                 map_sum id (\<lambda>v. RpcRollbackFlow \<lparr>rfr_Name = n, rfr_Version = v\<rparr>)
                   (path_param (rt_Uint64 rt) [(''version'', v)] ''version''))
          else None
      | _ \<Rightarrow> None)"

definition schema_meaning :: "gw_runtime \<Rightarrow> http_request \<Rightarrow> string list \<Rightarrow> meaning option" where
  "schema_meaning rt req rest =
     (case rest of
        [] \<Rightarrow>
          if hr_Method req = ''POST''
          then Some (''/flowpipe.v1.SchemaRegistryService/CreateSchema'', ''/v1/schemas'',
                 map_sum id (\<lambda>s. RpcCreateSchema \<lparr>csr_Schema = s\<rparr>) (decode_body (rt_decodeSchema rt) req))
          else None
      | [n] \<Rightarrow>
          if hr_Method req = ''DELETE''
          then Some (''/flowpipe.v1.SchemaRegistryService/DeleteSchema'', ''/v1/schemas/{schema_id}'',
                 Inr (RpcDeleteSchema \<lparr>dsr_SchemaId = n\<rparr>))
          else None
      | [n, s] \<Rightarrow>
          if hr_Method req = ''GET'' \<and> s = ''versions''
          then Some (''/flowpipe.v1.SchemaRegistryService/ListSchemaVersions'', ''/v1/schemas/{schema_id}/versions'',
                 Inr (RpcListSchemaVersions \<lparr>lsr_SchemaId = n\<rparr>))
          else None
      | [n, s, v] \<Rightarrow>
          if hr_Method req = ''GET'' \<and> s = ''versions''
          then Some (''/flowpipe.v1.SchemaRegistryService/GetSchema'', ''/v1/schemas/{schema_id}/versions/{version}'',
                 map_sum id (\<lambda>v. RpcGetSchema \<lparr>gscr_SchemaId = n, gscr_Version = v\<rparr>)
                   (path_param (rt_Uint32 rt) [(''version'', v)] ''version''))
          else None
      | _ \<Rightarrow> None)"

definition gw_meaning :: "gw_runtime \<Rightarrow> http_request \<Rightarrow> meaning option" where
  "gw_meaning rt req =
     (case rt_components rt (hr_Path req) of
        a # b # rest \<Rightarrow>
          if a = ''v1'' \<and> b = ''flows'' then flow_meaning rt req rest
          else if a = ''v1'' \<and> b = ''schemas'' then schema_meaning rt req rest
          else None
      | _ \<Rightarrow> None)"

text \<open>The paths of the interface, whatever the method.\<close>

definition known_path :: "string list \<Rightarrow> bool" where
  "known_path cs \<longleftrightarrow>
     (case cs of
        a # b # rest \<Rightarrow>
          a = ''v1'' \<and> (b = ''flows'' \<or> b = ''schemas'') \<and>
          (case rest of
             [] \<Rightarrow> True
           | [_] \<Rightarrow> True
           | [_, s] \<Rightarrow> s = (if b = ''flows'' then ''status'' else ''versions'')
           | [_, s, _] \<Rightarrow> s = (if b = ''flows'' then ''rollback'' else ''versions'')
           | _ \<Rightarrow> False)
      | _ \<Rightarrow> False)"

text \<open>The answer to a request without a meaning, and to one with a meaning.\<close>

definition refuse :: "gw_runtime \<Rightarrow> http_request \<Rightarrow> http_write list" where
  "refuse rt req =
     (if known_path (rt_components rt (hr_Path req)) then rt_MethodNotAllowed rt req else rt_NotFound rt req)"

definition respond :: "gw_runtime \<Rightarrow> (metadata \<Rightarrow> 'w unary_handler) \<Rightarrow> http_request \<Rightarrow> meaning \<Rightarrow> 'w \<Rightarrow> http_write list \<times> 'w" where
  "respond rt call req mg w =
     (case mg of (full, template, what) \<Rightarrow>
        (case rt_annotate rt req full template of
           Inl err \<Rightarrow> (rt_HTTPError rt err, w)
         | Inr md \<Rightarrow>
             (case what of
                Inl err \<Rightarrow> (rt_HTTPError rt err, w)
              | Inr rpc \<Rightarrow>
                  (case call md rpc w of
                     (Inl err, w') \<Rightarrow> (rt_HTTPError rt err, w')
                   | (Inr resp, w') \<Rightarrow> (rt_Forward rt resp, w')))))"

lemma len_cases:
  obtains "xs = []" | a where "xs = [a]" | a b where "xs = [a, b]" | a b c where "xs = [a, b, c]"
  | a b c d where "xs = [a, b, c, d]" | a b c d e where "xs = [a, b, c, d, e]"
  | a b c d e f r where "xs = a # b # c # d # e # f # r"
  by (metis list.exhaust)

lemma match_lit:
  "template_match \<lparr>pt_ops = [2, 0, 2, 1], pt_pool = [a, b], pt_verb = v\<rparr> cs = Some ps \<longleftrightarrow> cs = [a, b] \<and> ps = []"
  by (cases cs rule: len_cases) (auto simp: template_match_def)

lemma match_var:
  "template_match \<lparr>pt_ops = [2, 0, 2, 1, 1, 0, 4, 1, 5, 2], pt_pool = [a, b, x], pt_verb = v\<rparr> cs = Some ps
     \<longleftrightarrow> (\<exists>n. cs = [a, b, n] \<and> ps = [(x, n)])"
  by (cases cs rule: len_cases) (auto simp: template_match_def)

lemma match_var_lit:
  "template_match \<lparr>pt_ops = [2, 0, 2, 1, 1, 0, 4, 1, 5, 2, 2, 3], pt_pool = [a, b, x, c], pt_verb = v\<rparr> cs = Some ps
     \<longleftrightarrow> (\<exists>n. cs = [a, b, n, c] \<and> ps = [(x, n)])"
  by (cases cs rule: len_cases) (auto simp: template_match_def)

lemma match_var_lit_var:
  "template_match \<lparr>pt_ops = [2, 0, 2, 1, 1, 0, 4, 1, 5, 2, 2, 3, 1, 0, 4, 1, 5, 4], pt_pool = [a, b, x, c, y], pt_verb = v\<rparr> cs = Some ps
     \<longleftrightarrow> (\<exists>n m. cs = [a, b, n, c, m] \<and> ps = [(y, m), (x, n)])"
  by (cases cs rule: len_cases) (auto simp: template_match_def)

lemmas template_simps = match_lit match_var match_var_lit match_var_lit_var

lemmas pattern_defs = pattern_FlowService_CreateFlow_0_def pattern_FlowService_UpdateFlow_0_def pattern_FlowService_DeleteFlow_0_def
  pattern_FlowService_GetFlow_0_def pattern_FlowService_ListFlows_0_def pattern_FlowService_GetFlowStatus_0_def
  pattern_FlowService_RollbackFlow_0_def pattern_SchemaRegistryService_CreateSchema_0_def pattern_SchemaRegistryService_GetSchema_0_def
  pattern_SchemaRegistryService_ListSchemaVersions_0_def pattern_SchemaRegistryService_DeleteSchema_0_def

lemmas request_defs = request_FlowService_CreateFlow_0_def request_FlowService_UpdateFlow_0_def request_FlowService_DeleteFlow_0_def
  request_FlowService_GetFlow_0_def request_FlowService_ListFlows_0_def request_FlowService_GetFlowStatus_0_def
  request_FlowService_RollbackFlow_0_def request_SchemaRegistryService_CreateSchema_0_def request_SchemaRegistryService_GetSchema_0_def
  request_SchemaRegistryService_ListSchemaVersions_0_def request_SchemaRegistryService_DeleteSchema_0_def

lemmas local_request_defs = local_request_FlowService_CreateFlow_0_def local_request_FlowService_UpdateFlow_0_def
  local_request_FlowService_DeleteFlow_0_def local_request_FlowService_GetFlow_0_def local_request_FlowService_ListFlows_0_def
  local_request_FlowService_GetFlowStatus_0_def local_request_FlowService_RollbackFlow_0_def
  local_request_SchemaRegistryService_CreateSchema_0_def local_request_SchemaRegistryService_GetSchema_0_def
  local_request_SchemaRegistryService_ListSchemaVersions_0_def local_request_SchemaRegistryService_DeleteSchema_0_def

definition client_routes :: "gw_runtime \<Rightarrow> (metadata \<Rightarrow> 'w unary_handler) \<Rightarrow> 'w route list" where
  "client_routes rt call = RegisterFlowServiceHandler rt call @ RegisterSchemaRegistryServiceHandler rt call"

definition server_routes :: "gw_runtime \<Rightarrow> (metadata \<Rightarrow> 'w unary_handler) \<Rightarrow> 'w route list" where
  "server_routes rt call = RegisterFlowServiceHandlerServer rt call @ RegisterSchemaRegistryServiceHandlerServer rt call"

lemma local_requests:
  "local_request_FlowService_CreateFlow_0 = request_FlowService_CreateFlow_0"
  "local_request_FlowService_UpdateFlow_0 = request_FlowService_UpdateFlow_0"
  "local_request_FlowService_DeleteFlow_0 = request_FlowService_DeleteFlow_0"
  "local_request_FlowService_GetFlow_0 = request_FlowService_GetFlow_0"
  "local_request_FlowService_ListFlows_0 = request_FlowService_ListFlows_0"
  "local_request_FlowService_GetFlowStatus_0 = request_FlowService_GetFlowStatus_0"
  "local_request_FlowService_RollbackFlow_0 = request_FlowService_RollbackFlow_0"
  "local_request_SchemaRegistryService_CreateSchema_0 = request_SchemaRegistryService_CreateSchema_0"
  "local_request_SchemaRegistryService_GetSchema_0 = request_SchemaRegistryService_GetSchema_0"
  "local_request_SchemaRegistryService_ListSchemaVersions_0 = request_SchemaRegistryService_ListSchemaVersions_0"
  "local_request_SchemaRegistryService_DeleteSchema_0 = request_SchemaRegistryService_DeleteSchema_0"
  by (simp_all add: fun_eq_iff request_defs local_request_defs)

lemma server_routes_eq: "server_routes = client_routes"
  by (simp add: fun_eq_iff server_routes_def client_routes_def RegisterFlowServiceHandler_def
      RegisterSchemaRegistryServiceHandler_def RegisterFlowServiceHandlerServer_def RegisterFlowServiceHandlerClient_def
      RegisterSchemaRegistryServiceHandlerServer_def RegisterSchemaRegistryServiceHandlerClient_def local_requests)

lemmas routes_defs = client_routes_def RegisterFlowServiceHandler_def RegisterSchemaRegistryServiceHandler_def
  RegisterFlowServiceHandlerClient_def RegisterSchemaRegistryServiceHandlerClient_def

lemma route_respondI:
  assumes "case gw_meaning rt req of
      None \<Rightarrow> False
    | Some (f, t, what) \<Rightarrow> f = full \<and> t = tmpl
        \<and> (\<forall>md. request md req ps w = (case what of Inl err \<Rightarrow> (Inl err, w) | Inr rpc \<Rightarrow> call md rpc w))"
  shows "\<exists>mg. gw_meaning rt req = Some mg \<and> gw_handle rt full tmpl request req ps w = respond rt call req mg w"
proof -
  obtain what where m: "gw_meaning rt req = Some (full, tmpl, what)"
    and r: "\<And>md. request md req ps w = (case what of Inl err \<Rightarrow> (Inl err, w) | Inr rpc \<Rightarrow> call md rpc w)"
    using assms by (auto split: option.splits)
  have "gw_handle rt full tmpl request req ps w = respond rt call req (full, tmpl, what) w"
    by (auto simp: gw_handle_def respond_def r split: sum.splits)
  with m show ?thesis by blast
qed

context gateway
begin

lemma rt_match_patterns:
  "rt_match rt pattern_FlowService_CreateFlow_0 = template_match pattern_FlowService_CreateFlow_0"
  "rt_match rt pattern_FlowService_UpdateFlow_0 = template_match pattern_FlowService_UpdateFlow_0"
  "rt_match rt pattern_FlowService_DeleteFlow_0 = template_match pattern_FlowService_DeleteFlow_0"
  "rt_match rt pattern_FlowService_GetFlow_0 = template_match pattern_FlowService_GetFlow_0"
  "rt_match rt pattern_FlowService_ListFlows_0 = template_match pattern_FlowService_ListFlows_0"
  "rt_match rt pattern_FlowService_GetFlowStatus_0 = template_match pattern_FlowService_GetFlowStatus_0"
  "rt_match rt pattern_FlowService_RollbackFlow_0 = template_match pattern_FlowService_RollbackFlow_0"
  "rt_match rt pattern_SchemaRegistryService_CreateSchema_0 = template_match pattern_SchemaRegistryService_CreateSchema_0"
  "rt_match rt pattern_SchemaRegistryService_GetSchema_0 = template_match pattern_SchemaRegistryService_GetSchema_0"
  "rt_match rt pattern_SchemaRegistryService_ListSchemaVersions_0 = template_match pattern_SchemaRegistryService_ListSchemaVersions_0"
  "rt_match rt pattern_SchemaRegistryService_DeleteSchema_0 = template_match pattern_SchemaRegistryService_DeleteSchema_0"
  by (simp_all add: fun_eq_iff match_law pattern_defs)

lemma pattern_matches:
  "rt_match rt pattern_FlowService_CreateFlow_0 cs = Some ps \<longleftrightarrow> cs = [''v1'', ''flows''] \<and> ps = []"
  "rt_match rt pattern_FlowService_ListFlows_0 cs = Some ps \<longleftrightarrow> cs = [''v1'', ''flows''] \<and> ps = []"
  "rt_match rt pattern_SchemaRegistryService_CreateSchema_0 cs = Some ps \<longleftrightarrow> cs = [''v1'', ''schemas''] \<and> ps = []"
  "rt_match rt pattern_FlowService_UpdateFlow_0 cs = Some ps \<longleftrightarrow> (\<exists>n. cs = [''v1'', ''flows'', n] \<and> ps = [(''name'', n)])"
  "rt_match rt pattern_FlowService_DeleteFlow_0 cs = Some ps \<longleftrightarrow> (\<exists>n. cs = [''v1'', ''flows'', n] \<and> ps = [(''name'', n)])"
  "rt_match rt pattern_FlowService_GetFlow_0 cs = Some ps \<longleftrightarrow> (\<exists>n. cs = [''v1'', ''flows'', n] \<and> ps = [(''name'', n)])"
  "rt_match rt pattern_SchemaRegistryService_DeleteSchema_0 cs = Some ps \<longleftrightarrow> (\<exists>n. cs = [''v1'', ''schemas'', n] \<and> ps = [(''schema_id'', n)])"
  "rt_match rt pattern_FlowService_GetFlowStatus_0 cs = Some ps \<longleftrightarrow> (\<exists>n. cs = [''v1'', ''flows'', n, ''status''] \<and> ps = [(''name'', n)])"
  "rt_match rt pattern_SchemaRegistryService_ListSchemaVersions_0 cs = Some ps \<longleftrightarrow> (\<exists>n. cs = [''v1'', ''schemas'', n, ''versions''] \<and> ps = [(''schema_id'', n)])"
  "rt_match rt pattern_FlowService_RollbackFlow_0 cs = Some ps
     \<longleftrightarrow> (\<exists>n m. cs = [''v1'', ''flows'', n, ''rollback'', m] \<and> ps = [(''version'', m), (''name'', n)])"
  "rt_match rt pattern_SchemaRegistryService_GetSchema_0 cs = Some ps
     \<longleftrightarrow> (\<exists>n m. cs = [''v1'', ''schemas'', n, ''versions'', m] \<and> ps = [(''version'', m), (''schema_id'', n)])"
  unfolding rt_match_patterns by (simp_all only: pattern_defs template_simps)

lemma path_param_String: "path_param (rt_String rt) ps x =
    (case map_of ps x of None \<Rightarrow> Inl (InvalidArgument (''missing parameter '' @ x)) | Some v \<Rightarrow> Inr v)"
  by (simp add: path_param_def String_law split: option.splits)

lemma path_param_sole: "path_param conv ((''version'', v) # p # ps) ''version'' = path_param conv [(''version'', v)] ''version''"
  by (simp add: path_param_def)

lemmas call_simps = gw_meaning_def flow_meaning_def schema_meaning_def request_defs path_param_String path_param_sole

lemma flow_route_respond:
  assumes "ro \<in> set (RegisterFlowServiceHandlerClient rt call)" "route_matches rt req ro ps"
  shows "\<exists>mg. gw_meaning rt req = Some mg \<and> ro_handler ro req ps w = respond rt call req mg w"
  using assms(2) assms(1) [unfolded RegisterFlowServiceHandlerClient_def list.set insert_iff empty_iff]
  apply (elim disjE FalseE)
  apply (simp_all only: route_matches_def route.simps pattern_matches)
  apply (elim conjE exE, rule route_respondI, simp add: call_simps split: sum.splits)+
  done

lemma schema_route_respond:
  assumes "ro \<in> set (RegisterSchemaRegistryServiceHandlerClient rt call)" "route_matches rt req ro ps"
  shows "\<exists>mg. gw_meaning rt req = Some mg \<and> ro_handler ro req ps w = respond rt call req mg w"
  using assms(2) assms(1) [unfolded RegisterSchemaRegistryServiceHandlerClient_def list.set insert_iff empty_iff]
  apply (elim disjE FalseE)
  apply (simp_all only: route_matches_def route.simps pattern_matches)
  apply (elim conjE exE, rule route_respondI, simp add: call_simps split: sum.splits)+
  done

lemma route_respond:
  assumes "ro \<in> set (client_routes rt call)" "route_matches rt req ro ps"
  shows "\<exists>mg. gw_meaning rt req = Some mg \<and> ro_handler ro req ps w = respond rt call req mg w"
  using assms flow_route_respond schema_route_respond
  by (auto simp: client_routes_def RegisterFlowServiceHandler_def RegisterSchemaRegistryServiceHandler_def)

lemma flow_meaning_route:
  assumes "flow_meaning rt req rest = Some mg" "rt_components rt (hr_Path req) = ''v1'' # ''flows'' # rest"
  shows "\<exists>ro\<in>set (RegisterFlowServiceHandlerClient rt call). \<exists>ps. route_matches rt req ro ps"
proof -
  consider "hr_Method req = ''POST'' \<or> hr_Method req = ''GET''" "rest = []"
    | n where "hr_Method req = ''PUT'' \<or> hr_Method req = ''DELETE'' \<or> hr_Method req = ''GET''" "rest = [n]"
    | n where "hr_Method req = ''GET''" "rest = [n, ''status'']"
    | n v where "hr_Method req = ''POST''" "rest = [n, ''rollback'', v]"
    using assms(1) by (auto simp: flow_meaning_def split: list.splits if_splits)
  then show ?thesis
    by cases (auto simp: RegisterFlowServiceHandlerClient_def route_matches_def pattern_matches assms(2))
qed

lemma schema_meaning_route:
  assumes "schema_meaning rt req rest = Some mg" "rt_components rt (hr_Path req) = ''v1'' # ''schemas'' # rest"
  shows "\<exists>ro\<in>set (RegisterSchemaRegistryServiceHandlerClient rt call). \<exists>ps. route_matches rt req ro ps"
proof -
  consider "hr_Method req = ''POST''" "rest = []" | n where "hr_Method req = ''DELETE''" "rest = [n]"
    | n where "hr_Method req = ''GET''" "rest = [n, ''versions'']" | n v where "hr_Method req = ''GET''" "rest = [n, ''versions'', v]"
    using assms(1) by (auto simp: schema_meaning_def split: list.splits if_splits)
  then show ?thesis
    by cases (auto simp: RegisterSchemaRegistryServiceHandlerClient_def route_matches_def pattern_matches assms(2))
qed

lemma meaning_has_route:
  assumes "gw_meaning rt req = Some mg"
  shows "\<exists>ro\<in>set (client_routes rt call). \<exists>ps. route_matches rt req ro ps"
proof -
  obtain b rest where cs: "rt_components rt (hr_Path req) = ''v1'' # b # rest"
    and "b = ''flows'' \<and> flow_meaning rt req rest = Some mg \<or> b = ''schemas'' \<and> schema_meaning rt req rest = Some mg"
    using assms by (auto simp: gw_meaning_def split: list.splits if_splits)
  then show ?thesis
    using flow_meaning_route [of req rest mg call] schema_meaning_route [of req rest mg call]
    by (auto simp: client_routes_def RegisterFlowServiceHandler_def RegisterSchemaRegistryServiceHandler_def)
qed

lemma known_paths:
  "known_path cs \<longleftrightarrow> cs = [''v1'', ''flows''] \<or> cs = [''v1'', ''schemas''] \<or> (\<exists>n. cs = [''v1'', ''flows'', n])
     \<or> (\<exists>n. cs = [''v1'', ''schemas'', n]) \<or> (\<exists>n. cs = [''v1'', ''flows'', n, ''status''])
     \<or> (\<exists>n. cs = [''v1'', ''schemas'', n, ''versions'']) \<or> (\<exists>n v. cs = [''v1'', ''flows'', n, ''rollback'', v])
     \<or> (\<exists>n v. cs = [''v1'', ''schemas'', n, ''versions'', v])"
  by (cases cs rule: len_cases) (auto simp: known_path_def)

lemma pattern_known:
  "rt_match rt pattern_FlowService_CreateFlow_0 cs \<noteq> None \<longleftrightarrow> cs = [''v1'', ''flows'']"
  "rt_match rt pattern_FlowService_ListFlows_0 cs \<noteq> None \<longleftrightarrow> cs = [''v1'', ''flows'']"
  "rt_match rt pattern_SchemaRegistryService_CreateSchema_0 cs \<noteq> None \<longleftrightarrow> cs = [''v1'', ''schemas'']"
  "rt_match rt pattern_FlowService_UpdateFlow_0 cs \<noteq> None \<longleftrightarrow> (\<exists>n. cs = [''v1'', ''flows'', n])"
  "rt_match rt pattern_FlowService_DeleteFlow_0 cs \<noteq> None \<longleftrightarrow> (\<exists>n. cs = [''v1'', ''flows'', n])"
  "rt_match rt pattern_FlowService_GetFlow_0 cs \<noteq> None \<longleftrightarrow> (\<exists>n. cs = [''v1'', ''flows'', n])"
  "rt_match rt pattern_SchemaRegistryService_DeleteSchema_0 cs \<noteq> None \<longleftrightarrow> (\<exists>n. cs = [''v1'', ''schemas'', n])"
  "rt_match rt pattern_FlowService_GetFlowStatus_0 cs \<noteq> None \<longleftrightarrow> (\<exists>n. cs = [''v1'', ''flows'', n, ''status''])"
  "rt_match rt pattern_SchemaRegistryService_ListSchemaVersions_0 cs \<noteq> None
     \<longleftrightarrow> (\<exists>n. cs = [''v1'', ''schemas'', n, ''versions''])"
  "rt_match rt pattern_FlowService_RollbackFlow_0 cs \<noteq> None \<longleftrightarrow> (\<exists>n v. cs = [''v1'', ''flows'', n, ''rollback'', v])"
  "rt_match rt pattern_SchemaRegistryService_GetSchema_0 cs \<noteq> None
     \<longleftrightarrow> (\<exists>n v. cs = [''v1'', ''schemas'', n, ''versions'', v])"
  by (simp_all only: not_None_eq pattern_matches) blast+

lemma path_known:
  "(\<exists>ro\<in>set (client_routes rt call). path_matches rt req ro) \<longleftrightarrow> known_path (rt_components rt (hr_Path req))"
  by (simp only: known_paths routes_defs path_matches_def list.set append_Cons append_Nil bex_simps route.simps
      pattern_known) blast

lemma gateway_outcome:
  assumes "rt_plain rt req"
  shows "mux (client_routes rt call) req w =
    (case gw_meaning rt req of None \<Rightarrow> (refuse rt req, w) | Some mg \<Rightarrow> respond rt call req mg w)"
proof (cases "gw_meaning rt req")
  case None
  have no: "\<not> route_matches rt req ro ps" if "ro \<in> set (client_routes rt call)" for ro ps
    using that None route_respond by fastforce
  show ?thesis
    using None path_known [of call req] mux_method [OF assms no] mux_miss [OF assms, of "client_routes rt call" w]
    by (auto simp: refuse_def)
next
  case (Some mg)
  then obtain ro ps where "ro \<in> set (client_routes rt call)" "route_matches rt req ro ps" using meaning_has_route by blast
  from mux_hit [OF assms this, of w] obtain ro' ps' where "ro' \<in> set (client_routes rt call)" "route_matches rt req ro' ps'"
    "mux (client_routes rt call) req w = ro_handler ro' req ps' w" by blast
  with Some route_respond [of ro' call req ps' w] show ?thesis by auto
qed

end

section \<open>A small runtime\<close>

text \<open>
  A runtime with the documented behaviour, for concrete runs: no decoding of bodies, decimal numbers, every request
  plain, the authorization header handed on, and a multiplexer that takes the first route that matches, and else looks for a
  route of another method.
\<close>

definition mini_rt :: gw_runtime where
  "mini_rt = \<lparr>rt_decodeSpec = (\<lambda>_. DecodeEOF), rt_decodeSchema = (\<lambda>_. DecodeEOF), rt_String = Inr,
     rt_Uint64 = (\<lambda>v. case ParseUint v 64 of None \<Rightarrow> Inl ''invalid'' | Some n \<Rightarrow> Inr (of_nat n)),
     rt_Uint32 = (\<lambda>v. case ParseUint v 32 of None \<Rightarrow> Inl ''invalid'' | Some n \<Rightarrow> Inr (of_nat n)),
     rt_annotate = (\<lambda>req _ _. Inr [(''authorization'', md_Get (hr_Header req) ''Authorization'')]),
     rt_HTTPError = (\<lambda>_. [WriteHeader 500]), rt_Forward = (\<lambda>_. [WriteBody ''ok'']),
     rt_components = (\<lambda>p. split_on (CHR ''/'') (tl p)), rt_match = template_match,
     rt_NotFound = (\<lambda>_. [WriteHeader 404]), rt_MethodNotAllowed = (\<lambda>_. [WriteHeader 501]), rt_plain = (\<lambda>_. True)\<rparr>"

definition other_method :: "'w route list \<Rightarrow> http_request \<Rightarrow> http_write list" where
  "other_method rs req =
     (if list_ex (path_matches mini_rt req) rs then rt_MethodNotAllowed mini_rt req else rt_NotFound mini_rt req)"

fun first_route :: "'w route list \<Rightarrow> 'w route list \<Rightarrow> 'w http_handler" where
  "first_route rs0 [] req w = (other_method rs0 req, w)"
| "first_route rs0 (ro # rs) req w =
     (if hr_Method req = ro_method ro then
        (case rt_match mini_rt (ro_pattern ro) (rt_components mini_rt (hr_Path req)) of
           Some ps \<Rightarrow> ro_handler ro req ps w
         | None \<Rightarrow> first_route rs0 rs req w)
      else first_route rs0 rs req w)"

definition mini_mux :: "'w route list \<Rightarrow> 'w http_handler" where
  "mini_mux rs = first_route rs rs"

lemma first_route_hit:
  assumes "ro \<in> set rs" "route_matches mini_rt req ro ps"
  shows "\<exists>ro'\<in>set rs. \<exists>ps'. route_matches mini_rt req ro' ps' \<and> first_route rs0 rs req w = ro_handler ro' req ps' w"
  using assms by (induction rs) (auto simp: route_matches_def split: option.splits)

lemma first_route_miss:
  assumes "\<And>ro ps. ro \<in> set rs \<Longrightarrow> \<not> route_matches mini_rt req ro ps"
  shows "first_route rs0 rs req w = (other_method rs0 req, w)"
  using assms by (induction rs) (auto simp: route_matches_def split: option.splits)

lemma mini_mux_method:
  assumes "\<And>ro ps. ro \<in> set rs \<Longrightarrow> \<not> route_matches mini_rt req ro ps" "ro' \<in> set rs" "path_matches mini_rt req ro'"
  shows "mini_mux rs req w = (rt_MethodNotAllowed mini_rt req, w)"
  using assms(2,3) first_route_miss [OF assms(1)] by (auto simp: mini_mux_def other_method_def list_ex_iff)

lemma mini_mux_miss:
  assumes "\<And>ro. ro \<in> set rs \<Longrightarrow> \<not> path_matches mini_rt req ro"
  shows "mini_mux rs req w = (rt_NotFound mini_rt req, w)"
proof -
  have "\<not> route_matches mini_rt req ro ps" if "ro \<in> set rs" for ro ps
    using assms [OF that] by (auto simp: path_matches_def route_matches_def)
  from first_route_miss [OF this] assms show ?thesis by (auto simp: mini_mux_def other_method_def list_ex_iff)
qed

interpretation gw: gateway mini_rt mini_mux
proof unfold_locales
  show "\<exists>ro'\<in>set rs. \<exists>ps'. route_matches mini_rt req ro' ps' \<and> mini_mux rs req w = ro_handler ro' req ps' w"
    if "ro \<in> set rs" "route_matches mini_rt req ro ps" for req ro and rs :: "'a route list" and ps and w :: 'a
    using first_route_hit [OF that] by (simp add: mini_mux_def)
qed (simp_all add: mini_mux_method mini_mux_miss, simp_all add: mini_rt_def)

section \<open>Properties\<close>

text \<open>
  C11: the gateway serves the documented REST interface and nothing else. On every plain request the multiplexer with
  the routes of both services, over a client or over a server in the process, answers as the method and
  the components of the path mean: a request without a meaning makes no call and is answered with method not allowed when
  its path is one of the interface (under another method), and with not found otherwise; a bad body or version
  is answered with its error and makes no call; every other request makes exactly the call it means and forwards its
  reply or error. In particular no request matches routes of two different calls.
\<close>

theorem gateway_serves_rest:
  assumes "gateway rt mux" "rt_plain rt req"
  shows "mux (RegisterFlowServiceHandler rt call @ RegisterSchemaRegistryServiceHandler rt call) req w =
      (case gw_meaning rt req of None \<Rightarrow> (refuse rt req, w) | Some mg \<Rightarrow> respond rt call req mg w)
    \<and> mux (RegisterFlowServiceHandlerServer rt call @ RegisterSchemaRegistryServiceHandlerServer rt call) req w =
      (case gw_meaning rt req of None \<Rightarrow> (refuse rt req, w) | Some mg \<Rightarrow> respond rt call req mg w)"
  using gateway.gateway_outcome [OF assms, of call w] server_routes_eq [THEN fun_cong, THEN fun_cong, of rt call]
  by (simp only: client_routes_def server_routes_def)

text \<open>
  Three requests to a store with the flow foo: deleting the flow is the call; deleting the collection is not allowed; an unknown
  collection is not found.
\<close>

definition mini_request :: "string \<Rightarrow> string \<Rightarrow> http_request" where
  "mini_request m p = \<lparr>hr_Method = m, hr_Path = p, hr_Header = [], hr_Body = []\<rparr>"

definition mini_routes :: "etcd_mem route list" where
  "mini_routes = RegisterFlowServiceHandler mini_rt (\<lambda>_. handle_rpc mem_store) @
     RegisterSchemaRegistryServiceHandler mini_rt (\<lambda>_. handle_rpc mem_store)"

theorem gateway_serves_rest_witness:
  "mini_mux mini_routes (mini_request ''DELETE'' ''/v1/flows/foo'') mem2
     = respond mini_rt (\<lambda>_. handle_rpc mem_store) (mini_request ''DELETE'' ''/v1/flows/foo'')
         (''/flowpipe.v1.FlowService/DeleteFlow'', ''/v1/flows/{name}'', Inr (RpcDeleteFlow \<lparr>dfr_Name = ''foo''\<rparr>)) mem2
   \<and> mini_mux mini_routes (mini_request ''DELETE'' ''/v1/flows'') mem2 = ([WriteHeader 501], mem2)
   \<and> mini_mux mini_routes (mini_request ''GET'' ''/v1/jobs'') mem2 = ([WriteHeader 404], mem2)"
proof -
  have p: "rt_plain mini_rt req" for req by (simp add: mini_rt_def)
  have m: "gw_meaning mini_rt (mini_request ''DELETE'' ''/v1/flows/foo'')
      = Some (''/flowpipe.v1.FlowService/DeleteFlow'', ''/v1/flows/{name}'', Inr (RpcDeleteFlow \<lparr>dfr_Name = ''foo''\<rparr>))"
    by (simp add: gw_meaning_def flow_meaning_def mini_rt_def mini_request_def)
  have n: "gw_meaning mini_rt (mini_request ''DELETE'' ''/v1/flows'') = None"
    "gw_meaning mini_rt (mini_request ''GET'' ''/v1/jobs'') = None"
    by (simp_all add: gw_meaning_def flow_meaning_def mini_rt_def mini_request_def)
  have r: "refuse mini_rt (mini_request ''DELETE'' ''/v1/flows'') = [WriteHeader 501]"
    "refuse mini_rt (mini_request ''GET'' ''/v1/jobs'') = [WriteHeader 404]"
    by (simp_all add: refuse_def known_path_def mini_rt_def mini_request_def)
  show ?thesis
    unfolding mini_routes_def
    using gateway_serves_rest [OF gw.gateway_axioms p, of "\<lambda>_. handle_rpc mem_store" _ mem2] m n r by simp
qed

end
