(* ===== verification/Ctl_Store.thy ===== *)
theory Ctl_Store
  imports Api_Store
begin

text \<open>
  The controller's view of the desired state (\<^verbatim>\<open>controller/internal/store\<close>): its copy of the key layout,
  the list of flows for the initial sync, the translation of etcd events into watch events, the read of
  the active spec and the write of the status. As in the API's store, the etcd client and the codec are
  parameters.
\<close>

section \<open>Key layout\<close>

definition ctl_rootPrefix :: string where
  "ctl_rootPrefix = ''/flowpipe/flows''"

definition ctl_flowPrefix :: "string \<Rightarrow> string" where
  "ctl_flowPrefix name = path_Join [ctl_rootPrefix, name]"

definition ctl_activeKey :: "string \<Rightarrow> string" where
  "ctl_activeKey name = path_Join [ctl_flowPrefix name, ''active'']"

definition ctl_versionSpecKey :: "string \<Rightarrow> u64 \<Rightarrow> string" where
  "ctl_versionSpecKey name version =
     path_Join [ctl_flowPrefix name, ''versions'', FormatUint version, ''spec'']"

definition ctl_statusKey :: "string \<Rightarrow> string" where
  "ctl_statusKey name = path_Join [ctl_flowPrefix name, ''status'']"

text \<open>The copy agrees with the layout of the API for every name.\<close>

lemma ctl_keys [simp]:
  "ctl_rootPrefix = rootPrefix" "ctl_flowPrefix = flowPrefix" "ctl_activeKey = activeKey"
  "ctl_versionSpecKey = versionSpecKey" "ctl_statusKey = statusKey"
  by (simp_all add: fun_eq_iff ctl_rootPrefix_def rootPrefix_def ctl_flowPrefix_def flowPrefix_def
      ctl_activeKey_def activeKey_def ctl_versionSpecKey_def versionSpecKey_def ctl_statusKey_def statusKey_def)

section \<open>Watch events\<close>

datatype WatchEventType = WatchAdded | WatchUpdated | WatchDeleted

record WatchEvent =
  we_Type :: WatchEventType
  we_Flow :: "Flow option"

text \<open>
  An event of the etcd client: its type, the key-value pair (which may be nil) and the answer of its
  \<^verbatim>\<open>IsCreate\<close> method. Event types are an open protobuf enum.
\<close>

datatype etcd_event_type = EventTypePut | EventTypeDelete | EventTypeOther u32

record etcd_event =
  ee_Type :: etcd_event_type
  ee_Kv :: "kv option"
  ee_IsCreate :: bool

type_synonym 'w fetch = "string \<Rightarrow> 'w \<Rightarrow> (store_error + FlowSpec option \<times> u64) \<times> 'w"

definition eventType_of :: "etcd_event \<Rightarrow> WatchEventType option" where
  "eventType_of ev =
     (case ee_Type ev of
        EventTypePut \<Rightarrow> Some (if ee_IsCreate ev then WatchAdded else WatchUpdated)
      | EventTypeDelete \<Rightarrow> Some WatchDeleted
      | EventTypeOther _ \<Rightarrow> None)"

definition buildWatchEvent ::
  "'w fetch \<Rightarrow> etcd_event option \<Rightarrow> 'w \<Rightarrow> WatchEvent option \<times> 'w" where
  "buildWatchEvent fetchActive ev w =
     (case ev of
        None \<Rightarrow> (None, w)
      | Some e \<Rightarrow>
          (case ee_Kv e of
             None \<Rightarrow> (None, w)
           | Some kv \<Rightarrow>
               (let key = kv_Key kv
                in if \<not> HasSuffix key ''/active'' then (None, w)
                   else (let name = path_Base (path_Dir key)
                         in case eventType_of e of
                              None \<Rightarrow> (None, w)
                            | Some eventType \<Rightarrow>
                                (let event = (\<lambda>spec. \<lparr>we_Type = eventType,
                                       we_Flow = Some \<lparr>fl_Name = name, fl_Version = 0, fl_Spec = spec, fl_Status = None\<rparr>\<rparr>)
                                 in if eventType \<noteq> WatchDeleted
                                    then (case fetchActive name w of
                                            (Inl _, w') \<Rightarrow> (None, w')
                                          | (Inr (spec, _), w') \<Rightarrow> (Some (event spec), w'))
                                    else (Some (event None), w))))))"

section \<open>Reading and writing\<close>

text \<open>
  \<^verbatim>\<open>GetActiveFlow\<close> is two calls to etcd, and the store may change between them: \<open>readActive\<close> reads the pointer,
  \<open>readSpec\<close> the spec of the version it named.
\<close>

definition readActive :: "'w etcd_client \<Rightarrow> string \<Rightarrow> 'w \<Rightarrow> (store_error + u64 option) \<times> 'w" where
  "readActive cli name w =
     (case cli_Get cli (ctl_activeKey name) w of
        (Inl e, w1) \<Rightarrow> (Inl (ErrEtcd e), w1)
      | (Inr [], w1) \<Rightarrow> (Inr None, w1)
      | (Inr (kv # _), w1) \<Rightarrow>
          (case ParseUint (kv_Value kv) 64 of
             None \<Rightarrow> (Inl ErrInvalidActiveVersion, w1)
           | Some n \<Rightarrow> (Inr (Some (of_nat n)), w1)))"

definition readSpec :: "'w etcd_client \<Rightarrow> proto_codec \<Rightarrow> string \<Rightarrow> u64 \<Rightarrow> 'w \<Rightarrow> (store_error + FlowSpec option \<times> u64) \<times> 'w" where
  "readSpec cli pc name version w =
     (case cli_Get cli (ctl_versionSpecKey name version) w of
        (Inl e, w2) \<Rightarrow> (Inl (ErrEtcd e), w2)
      | (Inr [], w2) \<Rightarrow> (Inr (None, version), w2)
      | (Inr (skv # _), w2) \<Rightarrow>
          (case unmarshal_spec pc (kv_Value skv) of
             Inl e \<Rightarrow> (Inl (ErrProto e), w2)
           | Inr spec \<Rightarrow> (Inr (Some spec, version), w2)))"

definition GetActiveFlow ::
  "'w etcd_client \<Rightarrow> proto_codec \<Rightarrow> 'w fetch" where
  "GetActiveFlow cli pc name w =
     (case readActive cli name w of
        (Inl e, w1) \<Rightarrow> (Inl e, w1)
      | (Inr None, w1) \<Rightarrow> (Inr (None, 0), w1)
      | (Inr (Some version), w1) \<Rightarrow> readSpec cli pc name version w1)"

datatype status_error = StatusNil | StatusProto string | StatusEtcd string

definition UpdateStatus ::
  "'w etcd_client \<Rightarrow> proto_codec \<Rightarrow> string \<Rightarrow> FlowStatus option \<Rightarrow> 'w \<Rightarrow> (status_error + unit) \<times> 'w" where
  "UpdateStatus cli pc name status w =
     (case status of
        None \<Rightarrow> (Inl StatusNil, w)
      | Some st \<Rightarrow>
          (case marshal_status pc st of
             Inl e \<Rightarrow> (Inl (StatusProto e), w)
           | Inr data \<Rightarrow>
               (case cli_Put cli (ctl_statusKey name) data w of
                  (Inl e, w') \<Rightarrow> (Inl (StatusEtcd e), w')
                | (Inr _, w') \<Rightarrow> (Inr (), w'))))"

section \<open>Listing\<close>

text \<open>
  The loop collects the flows in a Go map from names. Every failure to read a flow skips it.
\<close>

fun ctl_list_loop ::
  "'w etcd_client \<Rightarrow> proto_codec \<Rightarrow> (string \<times> Flow) list \<Rightarrow> kv list \<Rightarrow> 'w \<Rightarrow> (string \<times> Flow) list \<times> 'w" where
  "ctl_list_loop cli pc flows [] w = (flows, w)"
| "ctl_list_loop cli pc flows (kv # rest) w =
     (let key = kv_Key kv
      in if \<not> HasSuffix key ''/active'' then ctl_list_loop cli pc flows rest w
         else (let name = path_Base (path_Dir key)
               in case ParseUint (kv_Value kv) 64 of
                    None \<Rightarrow> ctl_list_loop cli pc flows rest w
                  | Some n \<Rightarrow>
                      (case cli_Get cli (ctl_versionSpecKey name (of_nat n)) w of
                         (Inl _, w') \<Rightarrow> ctl_list_loop cli pc flows rest w'
                       | (Inr [], w') \<Rightarrow> ctl_list_loop cli pc flows rest w'
                       | (Inr (skv # _), w') \<Rightarrow>
                           (case unmarshal_spec pc (kv_Value skv) of
                              Inl _ \<Rightarrow> ctl_list_loop cli pc flows rest w'
                            | Inr spec \<Rightarrow>
                                ctl_list_loop cli pc
                                  (AList.update name \<lparr>fl_Name = name, fl_Version = 0, fl_Spec = Some spec,
                                                      fl_Status = None\<rparr> flows) rest w'))))"

text \<open>\<open>visit\<close> is the order in which the run visits the entries of the map.\<close>

definition ctl_ListFlows ::
  "'w etcd_client \<Rightarrow> proto_codec \<Rightarrow> ((string \<times> Flow) list \<Rightarrow> (string \<times> Flow) list) \<Rightarrow> 'w
     \<Rightarrow> (store_error + Flow list) \<times> 'w" where
  "ctl_ListFlows cli pc visit w =
     (case cli_GetPrefix cli (ctl_rootPrefix @ ''/'') w of
        (Inl e, w') \<Rightarrow> (Inl (ErrEtcd e), w')
      | (Inr kvs, w') \<Rightarrow>
          (case ctl_list_loop cli pc [] kvs w' of
             (flows, w'') \<Rightarrow> (Inr (map snd (visit flows)), w'')))"

section \<open>Watching\<close>

text \<open>
  The goroutine of \<^verbatim>\<open>WatchFlows\<close>: it sends the event of each etcd event that has one, in order, until the
  watch channel is closed. The result is the sequence of values sent.
\<close>

fun watch_events :: "'w fetch \<Rightarrow> etcd_event option list \<Rightarrow> 'w \<Rightarrow> WatchEvent list \<times> 'w" where
  "watch_events fetchActive [] w = ([], w)"
| "watch_events fetchActive (ev # evs) w =
     (case buildWatchEvent fetchActive ev w of
        (None, w') \<Rightarrow> watch_events fetchActive evs w'
      | (Some event, w') \<Rightarrow>
          (case watch_events fetchActive evs w' of (out, w'') \<Rightarrow> (event # out, w'')))"

fun WatchFlows ::
  "'w etcd_client \<Rightarrow> proto_codec \<Rightarrow> etcd_event option list list \<Rightarrow> 'w \<Rightarrow> WatchEvent list \<times> 'w" where
  "WatchFlows cli pc [] w = ([], w)"
| "WatchFlows cli pc (wr # wrs) w =
     (case watch_events (GetActiveFlow cli pc) wr w of
        (out, w') \<Rightarrow> (case WatchFlows cli pc wrs w' of (out', w'') \<Rightarrow> (out @ out', w'')))"

section \<open>Names and keys\<close>

text \<open>For a plain name the last but one component of the pointer's key is the name.\<close>

lemma active_key_name [simp]:
  assumes "plain n"
  shows "path_Base (path_Dir (activeKey n)) = n" "HasSuffix (activeKey n) ''/active''"
proof -
  have "activeKey n = abspath ([''flowpipe'', ''flows'', n] @ [''active''])"
    using assms by (simp add: flow_keys)
  then show "path_Base (path_Dir (activeKey n)) = n"
    using assms path_Dir_abspath [of "[''flowpipe'', ''flows'', n]" "''active''"]
      path_Base_abspath [of n "[''flowpipe'', ''flows'']"]
    by (simp add: plain_slash_free del: abspath_simps)
  show "HasSuffix (activeKey n) ''/active''"
    using listed_name_active [OF assms, of "\<lparr>kv_Key = activeKey n, kv_Value = ''''\<rparr>"] by simp
qed

lemma not_active_suffix:
  assumes "suffix ''/spec'' k \<or> suffix ''/status'' k"
  shows "\<not> HasSuffix k ''/active''"
  using assms unfolding HasSuffix_iff suffix_def by auto

lemma other_keys_no_suffix [simp]:
  "\<not> HasSuffix (versionSpecKey n v) ''/active''" "\<not> HasSuffix (statusKey n) ''/active''"
proof -
  have "versionSpecKey n v = abspath (flow_id n @ [''versions'', FormatUint v]) @ ''/spec''"
    "statusKey n = abspath (flow_id n) @ ''/status''"
    by (simp_all add: flow_keys)
  then show "\<not> HasSuffix (versionSpecKey n v) ''/active''" "\<not> HasSuffix (statusKey n) ''/active''"
    using not_active_suffix by (metis suffixI)+
qed

section \<open>Laws\<close>

text \<open>What a read of the active flow says of the key space.\<close>

definition active_view :: "proto_codec \<Rightarrow> keyspace \<Rightarrow> string \<Rightarrow> FlowSpec option \<times> u64 \<Rightarrow> bool" where
  "active_view pc m n r \<longleftrightarrow>
     (case r of (sp, v) \<Rightarrow>
        (case m (activeKey n) of
           None \<Rightarrow> sp = None \<and> v = 0
         | Some _ \<Rightarrow> active_of m n = Some v \<and> sp = spec_of pc m n v
             \<and> (sp = None \<longrightarrow> m (versionSpecKey n v) = None)))"

context etcd_store
begin

lemma readActive_pure: "readActive cli n w = (r, w') \<Longrightarrow> kvs w' = kvs w"
  by (auto simp: readActive_def split: prod.splits sum.splits list.splits option.splits dest!: Get_law)

lemma readSpec_pure: "readSpec cli pc n v w = (r, w') \<Longrightarrow> kvs w' = kvs w"
  by (auto simp: readSpec_def split: prod.splits sum.splits list.splits dest!: Get_law)

lemma GetActiveFlow_pure: "GetActiveFlow cli pc n w = (r, w') \<Longrightarrow> kvs w' = kvs w"
  by (auto simp: GetActiveFlow_def split: prod.splits sum.splits option.splits dest!: readActive_pure readSpec_pure)

lemma readActive_view:
  assumes "readActive cli n w = (Inr r, w')"
  shows "active_of (kvs w) n = r \<and> (r = None \<longleftrightarrow> kvs w (activeKey n) = None)"
proof -
  obtain g w1 where 1: "cli_Get cli (activeKey n) w = (Inr g, w1)"
    using assms by (auto simp: readActive_def split: prod.splits sum.splits)
  show ?thesis
  proof (cases g)
    case Nil
    with 1 assms Get_Nil_iff [of "activeKey n" w w1] show ?thesis by (auto simp: readActive_def active_of_def)
  next
    case (Cons x xs)
    with 1 assms Get_ConsD [of "activeKey n" w x xs w1] show ?thesis
      by (auto simp: readActive_def active_of_def split: option.splits)
  qed
qed

lemma readSpec_view:
  assumes "readSpec cli pc n v w = (Inr (so, v'), w')"
  shows "v' = v \<and> so = spec_of pc (kvs w) n v \<and> (so = None \<longrightarrow> kvs w (versionSpecKey n v) = None)"
proof -
  obtain h w2 where 1: "cli_Get cli (versionSpecKey n v) w = (Inr h, w2)"
    using assms by (auto simp: readSpec_def split: prod.splits sum.splits)
  show ?thesis
    using assms 1 Get_Nil_iff [of "versionSpecKey n v" w w2] Get_ConsD [of "versionSpecKey n v" w _ _ w2]
    by (cases h) (auto simp: readSpec_def spec_of_def split: sum.splits)
qed

lemma GetActiveFlow_view:
  assumes "GetActiveFlow cli pc n w = (Inr r, w')"
  shows "active_view pc (kvs w) n r"
proof -
  obtain p w1 where p: "readActive cli n w = (Inr p, w1)"
    using assms by (auto simp: GetActiveFlow_def split: prod.splits sum.splits)
  note v = readActive_view [OF p] and k = readActive_pure [OF p]
  show ?thesis
  proof (cases p)
    case (Some u)
    obtain so u' where r: "r = (so, u')" by fastforce
    have "readSpec cli pc n u w1 = (Inr (so, u'), w')" using assms p Some r by (simp add: GetActiveFlow_def)
    from readSpec_view [OF this] v k r Some show ?thesis by (auto simp: active_view_def split: option.splits)
  qed (use assms p v in \<open>auto simp: GetActiveFlow_def active_view_def\<close>)
qed

lemma UpdateStatus_cases:
  assumes "UpdateStatus cli pc n st w = (r, w')"
  shows "(isl r \<and> kvs w' = kvs w)
    \<or> (\<exists>t b. st = Some t \<and> marshal_status pc t = Inr b \<and> kvs w' = (kvs w)(statusKey n \<mapsto> b)
         \<and> (r = Inr () \<or> (\<exists>e. r = Inl (StatusEtcd e))))"
proof (cases st)
  case (Some t)
  show ?thesis
  proof (cases "marshal_status pc t")
    case (Inr b)
    obtain p w1 where p: "cli_Put cli (statusKey n) b w = (p, w1)" by fastforce
    show ?thesis
      using assms Some Inr p Put_ok [of "statusKey n" b w w1] Put_err [of "statusKey n" b w _ w1]
      by (cases p) (auto simp: UpdateStatus_def)
  qed (use assms Some in \<open>auto simp: UpdateStatus_def\<close>)
qed (use assms in \<open>auto simp: UpdateStatus_def\<close>)

lemma aflow_of_status:
  assumes "marshal_status pc t = Inr b"
  shows "aflow_of pc (m(statusKey n \<mapsto> b)) n' =
    (if flow_id n' = flow_id n then (aflow_of pc m n')\<lparr>a_status := Some t\<rparr> else aflow_of pc m n')"
  using status_roundtrip [OF assms]
  by (simp add: aflow_of_def active_of_def spec_of_def [abs_def] status_of_def)

end

section \<open>The controller's list\<close>

text \<open>A flow as the controller lists it, and the entries of a map of such flows.\<close>

definition ctl_flow :: "string \<Rightarrow> FlowSpec \<Rightarrow> Flow" where
  "ctl_flow n sp = \<lparr>fl_Name = n, fl_Version = 0, fl_Spec = Some sp, fl_Status = None\<rparr>"

text \<open>The flow that is stored under a key of the listing, if it can be read.\<close>

definition key_flow :: "proto_codec \<Rightarrow> keyspace \<Rightarrow> kv \<Rightarrow> (string \<times> FlowSpec) option" where
  "key_flow pc m x =
     (if \<not> HasSuffix (kv_Key x) ''/active'' then None
      else case ParseUint (kv_Value x) 64 of
             None \<Rightarrow> None
           | Some v \<Rightarrow> map_option (Pair (path_Base (path_Dir (kv_Key x))))
                         (spec_of pc m (path_Base (path_Dir (kv_Key x))) (of_nat v)))"

fun collect :: "('a \<Rightarrow> (string \<times> FlowSpec) option) \<Rightarrow> (string \<times> Flow) list \<Rightarrow> 'a list \<Rightarrow> (string \<times> Flow) list" where
  "collect f flows [] = flows"
| "collect f flows (x # xs) =
     (case f x of
        None \<Rightarrow> collect f flows xs
      | Some (n, sp) \<Rightarrow> collect f (AList.update n (ctl_flow n sp) flows) xs)"

lemma collect_wf: "wf_map flows \<Longrightarrow> wf_map (collect f flows xs)"
  by (induction f flows xs rule: collect.induct) (auto split: option.splits prod.splits)

text \<open>When no two keys have the same name the map holds what each key gives.\<close>

lemma collect_map_of:
  assumes "distinct (map fst (List.map_filter f xs))"
  shows "map_of (collect f flows xs) n =
    (case map_of (List.map_filter f xs) n of Some sp \<Rightarrow> Some (ctl_flow n sp) | None \<Rightarrow> map_of flows n)"
  using assms
proof (induction f flows xs rule: collect.induct)
  case (2 f flows x xs)
  then show ?case
  proof (cases "f x")
    case (Some p)
    obtain k sp where p: "p = (k, sp)" by (cases p)
    have d: "distinct (map fst (List.map_filter f xs))" "k \<notin> fst ` set (List.map_filter f xs)"
      using 2(3) Some p by (simp_all add: List.map_filter_simps)
    have "map_of (List.map_filter f xs) k = None" using d(2) by (simp add: map_of_eq_None_iff)
    with 2(2) [OF Some p [symmetric] d(1)] Some p show ?thesis
      by (auto simp: List.map_filter_simps split: option.splits)
  qed (auto simp: List.map_filter_simps)
qed (simp add: List.map_filter_simps)

context etcd_store
begin

lemma ctl_list_loop_pure: "ctl_list_loop cli pc flows xs w = (out, w') \<Longrightarrow> kvs w' = kvs w"
proof (induction xs arbitrary: flows w)
  case (Cons x xs)
  then show ?case
    by (auto simp: Let_def split: if_splits prod.splits sum.splits list.splits option.splits dest!: Get_law)
qed simp

text \<open>Without read faults the loop collects exactly the readable flows.\<close>

lemma ctl_list_loop_collect:
  assumes q: "quiet_reads cli quiet"
  shows "quiet w \<Longrightarrow> \<exists>w'. ctl_list_loop cli pc flows xs w = (collect (key_flow pc (kvs w)) flows xs, w') \<and> quiet w'"
proof (induction xs arbitrary: flows w)
  case (Cons x xs)
  define nm where "nm = path_Base (path_Dir (kv_Key x))"
  show ?case
  proof (cases "HasSuffix (kv_Key x) ''/active'' \<and> ParseUint (kv_Value x) 64 \<noteq> None")
    case True
    then obtain v where v: "ParseUint (kv_Value x) 64 = Some v" by auto
    obtain g w1 where g: "cli_Get cli (versionSpecKey nm (of_nat v)) w = (Inr g, w1)" "quiet w1"
      using quiet_readsD [OF q Cons.prems] by (metis prod.exhaust)
    have k: "kvs w1 = kvs w" using Get_law [OF g(1)] by simp
    have h: "HasSuffix (kv_Key x) ''/active''" using True by simp
    note step = h v g(1) [unfolded nm_def]
    show ?thesis
    proof (cases g)
      case Nil
      then have "spec_of pc (kvs w) nm (of_nat v) = None"
        using Get_Nil_iff g(1) by (auto simp: spec_of_def)
      with Cons.IH [OF g(2), of flows] Nil step show ?thesis
        by (auto simp: k key_flow_def nm_def)
    next
      case (Cons y ys)
      then have y: "kvs w (versionSpecKey nm (of_nat v)) = Some (kv_Value y)"
        using Get_ConsD g(1) by metis
      show ?thesis
      proof (cases "unmarshal_spec pc (kv_Value y)")
        case (Inl e)
        then have "spec_of pc (kvs w) nm (of_nat v) = None" using y by (simp add: spec_of_def)
        with Cons.IH [OF g(2), of flows] Cons Inl step show ?thesis
          by (auto simp: k key_flow_def nm_def)
      next
        case (Inr sp)
        then have "spec_of pc (kvs w) nm (of_nat v) = Some sp" using y by (simp add: spec_of_def)
        then have f: "key_flow pc (kvs w) x = Some (nm, sp)" using h v by (simp add: key_flow_def nm_def)
        obtain w2 where "ctl_list_loop cli pc (AList.update nm (ctl_flow nm sp) flows) xs w1 =
            (collect (key_flow pc (kvs w)) (AList.update nm (ctl_flow nm sp) flows) xs, w2)" "quiet w2"
          using Cons.IH [OF g(2), of "AList.update nm (ctl_flow nm sp) flows"] k by auto
        with f Cons Inr step show ?thesis by (simp add: nm_def ctl_flow_def Let_def)
      qed
    qed
  next
    case False
    then have "key_flow pc (kvs w) x = None" by (auto simp: key_flow_def)
    with Cons.IH [OF Cons.prems, of flows] False show ?thesis by (auto simp: Let_def)
  qed
qed simp

end

text \<open>The flows of a key space whose active pointers all belong to plain names.\<close>

definition plain_pointers :: "keyspace \<Rightarrow> bool" where
  "plain_pointers m \<longleftrightarrow> (\<forall>k. prefix rootPrefix k \<and> HasSuffix k ''/active'' \<and> m k \<noteq> None \<longrightarrow>
     (\<exists>n. plain n \<and> k = activeKey n))"

definition readable :: "proto_codec \<Rightarrow> keyspace \<Rightarrow> string \<Rightarrow> FlowSpec \<Rightarrow> bool" where
  "readable pc m n sp \<longleftrightarrow> plain n \<and> (\<exists>v. active_of m n = Some v \<and> spec_of pc m n v = Some sp)"

lemma key_flow_iff:
  assumes pp: "plain_pointers m" and x: "prefix rootPrefix (kv_Key x)" "m (kv_Key x) = Some (kv_Value x)"
  shows "key_flow pc m x = Some (n, sp) \<longleftrightarrow> kv_Key x = activeKey n \<and> readable pc m n sp"
proof (cases "HasSuffix (kv_Key x) ''/active''")
  case True
  with pp x obtain n0 where n0: "plain n0" "kv_Key x = activeKey n0" by (auto simp: plain_pointers_def)
  then have "key_flow pc m x = (case active_of m n0 of None \<Rightarrow> None | Some v \<Rightarrow> map_option (Pair n0) (spec_of pc m n0 v))"
    using x by (auto simp: key_flow_def active_of_def split: option.splits)
  then show ?thesis using n0 by (auto simp: readable_def split: option.splits)
next
  case False
  then show ?thesis by (auto simp: key_flow_def readable_def)
qed

lemma set_map_filter_iff: "p \<in> set (List.map_filter f xs) \<longleftrightarrow> (\<exists>x\<in>set xs. f x = Some p)"
  by (induction xs) (auto simp: List.map_filter_simps split: option.splits)

lemma collect_set:
  assumes "distinct (map fst (List.map_filter f xs))"
  shows "(n, g) \<in> set (collect f [] xs) \<longleftrightarrow> (\<exists>sp. g = ctl_flow n sp \<and> (\<exists>x\<in>set xs. f x = Some (n, sp)))"
proof -
  have "wf_map (collect f [] xs)" by (rule collect_wf) simp
  then have "(n, g) \<in> set (collect f [] xs) \<longleftrightarrow> map_of (collect f [] xs) n = Some g"
    by (simp add: wf_map_def)
  also have "\<dots> \<longleftrightarrow> (\<exists>sp. g = ctl_flow n sp \<and> map_of (List.map_filter f xs) n = Some sp)"
    using collect_map_of [OF assms, of "[]" n] by (auto split: option.splits)
  finally show ?thesis by (simp only: map_of_eq_Some_iff [OF assms] set_map_filter_iff)
qed

lemma names_of_visit:
  assumes "mset (visit C) = mset C" "\<And>n f. (n, f) \<in> set C \<Longrightarrow> fl_Name f = n"
  shows "map fl_Name (map snd (visit C)) = map fst (visit C)" "set (map snd (visit C)) = snd ` set C"
proof -
  have s: "set (visit C) = set C" using assms(1) by (rule mset_eq_setD)
  then show "map fl_Name (map snd (visit C)) = map fst (visit C)" using assms(2) by (simp add: comp_def)
  show "set (map snd (visit C)) = snd ` set C" using s by simp
qed

lemma image_snd: "snd ` A = {f. \<exists>n. (n, f) \<in> A}"
  by force

context etcd_store
begin

lemma ctl_ListFlows_exact:
  assumes l: "ctl_ListFlows cli pc visit w = (Inr gs, w')" and vis: "\<And>m. mset (visit m) = mset m"
    and q: "quiet_reads cli quiet" "quiet (snd (cli_GetPrefix cli (rootPrefix @ ''/'') w))"
    and pp: "plain_pointers (kvs w)"
  shows "distinct (map fl_Name gs) \<and> kvs w' = kvs w \<and> set gs = {ctl_flow n sp | n sp. readable pc (kvs w) n sp}"
proof -
  obtain xs w1 where 1: "cli_GetPrefix cli (rootPrefix @ ''/'') w = (Inr xs, w1)"
    using l by (auto simp: ctl_ListFlows_def split: prod.splits sum.splits)
  have k: "kvs w1 = kvs w" and sx: "sorted_wrt (<) (map kv_Key xs)"
    and xs: "set xs = {\<lparr>kv_Key = k, kv_Value = v\<rparr> | k v. prefix (rootPrefix @ ''/'') k \<and> kvs w k = Some v}"
    using GetPrefix_law [OF 1] by auto
  define kf where "kf = key_flow pc (kvs w)"
  define C where "C = collect kf [] xs"
  obtain w2 where 2: "ctl_list_loop cli pc [] xs w1 = (C, w2)"
    using ctl_list_loop_collect [OF q(1), of w1 "[]" xs] q(2) 1 k by (auto simp: kf_def C_def)
  then have gs: "gs = map snd (visit C)" and w': "w' = w2"
    using l 1 by (simp_all add: ctl_ListFlows_def)
  have kf: "kf x = Some (n, sp) \<longleftrightarrow> kv_Key x = activeKey n \<and> readable pc (kvs w) n sp" if "x \<in> set xs" for x n sp
    unfolding kf_def using that xs by (intro key_flow_iff [OF pp]) (auto dest: append_prefixD)
  have key: "kv_Key x = activeKey (fst p)" if "x \<in> set xs" "kf x = Some p" for x p
    using that(2) kf [OF that(1), of "fst p" "snd p"] by simp
  have names: "map kv_Key (filter (\<lambda>x. kf x \<noteq> None) ys) = map activeKey (map fst (List.map_filter kf ys))"
    if "set ys \<subseteq> set xs" for ys
    using that key by (induction ys) (auto simp: List.map_filter_simps split: option.splits)
  have "distinct (map kv_Key xs)" using sx by (simp add: strict_sorted_iff)
  then have "distinct (map kv_Key (filter (\<lambda>x. kf x \<noteq> None) xs))" by (rule distinct_map_filter)
  then have d: "distinct (map fst (List.map_filter kf xs))"
    unfolding names [OF subset_refl] by (simp only: distinct_map)
  have mem: "\<exists>x\<in>set xs. kv_Key x = activeKey n" if r: "readable pc (kvs w) n sp" for n sp
  proof -
    obtain b where "kvs w (activeKey n) = Some b"
      using r by (cases "kvs w (activeKey n)") (auto simp: readable_def active_of_def)
    moreover have "prefix (rootPrefix @ ''/'') (activeKey n)"
      using r by (simp add: readable_def flow_keys rootPrefix_def)
    ultimately show ?thesis using xs by (intro bexI [of _ "\<lparr>kv_Key = activeKey n, kv_Value = b\<rparr>"]) auto
  qed
  have inC: "(n, f) \<in> set C \<longleftrightarrow> (\<exists>sp. f = ctl_flow n sp \<and> readable pc (kvs w) n sp)" for n f
    unfolding C_def collect_set [OF d] using kf mem by metis
  have nm: "fl_Name f = n" if "(n, f) \<in> set C" for n f using that inC by (auto simp: ctl_flow_def)
  have vis_C: "map fl_Name (map snd (visit C)) = map fst (visit C)" "set (map snd (visit C)) = snd ` set C"
    by (rule names_of_visit [of visit C, OF vis]; rule nm; assumption)+
  have "wf_map C" unfolding C_def by (rule collect_wf) simp
  then have "distinct (map fst (visit C))"
    using mset_eq_imp_distinct_iff [of "map fst (visit C)" "map fst C"] by (simp add: vis wf_map_def)
  then have "distinct (map fl_Name gs)" unfolding gs vis_C(1) .
  moreover have "set gs = {ctl_flow n sp | n sp. readable pc (kvs w) n sp}"
    unfolding gs vis_C(2) image_snd inC by blast
  ultimately show ?thesis using ctl_list_loop_pure [OF 2] k w' by simp
qed

end

section \<open>Properties\<close>

text \<open>
  C33: which changes of the key space the controller hears of. For a flow with a plain name a change of the
  active pointer gives one watch event that names the flow (added for the first write of the key, updated for
  a later one, deleted for a deletion, the deletion without a read), with the spec a read of the active flow
  returns; a failed read drops the event. A change of a spec or of a status gives none.
\<close>

theorem watch_event_meaning:
  assumes "plain n"
  shows "buildWatchEvent fetch (Some \<lparr>ee_Type = EventTypePut, ee_Kv = Some \<lparr>kv_Key = activeKey n, kv_Value = b\<rparr>, ee_IsCreate = c\<rparr>) w =
      (case fetch n w of
         (Inl _, w') \<Rightarrow> (None, w')
       | (Inr (sp, _), w') \<Rightarrow> (Some \<lparr>we_Type = (if c then WatchAdded else WatchUpdated),
            we_Flow = Some \<lparr>fl_Name = n, fl_Version = 0, fl_Spec = sp, fl_Status = None\<rparr>\<rparr>, w'))
    \<and> buildWatchEvent fetch (Some \<lparr>ee_Type = EventTypeDelete, ee_Kv = Some \<lparr>kv_Key = activeKey n, kv_Value = b\<rparr>, ee_IsCreate = c\<rparr>) w =
      (Some \<lparr>we_Type = WatchDeleted, we_Flow = Some \<lparr>fl_Name = n, fl_Version = 0, fl_Spec = None, fl_Status = None\<rparr>\<rparr>, w)
    \<and> (\<forall>t k. k = statusKey n \<or> (\<exists>v. k = versionSpecKey n v) \<longrightarrow>
         buildWatchEvent fetch (Some \<lparr>ee_Type = t, ee_Kv = Some \<lparr>kv_Key = k, kv_Value = b\<rparr>, ee_IsCreate = c\<rparr>) w = (None, w))"
  using active_key_name [OF assms]
  by (auto simp: buildWatchEvent_def eventType_of_def Let_def split: prod.splits sum.splits)

theorem watch_event_meaning_witness:
  "fst (buildWatchEvent (GetActiveFlow mem_client mini_codec)
     (Some \<lparr>ee_Type = EventTypePut, ee_Kv = Some \<lparr>kv_Key = ''/flowpipe/flows/foo/active'', kv_Value = ''2''\<rparr>, ee_IsCreate = False\<rparr>) mem2)
   = Some \<lparr>we_Type = WatchUpdated, we_Flow = Some \<lparr>fl_Name = ''foo'', fl_Version = 0,
       fl_Spec = Some (foo_spec\<lparr>fs_Version := 2\<rparr>), fl_Status = None\<rparr>\<rparr>"
proof -
  have p: "plain ''foo''" by (simp add: plain_def)
  have k: "activeKey ''foo'' = ''/flowpipe/flows/foo/active''" by code_simp
  have "fst (GetActiveFlow mem_client mini_codec ''foo'' mem2) = Inr (Some (foo_spec\<lparr>fs_Version := 2\<rparr>), 2)" by code_simp
  then obtain w' where "GetActiveFlow mem_client mini_codec ''foo'' mem2 = (Inr (Some (foo_spec\<lparr>fs_Version := 2\<rparr>), 2), w')"
    by (metis prod.collapse)
  with watch_event_meaning [OF p, of "GetActiveFlow mem_client mini_codec" "''2''" False mem2] k show ?thesis by simp
qed

text \<open>
  C31: the API and the controller list the same flows, when every stored pointer has a plain name and no
  read fails: the two lists hold the same names with the same specs, the controller's without
  duplicates in whatever order its map is visited.
\<close>

theorem list_views_agree:
  assumes "etcd_store cli kvs pc" "plain_pointers (kvs w)" "quiet_reads cli quiet"
    "ListFlows cli pc w = (Inr fs, w1)" "quiet (snd (cli_GetPrefix cli rootPrefix w))"
    "ctl_ListFlows cli pc visit w = (Inr gs, w2)" "quiet (snd (cli_GetPrefix cli (rootPrefix @ ''/'') w))"
    "\<And>m. mset (visit m) = mset m"
  shows "distinct (map fl_Name gs)
    \<and> (\<lambda>f. (fl_Name f, fl_Spec f)) ` set fs = (\<lambda>f. (fl_Name f, fl_Spec f)) ` set gs"
proof -
  note st = assms(1)
  have gs: "distinct (map fl_Name gs)" "set gs = {ctl_flow n sp | n sp. readable pc (kvs w) n sp}"
    using etcd_store.ctl_ListFlows_exact [OF st assms(6,8,3,7,2)] by auto
  have "(\<lambda>f. (fl_Name f, fl_Spec f)) ` set fs = {(n, Some sp) | n sp. readable pc (kvs w) n sp}"
  proof (intro set_eqI iffI)
    fix p assume "p \<in> (\<lambda>f. (fl_Name f, fl_Spec f)) ` set fs"
    then obtain f where f: "f \<in> set fs" "p = (fl_Name f, fl_Spec f)" by auto
    obtain x where x: "prefix rootPrefix (kv_Key x)" "kvs w (kv_Key x) \<noteq> None"
      "HasSuffix (kv_Key x) ''/active''" "fl_Name f = listed_name x"
      using etcd_store.ListFlows_sound(2) [OF st assms(4) f(1)] by blast
    then obtain n where "plain n" "kv_Key x = activeKey n" using assms(2) by (auto simp: plain_pointers_def)
    then have "plain (fl_Name f)" using listed_name_active x(4) by simp
    moreover have "flow_view pc (kvs w) f" using etcd_store.ListFlows_sound(1) [OF st assms(4)] f(1) by blast
    ultimately show "p \<in> {(n, Some sp) | n sp. readable pc (kvs w) n sp}"
      using f(2) flow_viewD by (fastforce simp: readable_def)
  next
    fix p assume "p \<in> {(n, Some sp) | n sp. readable pc (kvs w) n sp}"
    then obtain n v sp where "p = (n, Some sp)" "plain n" "active_of (kvs w) n = Some v" "spec_of pc (kvs w) n v = Some sp"
      by (auto simp: readable_def)
    with etcd_store.ListFlows_complete [OF st assms(4,3,5)] show "p \<in> (\<lambda>f. (fl_Name f, fl_Spec f)) ` set fs" by force
  qed
  also have "\<dots> = (\<lambda>f. (fl_Name f, fl_Spec f)) ` set gs"
    unfolding gs(2) by (force simp: ctl_flow_def image_iff)
  finally show ?thesis using gs(1) by blast
qed

theorem list_views_agree_witness:
  "\<exists>fs gs w1 w2. ListFlows mem_client mini_codec mem2 = (Inr fs, w1) \<and> ctl_ListFlows mem_client mini_codec rev mem2 = (Inr gs, w2)
     \<and> (\<lambda>f. (fl_Name f, fl_Spec f)) ` set fs = (\<lambda>f. (fl_Name f, fl_Spec f)) ` set gs"
proof -
  have "\<not> isl (fst (ListFlows mem_client mini_codec mem2))" "\<not> isl (fst (ctl_ListFlows mem_client mini_codec rev mem2))"
    by code_simp+
  then obtain fs gs w1 w2 where l: "ListFlows mem_client mini_codec mem2 = (Inr fs, w1)"
    "ctl_ListFlows mem_client mini_codec rev mem2 = (Inr gs, w2)"
    by (metis isl_def prod.collapse sum.collapse(2))
  have keys: "\<And>n. plain n \<Longrightarrow> activeKey n = ''/flowpipe/flows/'' @ n @ ''/active''" by (simp add: flow_keys)
  have "plain ''foo''" "plain ''foobar''" by (simp_all add: plain_def)
  note p = this keys [OF this(1)] keys [OF this(2)]
  have pp: "plain_pointers (mem_view mem2)"
    unfolding plain_pointers_def
  proof (intro allI impI)
    fix k assume a: "prefix rootPrefix k \<and> HasSuffix k ''/active'' \<and> mem_view mem2 k \<noteq> None"
    then have "k = activeKey ''foo'' \<or> k = activeKey ''foobar''"
      by (auto simp: mem_view_def mem2_def p HasSuffix_def split: if_splits)
    then show "\<exists>n. plain n \<and> k = activeKey n" using p by blast
  qed
  have q: "mem_faults (snd (cli_GetPrefix mem_client x mem2)) = []" for x
    by (simp add: mem_client_def mem_call_def faulty_def mem2_def Let_def)
  from list_views_agree [OF memstore.etcd_store_axioms pp mem_quiet l(1) q l(2) q] l show ?thesis by auto
qed

text \<open>
  For other names they need not agree. A flow named \<^verbatim>\<open>a/b\<close> is accepted by the API and listed under its name, while the
  controller takes the last component of the path for its name, finds no flow \<^verbatim>\<open>b\<close> and lists nothing.
\<close>

definition nested_mem :: etcd_mem where
  "nested_mem = snd (CreateFlow mem_client mini_codec (Some (demo_spec\<lparr>fs_Name := ''a/b''\<rparr>)) mem0)"

lemma nested_name_unseen:
  "map_sum id (map fl_Name) (fst (ListFlows mem_client mini_codec nested_mem)) = Inr [''a/b'']"
  "fst (ctl_ListFlows mem_client mini_codec (\<lambda>x. x) nested_mem) = Inr []"
  "path_Base (path_Dir (activeKey ''a/b'')) = ''b''"
  by code_simp+

text \<open>
  the controller reads what the API serves. Where the API's \<^verbatim>\<open>GetFlow\<close> returns a flow, the
  controller's \<^verbatim>\<open>GetActiveFlow\<close> on the same store returns its spec and version or an etcd error; and the
  controller finds no spec only where the API reports the flow as not found or its spec as missing.
\<close>

lemma active_flow_agrees:
  assumes "etcd_store cli kvs pc" "GetFlow cli pc n w = (r, w1)" "GetActiveFlow cli pc n w2 = (Inr (sp, v), w3)" "kvs w2 = kvs w"
  shows "kvs w3 = kvs w \<and>
    (case r of
       Inr f \<Rightarrow> sp = fl_Spec f \<and> v = fl_Version f
     | Inl e \<Rightarrow> (\<exists>x. e = ErrEtcd x) \<or> (sp = None \<and> (e = ErrFlowNotFound n \<or> e = ErrSpecMissing n v)))"
proof -
  have a: "active_view pc (kvs w) n (sp, v)" using etcd_store.GetActiveFlow_view [OF assms(1,3)] assms(4) by simp
  have k: "kvs w3 = kvs w" using etcd_store.GetActiveFlow_pure [OF assms(1,3)] assms(4) by simp
  show ?thesis
  proof (cases r)
    case (Inr f)
    then have "flow_view pc (kvs w) f" "fl_Name f = n" using etcd_store.GetFlow_view [OF assms(1)] assms(2) by auto
    with a k Inr show ?thesis
      by (auto simp: flow_view_def active_view_def active_of_def split: option.splits)
  next
    case (Inl e)
    then show ?thesis
      using etcd_store.GetFlow_err [OF assms(1), of n w e w1] assms(2) a k
      by (auto simp: active_view_def active_of_def split: option.splits if_splits)
  qed
qed

lemma active_flow_agrees_example:
  "\<exists>f w1 w3. GetFlow mem_client mini_codec ''foo'' mem2 = (Inr f, w1)
     \<and> GetActiveFlow mem_client mini_codec ''foo'' mem2 = (Inr (fl_Spec f, fl_Version f), w3)"
proof -
  have "\<not> isl (fst (GetFlow mem_client mini_codec ''foo'' mem2))" "\<not> isl (fst (GetActiveFlow mem_client mini_codec ''foo'' mem2))"
    by code_simp+
  then obtain f a w1 w3 where g: "GetFlow mem_client mini_codec ''foo'' mem2 = (Inr f, w1)"
    "GetActiveFlow mem_client mini_codec ''foo'' mem2 = (Inr a, w3)"
    by (metis isl_def prod.collapse sum.collapse(2))
  obtain sp v where "a = (sp, v)" by (cases a)
  with active_flow_agrees [OF memstore.etcd_store_axioms g(1), of mem2 sp v w3] g show ?thesis by auto
qed

text \<open>
  C32: the status the controller writes is the status the API serves, and nothing else of any flow changes:
  after a successful \<^verbatim>\<open>UpdateStatus\<close> the registry differs only in the status of that flow, and \<^verbatim>\<open>GetFlowStatus\<close>
  returns the written status unless its read fails (then it returns none).
\<close>

theorem update_status_visible:
  assumes "etcd_store cli kvs pc" "UpdateStatus cli pc n (Some t) w = (Inr (), w1)" "GetFlowStatus cli pc n w1 = (r, w2)"
  shows "(r = Inr (Some t) \<or> r = Inr None \<and> isl (fst (cli_Get cli (statusKey n) w1)))
    \<and> (\<forall>n'. aflow_of pc (kvs w1) n' =
         (if flow_id n' = flow_id n then (aflow_of pc (kvs w) n')\<lparr>a_status := Some t\<rparr> else aflow_of pc (kvs w) n'))"
proof -
  obtain b where b: "marshal_status pc t = Inr b" and k: "kvs w1 = (kvs w)(statusKey n \<mapsto> b)"
    using etcd_store.UpdateStatus_cases [OF assms(1,2)] by auto
  obtain g w3 where g: "cli_Get cli (statusKey n) w1 = (g, w3)" by fastforce
  have "\<exists>x. g = Inr [x] \<and> kv_Value x = b" if "\<not> isl g"
    using that etcd.Get_law [OF _ g, of kvs] assms(1) k by (cases g) (auto simp: etcd_store_def)
  then have "r = Inr (Some t) \<or> r = Inr None \<and> isl g"
    using assms(3) g proto_spec.status_roundtrip [OF _ b] assms(1)
    by (cases g) (auto simp: GetFlowStatus_def etcd_store_def)
  then show ?thesis using etcd_store.aflow_of_status [OF assms(1) b, of "kvs w" n] g k by auto
qed

theorem update_status_visible_witness:
  "\<exists>w1 w2. UpdateStatus mem_client mini_codec ''foo'' (Some (mini_status 2 ''foo-runtime'')) mem2 = (Inr (), w1)
     \<and> GetFlowStatus mem_client mini_codec ''foo'' w1 = (Inr (Some (mini_status 2 ''foo-runtime'')), w2)
     \<and> a_specs (aflow_of mini_codec (mem_view w1) ''foo'') = a_specs (aflow_of mini_codec (mem_view mem2) ''foo'')"
proof -
  let ?u = "UpdateStatus mem_client mini_codec ''foo'' (Some (mini_status 2 ''foo-runtime'')) mem2"
  have e: "fst ?u = Inr ()" "\<not> isl (fst (cli_Get mem_client (statusKey ''foo'') (snd ?u)))" by code_simp+
  obtain w1 where u: "?u = (Inr (), w1)" using e(1) by (metis prod.collapse)
  obtain r w2 where g: "GetFlowStatus mem_client mini_codec ''foo'' w1 = (r, w2)" by fastforce
  from update_status_visible [OF memstore.etcd_store_axioms u g] u g e(2) show ?thesis by auto
qed

end
