(* ===== verification/Kube_Client.thy ===== *)
theory Kube_Client
  imports Flow_Types
begin

text \<open>
  The Kubernetes objects the controller writes and the client it writes them with. The API types and the
  client (\<^verbatim>\<open>k8s.io/api\<close>, \<^verbatim>\<open>k8s.io/client-go\<close>) are not part of the repository: the objects are records of
  the fields the controller sets, with the remaining metadata and the status as opaque text, and the
  client is a record of functions over a world \<open>'w\<close>. The locale \<open>kube_resource\<close> states the
  documented behaviour of one resource of the client; \<open>view\<close> is the content of the cluster, and
  \<open>fill\<close> relates the spec of a submitted object to a spec the API server may store for it: the server fills in
  defaults and, for the pods of a job, labels it generates, so the same request may be stored in several ways. A call
  that returns an error may or may not have taken effect, except that \<^verbatim>\<open>NotFound\<close> means what it says.

  The locale idealises deletion: an object is gone from \<open>view\<close> once its deletion has taken effect. Objects that
  linger behind a finalizer with a deletion timestamp, and the pods a deleted job may leave behind, are not
  modelled; the controller never reads either.

  A cluster in memory with a schedule of injected faults interprets the locale.
\<close>

section \<open>Objects\<close>

record ObjectMeta =
  om_Name :: string
  om_Namespace :: string
  om_Labels :: go_map
  om_Rest :: string

record 's kobject =
  ob_Meta :: ObjectMeta
  ob_Spec :: 's
  ob_Status :: string

datatype PullPolicy = PullAlways | PullNever | PullIfNotPresent

datatype PodRestartPolicy = RestartPolicyUnset | RestartPolicyAlways | RestartPolicyOnFailure | RestartPolicyNever

datatype ConcurrencyPolicy = ConcurrencyUnset | AllowConcurrent | ForbidConcurrent | ReplaceConcurrent

record EnvVar =
  ev_Name :: string
  ev_Value :: string

record VolumeMount =
  vm_Name :: string
  vm_MountPath :: string

record Volume =
  vol_Name :: string
  vol_ConfigMap :: string

text \<open>A resource list maps resource names to quantities, here their 64-bit values.\<close>

record Container =
  ct_Name :: string
  ct_Image :: string
  ct_ImagePullPolicy :: PullPolicy
  ct_Args :: "string list"
  ct_Env :: "EnvVar list"
  ct_VolumeMounts :: "VolumeMount list"
  ct_Requests :: "(string \<times> 64 word) list"

record PodSpec =
  ps_RestartPolicy :: PodRestartPolicy
  ps_Containers :: "Container list"
  ps_Volumes :: "Volume list"
  ps_ServiceAccountName :: string
  ps_ImagePullSecrets :: "string list"
  ps_RuntimeClassName :: "string option"

record PodTemplateSpec =
  pt_Labels :: go_map
  pt_Annotations :: go_map
  pt_Spec :: PodSpec

record DeploymentSpec =
  dp_Replicas :: "32 word option"
  dp_MatchLabels :: go_map
  dp_Template :: PodTemplateSpec

record DaemonSetSpec =
  ds_MatchLabels :: go_map
  ds_Template :: PodTemplateSpec

record JobSpec =
  js_Template :: PodTemplateSpec

record CronJobSpec =
  cj_Schedule :: string
  cj_TimeZone :: "string option"
  cj_Suspend :: "bool option"
  cj_StartingDeadlineSeconds :: "64 word option"
  cj_ConcurrencyPolicy :: ConcurrencyPolicy
  cj_SuccessfulJobsHistoryLimit :: "32 word option"
  cj_FailedJobsHistoryLimit :: "32 word option"
  cj_JobTemplate :: JobSpec

datatype kind = ConfigMapKind | DeploymentKind | DaemonSetKind | JobKind | CronJobKind

datatype kobj =
    KConfigMap "go_map kobject"
  | KDeployment "DeploymentSpec kobject"
  | KDaemonSet "DaemonSetSpec kobject"
  | KJob "JobSpec kobject"
  | KCronJob "CronJobSpec kobject"

text \<open>The content of the cluster: by kind, namespace and name.\<close>

type_synonym kkey = "kind \<times> string \<times> string"
type_synonym cluster = "kkey \<rightharpoonup> kobj"

section \<open>The client\<close>

datatype kube_error = KNotFound | KOther string

definition IsNotFound :: "kube_error \<Rightarrow> bool" where
  "IsNotFound e \<longleftrightarrow> e = KNotFound"

lemma IsNotFound_simps [simp]: "IsNotFound KNotFound" "\<not> IsNotFound (KOther m)"
  by (simp_all add: IsNotFound_def)

record ('s, 'w) resource_client =
  rc_Get :: "string \<Rightarrow> string \<Rightarrow> 'w \<Rightarrow> (kube_error + 's kobject) \<times> 'w"
  rc_Create :: "string \<Rightarrow> 's kobject \<Rightarrow> 'w \<Rightarrow> (kube_error + 's kobject) \<times> 'w"
  rc_Update :: "string \<Rightarrow> 's kobject \<Rightarrow> 'w \<Rightarrow> (kube_error + 's kobject) \<times> 'w"
  rc_Delete :: "string \<Rightarrow> string \<Rightarrow> 'w \<Rightarrow> (kube_error + unit) \<times> 'w"

record 'w kube_client =
  kc_ConfigMaps :: "(go_map, 'w) resource_client"
  kc_Deployments :: "(DeploymentSpec, 'w) resource_client"
  kc_DaemonSets :: "(DaemonSetSpec, 'w) resource_client"
  kc_Jobs :: "(JobSpec, 'w) resource_client"
  kc_CronJobs :: "(CronJobSpec, 'w) resource_client"

text \<open>
  The object the server stores for a submitted one: the same name and labels, a spec it may store for the
  submitted one; it assigns the rest of the metadata and the status.
\<close>

definition stored_as :: "('s \<Rightarrow> 's \<Rightarrow> bool) \<Rightarrow> 's kobject \<Rightarrow> 's kobject \<Rightarrow> bool" where
  "stored_as fill ob ob' \<longleftrightarrow> fill (ob_Spec ob) (ob_Spec ob')
     \<and> om_Name (ob_Meta ob') = om_Name (ob_Meta ob) \<and> om_Labels (ob_Meta ob') = om_Labels (ob_Meta ob)"

locale kube_resource =
  fixes rc :: "('s, 'w) resource_client" and kd :: kind and mk :: "'s kobject \<Rightarrow> kobj"
    and fill :: "'s \<Rightarrow> 's \<Rightarrow> bool" and view :: "'w \<Rightarrow> cluster"
  assumes kGet: "rc_Get rc ns n w = (r, w') \<Longrightarrow> view w' = view w
      \<and> (\<forall>ob. r = Inr ob \<longrightarrow> view w (kd, ns, n) = Some (mk ob) \<and> om_Name (ob_Meta ob) = n)
      \<and> (r = Inl KNotFound \<longrightarrow> view w (kd, ns, n) = None)"
    and kCreate: "rc_Create rc ns ob w = (r, w') \<Longrightarrow> (isl r \<and> view w' = view w)
      \<or> (\<exists>ob'. stored_as fill ob ob' \<and> view w (kd, ns, om_Name (ob_Meta ob)) = None
           \<and> view w' = (view w)((kd, ns, om_Name (ob_Meta ob)) \<mapsto> mk ob'))"
    and kUpdate: "rc_Update rc ns ob w = (r, w') \<Longrightarrow> (isl r \<and> view w' = view w)
      \<or> (\<exists>ob'. stored_as fill ob ob' \<and> view w (kd, ns, om_Name (ob_Meta ob)) \<noteq> None
           \<and> view w' = (view w)((kd, ns, om_Name (ob_Meta ob)) \<mapsto> mk ob'))"
    and kDelete: "rc_Delete rc ns n w = (d, w') \<Longrightarrow>
      (view w' = view w \<and> (d = Inl KNotFound \<and> view w (kd, ns, n) = None \<or> (\<exists>m. d = Inl (KOther m))))
      \<or> (view w' = (view w)((kd, ns, n) := None) \<and> d \<noteq> Inl KNotFound)"

locale kube =
  cm: kube_resource "kc_ConfigMaps kc" ConfigMapKind KConfigMap "(=)" view +
  dp: kube_resource "kc_Deployments kc" DeploymentKind KDeployment fill_dp view +
  ds: kube_resource "kc_DaemonSets kc" DaemonSetKind KDaemonSet fill_ds view +
  jb: kube_resource "kc_Jobs kc" JobKind KJob fill_jb view +
  cj: kube_resource "kc_CronJobs kc" CronJobKind KCronJob fill_cj view
  for kc :: "'w kube_client" and view :: "'w \<Rightarrow> cluster"
    and fill_dp :: "DeploymentSpec \<Rightarrow> DeploymentSpec \<Rightarrow> bool" and fill_ds :: "DaemonSetSpec \<Rightarrow> DaemonSetSpec \<Rightarrow> bool"
    and fill_jb :: "JobSpec \<Rightarrow> JobSpec \<Rightarrow> bool" and fill_cj :: "CronJobSpec \<Rightarrow> CronJobSpec \<Rightarrow> bool"

section \<open>A cluster in memory\<close>

record kube_mem =
  km_objs :: "(kkey \<times> kobj) list"
  km_faults :: "bool list"

definition km_view :: "kube_mem \<Rightarrow> cluster" where
  "km_view w = map_of (km_objs w)"

definition km_call :: "(kube_mem \<Rightarrow> (kube_error + 'a) \<times> kube_mem) \<Rightarrow> kube_mem \<Rightarrow> (kube_error + 'a) \<times> kube_mem" where
  "km_call f w =
     (let w1 = w\<lparr>km_faults := tl (km_faults w)\<rparr>
      in if km_faults w \<noteq> [] \<and> hd (km_faults w) then (Inl (KOther ''unavailable''), w1) else f w1)"

definition km_put :: "kkey \<Rightarrow> kobj \<Rightarrow> kube_mem \<Rightarrow> kube_mem" where
  "km_put k x w = w\<lparr>km_objs := AList.update k x (km_objs w)\<rparr>"

text \<open>The client of one kind; \<open>prj\<close> reads the objects of the kind.\<close>

definition km_client :: "kind \<Rightarrow> ('s kobject \<Rightarrow> kobj) \<Rightarrow> (kobj \<Rightarrow> 's kobject option) \<Rightarrow> ('s, kube_mem) resource_client" where
  "km_client kd mk prj =
     \<lparr>rc_Get = (\<lambda>ns n. km_call (\<lambda>w.
        case Option.bind (map_of (km_objs w) (kd, ns, n)) prj of
          None \<Rightarrow> (Inl (if map_of (km_objs w) (kd, ns, n) = None then KNotFound else KOther ''corrupt''), w)
        | Some ob \<Rightarrow> if om_Name (ob_Meta ob) = n then (Inr ob, w) else (Inl (KOther ''corrupt''), w))),
      rc_Create = (\<lambda>ns ob. km_call (\<lambda>w. let k = (kd, ns, om_Name (ob_Meta ob)) in
        case map_of (km_objs w) k of
          None \<Rightarrow> (Inr ob, km_put k (mk ob) w)
        | Some _ \<Rightarrow> (Inl (KOther ''already exists''), w))),
      rc_Update = (\<lambda>ns ob. km_call (\<lambda>w. let k = (kd, ns, om_Name (ob_Meta ob)) in
        case map_of (km_objs w) k of
          None \<Rightarrow> (Inl KNotFound, w)
        | Some _ \<Rightarrow> (Inr ob, km_put k (mk ob) w))),
      rc_Delete = (\<lambda>ns n. km_call (\<lambda>w.
        case map_of (km_objs w) (kd, ns, n) of
          None \<Rightarrow> (Inl KNotFound, w)
        | Some _ \<Rightarrow> (Inr (), w\<lparr>km_objs := AList.delete (kd, ns, n) (km_objs w)\<rparr>)))\<rparr>"

fun get_cm :: "kobj \<Rightarrow> go_map kobject option" where "get_cm (KConfigMap x) = Some x" | "get_cm _ = None"
fun get_dp :: "kobj \<Rightarrow> DeploymentSpec kobject option" where "get_dp (KDeployment x) = Some x" | "get_dp _ = None"
fun get_ds :: "kobj \<Rightarrow> DaemonSetSpec kobject option" where "get_ds (KDaemonSet x) = Some x" | "get_ds _ = None"
fun get_jb :: "kobj \<Rightarrow> JobSpec kobject option" where "get_jb (KJob x) = Some x" | "get_jb _ = None"
fun get_cj :: "kobj \<Rightarrow> CronJobSpec kobject option" where "get_cj (KCronJob x) = Some x" | "get_cj _ = None"

definition kmem :: "kube_mem kube_client" where
  "kmem = \<lparr>kc_ConfigMaps = km_client ConfigMapKind KConfigMap get_cm,
     kc_Deployments = km_client DeploymentKind KDeployment get_dp,
     kc_DaemonSets = km_client DaemonSetKind KDaemonSet get_ds,
     kc_Jobs = km_client JobKind KJob get_jb,
     kc_CronJobs = km_client CronJobKind KCronJob get_cj\<rparr>"

lemma km_view_faults [simp]: "km_view (w\<lparr>km_faults := fs\<rparr>) = km_view w"
  by (simp add: km_view_def)

lemma km_put_view [simp]: "km_view (km_put k x w) = (km_view w)(k \<mapsto> x)"
  by (simp add: km_view_def km_put_def)

lemma km_call_cases:
  assumes "km_call f w = (r, w')"
  obtains "r = Inl (KOther ''unavailable'')" "km_view w' = km_view w"
  | w1 where "km_view w1 = km_view w" "map_of (km_objs w1) = km_view w" "f w1 = (r, w')"
proof (cases "km_faults w \<noteq> [] \<and> hd (km_faults w)")
  case True
  with assms show thesis by (intro that(1)) (auto simp: km_call_def Let_def km_view_def)
next
  case False
  with assms show thesis
    by (intro that(2) [of "w\<lparr>km_faults := tl (km_faults w)\<rparr>"]) (auto simp: km_call_def Let_def km_view_def)
qed

lemma stored_as_self: "stored_as (=) ob ob"
  by (simp add: stored_as_def)

lemma km_client_resource:
  assumes prj: "\<And>x ob. prj x = Some ob \<Longrightarrow> x = mk ob"
  shows "kube_resource (km_client kd mk prj) kd mk (=) km_view"
proof (unfold_locales, goal_cases)
  case (1 ns n w r w')
  from 1 have "km_call (\<lambda>w. case Option.bind (map_of (km_objs w) (kd, ns, n)) prj of
          None \<Rightarrow> (Inl (if map_of (km_objs w) (kd, ns, n) = None then KNotFound else KOther ''corrupt''), w)
        | Some ob \<Rightarrow> if om_Name (ob_Meta ob) = n then (Inr ob, w) else (Inl (KOther ''corrupt''), w)) w = (r, w')"
    by (simp add: km_client_def)
  then show ?case
    by (rule km_call_cases) (auto split: option.splits if_splits Option.bind_splits dest: prj)
next
  case (2 ns ob w r w')
  then have "km_call (\<lambda>w. let k = (kd, ns, om_Name (ob_Meta ob)) in
        case map_of (km_objs w) k of
          None \<Rightarrow> (Inr ob, km_put k (mk ob) w)
        | Some _ \<Rightarrow> (Inl (KOther ''already exists''), w)) w = (r, w')" by (simp add: km_client_def)
  then show ?case
    by (rule km_call_cases) (auto simp: Let_def split: option.splits intro: exI [of _ ob] stored_as_self)
next
  case (3 ns ob w r w')
  then have "km_call (\<lambda>w. let k = (kd, ns, om_Name (ob_Meta ob)) in
        case map_of (km_objs w) k of
          None \<Rightarrow> (Inl KNotFound, w)
        | Some _ \<Rightarrow> (Inr ob, km_put k (mk ob) w)) w = (r, w')" by (simp add: km_client_def)
  then show ?case
    by (rule km_call_cases) (auto simp: Let_def split: option.splits intro: exI [of _ ob] stored_as_self)
next
  case (4 ns n w d w')
  then have "km_call (\<lambda>w. case map_of (km_objs w) (kd, ns, n) of
          None \<Rightarrow> (Inl KNotFound, w)
        | Some _ \<Rightarrow> (Inr (), w\<lparr>km_objs := AList.delete (kd, ns, n) (km_objs w)\<rparr>)) w = (d, w')"
    by (simp add: km_client_def)
  then show ?case
    by (rule km_call_cases) (auto simp: km_view_def delete_conv split: option.splits)
qed

lemma kobj_prj:
  "get_cm x = Some cm \<Longrightarrow> x = KConfigMap cm" "get_dp x = Some dp \<Longrightarrow> x = KDeployment dp"
  "get_ds x = Some ds \<Longrightarrow> x = KDaemonSet ds" "get_jb x = Some jb \<Longrightarrow> x = KJob jb"
  "get_cj x = Some cj \<Longrightarrow> x = KCronJob cj"
  by (cases x; simp)+

interpretation memkube: kube kmem km_view "(=)" "(=)" "(=)" "(=)"
  unfolding kube_def by (simp add: kmem_def km_client_resource [OF kobj_prj(1)] km_client_resource [OF kobj_prj(2)]
      km_client_resource [OF kobj_prj(3)] km_client_resource [OF kobj_prj(4)] km_client_resource [OF kobj_prj(5)])

end
