(* ===== verification/Ctl_Runtime.thy ===== *)
theory Ctl_Runtime
  imports Kube_Client Go_Strings
begin

text \<open>
  The runtime objects of a flow (\<^verbatim>\<open>controller/internal/controller/runtime.go\<close>): the pod template with its
  environment, resource requests and options, the config map, and the workload of the flow (a
  deployment, a daemon set, a job or a cron job), applied with get, create and update, and deleted
  again. The Kubernetes client is a parameter; so are the protojson and YAML encoders and the hash
  of the config, in a \<open>config_codec\<close>.

  As in the code the functions return a value together with an error that may be nil.
\<close>

section \<open>Names\<close>

definition flowLabelKey :: string where
  "flowLabelKey = ''flowpipe.io/flow-name''"

definition runtimeConfigKey :: string where
  "runtimeConfigKey = ''flow.yaml''"

definition runtimeConfigMountDir :: string where
  "runtimeConfigMountDir = ''/config''"

definition runtimeConfigPath :: string where
  "runtimeConfigPath = ''/config/flow.yaml''"

definition runtimeConfigHashKey :: string where
  "runtimeConfigHashKey = ''flowpipe.io/flow-config-checksum''"

definition resourceProfileKey :: string where
  "resourceProfileKey = ''flowpipe.io/resource-profile''"

section \<open>Errors and external functions\<close>

datatype delete_error = DeleteFailed kind string kube_error

datatype runtime_error =
    ErrClientRequired
  | ErrFlowSpecRequired
  | ErrRuntimeFlowName
  | ErrImageRequired string
  | ErrMarshalSpec string
  | ErrMarshalYaml string
  | ErrKube kube_error
  | ErrDeleteClientRequired
  | ErrDeleteFlowName
  | ErrJoined "delete_error list"

record config_codec =
  cc_protojson :: "FlowSpec \<Rightarrow> string + string"
  cc_JSONToYAML :: "string \<Rightarrow> string + string"
  cc_Sum256 :: "string \<Rightarrow> string"

section \<open>Policies\<close>

definition pullPolicyFromSpec :: "FlowSpec option \<Rightarrow> PullPolicy" where
  "pullPolicyFromSpec spec =
     (case spec of
        None \<Rightarrow> PullIfNotPresent
      | Some sp \<Rightarrow>
          (case fs_Kubernetes sp of
             None \<Rightarrow> PullIfNotPresent
           | Some k \<Rightarrow>
               (case ks_ImagePullPolicy k of
                  IMAGE_PULL_POLICY_ALWAYS \<Rightarrow> PullAlways
                | IMAGE_PULL_POLICY_NEVER \<Rightarrow> PullNever
                | _ \<Rightarrow> PullIfNotPresent)))"

definition restartPolicyFromSpec :: "FlowSpec option \<Rightarrow> PodRestartPolicy" where
  "restartPolicyFromSpec spec =
     (case spec of
        None \<Rightarrow> RestartPolicyNever
      | Some sp \<Rightarrow>
          (case fs_Kubernetes sp of
             None \<Rightarrow> RestartPolicyNever
           | Some k \<Rightarrow>
               (case ks_RestartPolicy k of
                  RESTART_POLICY_ALWAYS \<Rightarrow> RestartPolicyAlways
                | RESTART_POLICY_ON_FAILURE \<Rightarrow> RestartPolicyOnFailure
                | _ \<Rightarrow> RestartPolicyNever)))"

definition cronConcurrencyPolicyFromSpec :: "CronConcurrencyPolicy \<Rightarrow> ConcurrencyPolicy" where
  "cronConcurrencyPolicyFromSpec policy =
     (case policy of
        CRON_CONCURRENCY_POLICY_FORBID \<Rightarrow> ForbidConcurrent
      | CRON_CONCURRENCY_POLICY_REPLACE \<Rightarrow> ReplaceConcurrent
      | _ \<Rightarrow> AllowConcurrent)"

section \<open>The pod template\<close>

definition base_env :: "bool \<Rightarrow> string \<Rightarrow> EnvVar list" where
  "base_env observabilityEnabled otelEndpoint =
     \<lparr>ev_Name = ''FLOWPIPE_OBSERVABILITY_ENABLED'',
      ev_Value = (if observabilityEnabled then ''true'' else ''false'')\<rparr> #
     (if observabilityEnabled
      then [\<lparr>ev_Name = ''FLOWPIPE_METRICS_ENABLED'', ev_Value = ''true''\<rparr>,
            \<lparr>ev_Name = ''FLOWPIPE_TRACING_ENABLED'', ev_Value = ''true''\<rparr>,
            \<lparr>ev_Name = ''FLOWPIPE_LOGS_ENABLED'', ev_Value = ''true''\<rparr>,
            \<lparr>ev_Name = ''OTEL_EXPORTER_OTLP_ENDPOINT'', ev_Value = otelEndpoint\<rparr>]
      else [])"

definition runtimeEnv :: "bool \<Rightarrow> string \<Rightarrow> go_map \<Rightarrow> EnvVar list" where
  "runtimeEnv observabilityEnabled otelEndpoint extraEnv =
     (let env = base_env observabilityEnabled otelEndpoint
      in if extraEnv = [] then env
         else (let existing = map ev_Name env;
                   keys = sort (map fst extraEnv)
               in env @ map (\<lambda>key. \<lparr>ev_Name = key,
                              ev_Value = (case map_of extraEnv key of None \<Rightarrow> '''' | Some v \<Rightarrow> v)\<rparr>)
                          (filter (\<lambda>key. key \<notin> set existing) keys)))"

fun set_entries :: "string \<Rightarrow> go_map \<Rightarrow> go_map \<Rightarrow> go_map" where
  "set_entries protected m [] = m"
| "set_entries protected m ((key, val) # rest) =
     (if key = protected then set_entries protected m rest
      else set_entries protected (AList.update key val m) rest)"

definition applyKubernetesOptions :: "PodTemplateSpec \<Rightarrow> KubernetesOptions option \<Rightarrow> PodTemplateSpec" where
  "applyKubernetesOptions template options =
     (case options of
        None \<Rightarrow> template
      | Some opts \<Rightarrow>
          (let t1 = (if ko_PodLabels opts \<noteq> []
                     then template\<lparr>pt_Labels := set_entries flowLabelKey (pt_Labels template) (ko_PodLabels opts)\<rparr>
                     else template);
               t2 = (if ko_PodAnnotations opts \<noteq> []
                     then t1\<lparr>pt_Annotations := set_entries runtimeConfigHashKey (pt_Annotations t1) (ko_PodAnnotations opts)\<rparr>
                     else t1);
               t3 = (case ko_ServiceAccountName opts of
                       None \<Rightarrow> t2
                     | Some sa \<Rightarrow> t2\<lparr>pt_Spec := (pt_Spec t2)\<lparr>ps_ServiceAccountName := sa\<rparr>\<rparr>);
               t4 = (if ko_ImagePullSecrets opts \<noteq> []
                     then t3\<lparr>pt_Spec := (pt_Spec t3)\<lparr>ps_ImagePullSecrets :=
                                filter (\<lambda>name. name \<noteq> '''') (ko_ImagePullSecrets opts)\<rparr>\<rparr>
                     else t3)
           in case ko_RuntimeClassName opts of
                None \<Rightarrow> t4
              | Some _ \<Rightarrow> t4\<lparr>pt_Spec := (pt_Spec t4)\<lparr>ps_RuntimeClassName := ko_RuntimeClassName opts\<rparr>\<rparr>))"

text \<open>
  The requests of a resource intent. The quantities are computed in 64-bit arithmetic from 32-bit
  fields.
\<close>

definition intent_requests :: "Resources \<Rightarrow> (string \<times> 64 word) list" where
  "intent_requests intent =
     (case rs_CpuCores intent of
        None \<Rightarrow> []
      | Some c \<Rightarrow> if c > 0 then [(''cpu'', ucast c)] else []) @
     (case rs_MemoryMb intent of
        None \<Rightarrow> []
      | Some m \<Rightarrow> if m > 0 then [(''memory'', ucast m * 1000 * 1000)] else [])"

definition applyResourceIntent :: "PodTemplateSpec \<Rightarrow> Resources option \<Rightarrow> PodTemplateSpec" where
  "applyResourceIntent template intent =
     (case intent of
        None \<Rightarrow> template
      | Some it \<Rightarrow>
          (let t1 = (case rs_Profile it of
                       None \<Rightarrow> template
                     | Some p \<Rightarrow>
                         if p \<noteq> ''''
                         then template\<lparr>pt_Annotations := AList.update resourceProfileKey p (pt_Annotations template)\<rparr>
                         else template);
               requests = intent_requests it
           in case ps_Containers (pt_Spec t1) of
                [] \<Rightarrow> t1
              | c # cs \<Rightarrow>
                  if requests = [] then t1
                  else t1\<lparr>pt_Spec := (pt_Spec t1)\<lparr>ps_Containers :=
                         c\<lparr>ct_Requests := fold (\<lambda>(k, v). AList.update k v) requests (ct_Requests c)\<rparr> # cs\<rparr>\<rparr>))"

definition pod_template ::
  "string \<Rightarrow> string \<Rightarrow> string \<Rightarrow> PullPolicy \<Rightarrow> string \<Rightarrow> bool \<Rightarrow> string \<Rightarrow> PodRestartPolicy \<Rightarrow> go_map \<Rightarrow> PodTemplateSpec" where
  "pod_template flowName configMapName img imagePullPolicy configChecksum observabilityEnabled otelEndpoint restartPolicy env =
     \<lparr>pt_Labels = [(flowLabelKey, flowName)],
      pt_Annotations = [(runtimeConfigHashKey, configChecksum)],
      pt_Spec = \<lparr>ps_RestartPolicy = restartPolicy,
        ps_Containers =
          [\<lparr>ct_Name = ''runtime'', ct_Image = img, ct_ImagePullPolicy = imagePullPolicy,
            ct_Args = [runtimeConfigPath], ct_Env = runtimeEnv observabilityEnabled otelEndpoint env,
            ct_VolumeMounts = [\<lparr>vm_Name = ''flow-config'', vm_MountPath = runtimeConfigMountDir\<rparr>],
            ct_Requests = []\<rparr>],
        ps_Volumes = [\<lparr>vol_Name = ''flow-config'', vol_ConfigMap = configMapName\<rparr>],
        ps_ServiceAccountName = '''', ps_ImagePullSecrets = [], ps_RuntimeClassName = None\<rparr>\<rparr>"

definition runtimePodTemplate ::
  "string \<Rightarrow> string \<Rightarrow> string \<Rightarrow> PullPolicy \<Rightarrow> string \<Rightarrow> bool \<Rightarrow> string \<Rightarrow> PodRestartPolicy
     \<Rightarrow> Resources option \<Rightarrow> KubernetesOptions option \<Rightarrow> go_map \<Rightarrow> PodTemplateSpec" where
  "runtimePodTemplate flowName configMapName img imagePullPolicy configChecksum observabilityEnabled otelEndpoint
     restartPolicy resources options env =
     applyKubernetesOptions
       (applyResourceIntent
          (pod_template flowName configMapName img imagePullPolicy configChecksum observabilityEnabled
             otelEndpoint restartPolicy env)
          resources)
       options"

section \<open>Applying objects\<close>

text \<open>
  Create the object when it does not exist, otherwise replace its spec and labels and keep the
  rest of what the server has.
\<close>

definition apply_object ::
  "('s, 'w) resource_client \<Rightarrow> string \<Rightarrow> string \<Rightarrow> 's kobject \<Rightarrow> 'w \<Rightarrow> runtime_error option \<times> 'w" where
  "apply_object rc namespace name desired w =
     (case rc_Get rc namespace name w of
        (Inl e, w1) \<Rightarrow>
          if IsNotFound e
          then (case rc_Create rc namespace desired w1 of
                  (Inl e', w2) \<Rightarrow> (Some (ErrKube e'), w2)
                | (Inr _, w2) \<Rightarrow> (None, w2))
          else (Some (ErrKube e), w1)
      | (Inr current, w1) \<Rightarrow>
          (case rc_Update rc namespace
                  (current\<lparr>ob_Spec := ob_Spec desired,
                           ob_Meta := (ob_Meta current)\<lparr>om_Labels := om_Labels (ob_Meta desired)\<rparr>\<rparr>) w1 of
             (Inl e', w2) \<Rightarrow> (Some (ErrKube e'), w2)
           | (Inr _, w2) \<Rightarrow> (None, w2)))"

definition new_object :: "string \<Rightarrow> string \<Rightarrow> string \<Rightarrow> 's \<Rightarrow> 's kobject" where
  "new_object namespace name flowName spec =
     \<lparr>ob_Meta = \<lparr>om_Name = name, om_Namespace = namespace, om_Labels = [(flowLabelKey, flowName)], om_Rest = ''''\<rparr>,
      ob_Spec = spec, ob_Status = ''''\<rparr>"

definition applyConfigMap ::
  "config_codec \<Rightarrow> 'w kube_client \<Rightarrow> string \<Rightarrow> string \<Rightarrow> FlowSpec \<Rightarrow> 'w \<Rightarrow> (string \<times> runtime_error option) \<times> 'w" where
  "applyConfigMap cc client namespace name spec w =
     (case cc_protojson cc spec of
        Inl e \<Rightarrow> (('''', Some (ErrMarshalSpec e)), w)
      | Inr payload \<Rightarrow>
          (case cc_JSONToYAML cc payload of
             Inl e \<Rightarrow> (('''', Some (ErrMarshalYaml e)), w)
           | Inr yamlPayload \<Rightarrow>
               (let checksumValue = EncodeToString (cc_Sum256 cc yamlPayload);
                    desired = new_object namespace name (fs_Name spec) [(runtimeConfigKey, yamlPayload)]
                in case apply_object (kc_ConfigMaps client) namespace name desired w of
                     (err, w') \<Rightarrow> ((checksumValue, err), w'))))"

definition applyDeployment ::
  "'w kube_client \<Rightarrow> string \<Rightarrow> string \<Rightarrow> string \<Rightarrow> string \<Rightarrow> string \<Rightarrow> PullPolicy \<Rightarrow> string \<Rightarrow> bool \<Rightarrow> string
     \<Rightarrow> Resources option \<Rightarrow> KubernetesOptions option \<Rightarrow> go_map \<Rightarrow> 'w \<Rightarrow> (string \<times> runtime_error option) \<times> 'w" where
  "applyDeployment client namespace flowName name configMapName img imagePullPolicy configChecksum
     observabilityEnabled otelEndpoint resources options env w =
     (let template = applyKubernetesOptions
            (applyResourceIntent
               (pod_template flowName configMapName img imagePullPolicy configChecksum observabilityEnabled
                  otelEndpoint RestartPolicyUnset env)
               resources)
            options;
          desired = new_object namespace name flowName
            \<lparr>dp_Replicas = Some 1, dp_MatchLabels = [(flowLabelKey, flowName)], dp_Template = template\<rparr>
      in case apply_object (kc_Deployments client) namespace name desired w of (err, w') \<Rightarrow> ((name, err), w'))"

definition applyDaemonSet ::
  "'w kube_client \<Rightarrow> string \<Rightarrow> string \<Rightarrow> string \<Rightarrow> string \<Rightarrow> string \<Rightarrow> PullPolicy \<Rightarrow> string \<Rightarrow> bool \<Rightarrow> string
     \<Rightarrow> Resources option \<Rightarrow> KubernetesOptions option \<Rightarrow> go_map \<Rightarrow> 'w \<Rightarrow> (string \<times> runtime_error option) \<times> 'w" where
  "applyDaemonSet client namespace flowName name configMapName img imagePullPolicy configChecksum
     observabilityEnabled otelEndpoint resources options env w =
     (let template = applyKubernetesOptions
            (applyResourceIntent
               (pod_template flowName configMapName img imagePullPolicy configChecksum observabilityEnabled
                  otelEndpoint RestartPolicyUnset env)
               resources)
            options;
          desired = new_object namespace name flowName
            \<lparr>ds_MatchLabels = [(flowLabelKey, flowName)], ds_Template = template\<rparr>
      in case apply_object (kc_DaemonSets client) namespace name desired w of (err, w') \<Rightarrow> ((name, err), w'))"

text \<open>A job that exists is left as it is.\<close>

definition applyJob ::
  "'w kube_client \<Rightarrow> string \<Rightarrow> FlowSpec \<Rightarrow> string \<Rightarrow> string \<Rightarrow> PullPolicy \<Rightarrow> string \<Rightarrow> bool \<Rightarrow> string
     \<Rightarrow> Resources option \<Rightarrow> 'w \<Rightarrow> (string \<times> runtime_error option) \<times> 'w" where
  "applyJob client namespace spec configMapName img imagePullPolicy configChecksum observabilityEnabled otelEndpoint
     resources w =
     (let name = fs_Name spec;
          template = runtimePodTemplate name configMapName img imagePullPolicy configChecksum observabilityEnabled
            otelEndpoint (restartPolicyFromSpec (Some spec)) resources (GetKubernetesOptions (Some spec)) (GetEnv (Some spec));
          desired = new_object namespace name name \<lparr>js_Template = template\<rparr>
      in case rc_Get (kc_Jobs client) namespace name w of
           (Inl e, w1) \<Rightarrow>
             if IsNotFound e
             then (case rc_Create (kc_Jobs client) namespace desired w1 of
                     (Inl e', w2) \<Rightarrow> ((name, Some (ErrKube e')), w2)
                   | (Inr _, w2) \<Rightarrow> ((name, None), w2))
             else ((name, Some (ErrKube e)), w1)
         | (Inr _, w1) \<Rightarrow> ((name, None), w1))"

definition cron_job_spec :: "KubernetesCronOptions \<Rightarrow> PodTemplateSpec \<Rightarrow> CronJobSpec" where
  "cron_job_spec cron template =
     (let s0 = \<lparr>cj_Schedule = GetSchedule (Some cron), cj_TimeZone = None, cj_Suspend = None,
                cj_StartingDeadlineSeconds = None, cj_ConcurrencyPolicy = ConcurrencyUnset,
                cj_SuccessfulJobsHistoryLimit = None, cj_FailedJobsHistoryLimit = None,
                cj_JobTemplate = \<lparr>js_Template = template\<rparr>\<rparr>;
          s1 = (if co_TimeZone cron \<noteq> None then s0\<lparr>cj_TimeZone := co_TimeZone cron\<rparr> else s0);
          s2 = (if co_Suspend cron \<noteq> None then s1\<lparr>cj_Suspend := co_Suspend cron\<rparr> else s1);
          s3 = (if co_StartingDeadlineSeconds cron \<noteq> None
                then s2\<lparr>cj_StartingDeadlineSeconds := co_StartingDeadlineSeconds cron\<rparr> else s2);
          s4 = (if co_SuccessfulJobsHistoryLimit cron \<noteq> None
                then s3\<lparr>cj_SuccessfulJobsHistoryLimit := co_SuccessfulJobsHistoryLimit cron\<rparr> else s3);
          s5 = (if co_FailedJobsHistoryLimit cron \<noteq> None
                then s4\<lparr>cj_FailedJobsHistoryLimit := co_FailedJobsHistoryLimit cron\<rparr> else s4)
      in if co_ConcurrencyPolicy cron \<noteq> CRON_CONCURRENCY_POLICY_UNSPECIFIED
         then s5\<lparr>cj_ConcurrencyPolicy := cronConcurrencyPolicyFromSpec (co_ConcurrencyPolicy cron)\<rparr>
         else s5)"

definition applyCronJob ::
  "'w kube_client \<Rightarrow> string \<Rightarrow> FlowSpec \<Rightarrow> string \<Rightarrow> string \<Rightarrow> PullPolicy \<Rightarrow> string \<Rightarrow> bool \<Rightarrow> string
     \<Rightarrow> Resources option \<Rightarrow> KubernetesCronOptions \<Rightarrow> 'w \<Rightarrow> (string \<times> runtime_error option) \<times> 'w" where
  "applyCronJob client namespace spec configMapName img imagePullPolicy configChecksum observabilityEnabled otelEndpoint
     resources cron w =
     (let name = fs_Name spec;
          template = runtimePodTemplate name configMapName img imagePullPolicy configChecksum observabilityEnabled
            otelEndpoint (restartPolicyFromSpec (Some spec)) resources (GetKubernetesOptions (Some spec)) (GetEnv (Some spec));
          desired = new_object namespace name name (cron_job_spec cron template)
      in case apply_object (kc_CronJobs client) namespace name desired w of (err, w') \<Rightarrow> ((name, err), w'))"

section \<open>The runtime of a flow\<close>

definition runtime_image :: "FlowSpec \<Rightarrow> string" where
  "runtime_image spec =
     (case fs_Kubernetes spec of
        None \<Rightarrow> ''''
      | Some k \<Rightarrow> (case ks_Image k of None \<Rightarrow> '''' | Some img \<Rightarrow> img))"

definition apply_workload ::
  "'w kube_client \<Rightarrow> string \<Rightarrow> FlowSpec \<Rightarrow> string \<Rightarrow> PullPolicy \<Rightarrow> string \<Rightarrow> bool \<Rightarrow> string
     \<Rightarrow> 'w \<Rightarrow> (string \<times> runtime_error option) \<times> 'w" where
  "apply_workload client namespace sp configMapName imagePullPolicy configChecksum observabilityEnabled otelEndpoint w =
     (let img = runtime_image sp;
          mode = (case fs_Execution sp of None \<Rightarrow> EXECUTION_MODE_STREAMING | Some ex \<Rightarrow> ex_Mode ex);
          resourceIntent = (case fs_Kubernetes sp of None \<Rightarrow> None | Some k \<Rightarrow> ks_Resources k);
          options = GetKubernetesOptions (Some sp);
          workloadName = fs_Name sp @ ''-runtime'';
          deployment = applyDeployment client namespace (fs_Name sp) workloadName configMapName img imagePullPolicy
            configChecksum observabilityEnabled otelEndpoint resourceIntent options (GetEnv (Some sp))
      in case mode of
           EXECUTION_MODE_JOB \<Rightarrow>
             (case Option.bind options ko_Cron of
                Some cron \<Rightarrow>
                  if co_Schedule cron \<noteq> ''''
                  then applyCronJob client namespace sp configMapName img imagePullPolicy configChecksum
                         observabilityEnabled otelEndpoint resourceIntent cron w
                  else applyJob client namespace sp configMapName img imagePullPolicy configChecksum
                         observabilityEnabled otelEndpoint resourceIntent w
              | None \<Rightarrow> applyJob client namespace sp configMapName img imagePullPolicy configChecksum
                         observabilityEnabled otelEndpoint resourceIntent w)
         | EXECUTION_MODE_STREAMING \<Rightarrow>
             (case options of
                Some opts \<Rightarrow>
                  if ko_StreamingWorkloadKind opts = STREAMING_WORKLOAD_KIND_DAEMONSET
                  then applyDaemonSet client namespace (fs_Name sp) workloadName configMapName img imagePullPolicy
                         configChecksum observabilityEnabled otelEndpoint resourceIntent options (GetEnv (Some sp)) w
                  else deployment w
              | None \<Rightarrow> deployment w)
         | _ \<Rightarrow> deployment w)"

definition ensureRuntime ::
  "config_codec \<Rightarrow> 'w kube_client option \<Rightarrow> string \<Rightarrow> FlowSpec option \<Rightarrow> PullPolicy \<Rightarrow> bool \<Rightarrow> string
     \<Rightarrow> 'w \<Rightarrow> (string \<times> runtime_error option) \<times> 'w" where
  "ensureRuntime cc client namespace spec imagePullPolicy observabilityEnabled otelEndpoint w =
     (case client of
        None \<Rightarrow> (('''', Some ErrClientRequired), w)
      | Some kc \<Rightarrow>
          (case spec of
             None \<Rightarrow> (('''', Some ErrFlowSpecRequired), w)
           | Some sp \<Rightarrow>
               if fs_Name sp = '''' then (('''', Some ErrRuntimeFlowName), w)
               else if runtime_image sp = '''' then (('''', Some (ErrImageRequired (fs_Name sp))), w)
               else (let configMapName = fs_Name sp @ ''-config''
                     in case applyConfigMap cc kc namespace configMapName sp w of
                          ((_, Some e), w1) \<Rightarrow> (('''', Some e), w1)
                        | ((configChecksum, None), w1) \<Rightarrow>
                            apply_workload kc namespace sp configMapName imagePullPolicy configChecksum
                              observabilityEnabled otelEndpoint w1)))"

section \<open>Deleting the runtime\<close>

definition delete_object ::
  "('s, 'w) resource_client \<Rightarrow> kind \<Rightarrow> string \<Rightarrow> string \<Rightarrow> delete_error list \<times> 'w \<Rightarrow> delete_error list \<times> 'w" where
  "delete_object rc kd namespace name st =
     (case st of (errs, w) \<Rightarrow>
        (case rc_Delete rc namespace name w of
           (Inl e, w') \<Rightarrow> (if IsNotFound e then errs else errs @ [DeleteFailed kd name e], w')
         | (Inr _, w') \<Rightarrow> (errs, w')))"

definition deleteRuntimeResources ::
  "'w kube_client option \<Rightarrow> string \<Rightarrow> string \<Rightarrow> 'w \<Rightarrow> runtime_error option \<times> 'w" where
  "deleteRuntimeResources client namespace flowName w =
     (case client of
        None \<Rightarrow> (Some ErrDeleteClientRequired, w)
      | Some kc \<Rightarrow>
          if flowName = '''' then (Some ErrDeleteFlowName, w)
          else (let deploymentName = flowName @ ''-runtime'';
                    configMapName = flowName @ ''-config'';
                    st1 = delete_object (kc_Deployments kc) DeploymentKind namespace deploymentName ([], w);
                    st2 = delete_object (kc_DaemonSets kc) DaemonSetKind namespace deploymentName st1;
                    st3 = delete_object (kc_Jobs kc) JobKind namespace flowName st2;
                    st4 = delete_object (kc_CronJobs kc) CronJobKind namespace flowName st3
                in case delete_object (kc_ConfigMaps kc) ConfigMapKind namespace configMapName st4 of
                     (errs, w') \<Rightarrow> (if errs \<noteq> [] then Some (ErrJoined errs) else None, w')))"

section \<open>Maps with a protected key\<close>

lemma set_entries_protected: "map_of (set_entries p m xs) p = map_of m p"
  by (induction p m xs rule: set_entries.induct) auto

lemma set_entries_other:
  "wf_map xs \<Longrightarrow> k \<noteq> p \<Longrightarrow>
     map_of (set_entries p m xs) k = (case map_of xs k of Some v \<Rightarrow> Some v | None \<Rightarrow> map_of m k)"
  by (induction p m xs rule: set_entries.induct)
     (auto simp: wf_map_def map_of_eq_None_iff [symmetric] split: option.splits)

section \<open>The metadata of the pods\<close>

definition opt_map :: "(KubernetesOptions \<Rightarrow> go_map) \<Rightarrow> KubernetesOptions option \<Rightarrow> go_map" where
  "opt_map f options = (case options of None \<Rightarrow> [] | Some opts \<Rightarrow> f opts)"

lemma applyKubernetesOptions_meta:
  "pt_Labels (applyKubernetesOptions t options) = set_entries flowLabelKey (pt_Labels t) (opt_map ko_PodLabels options)"
  "pt_Annotations (applyKubernetesOptions t options) =
     set_entries runtimeConfigHashKey (pt_Annotations t) (opt_map ko_PodAnnotations options)"
  by (auto simp: applyKubernetesOptions_def Let_def opt_map_def split: option.splits)

lemma applyKubernetesOptions_containers [simp]:
  "ps_Containers (pt_Spec (applyKubernetesOptions t options)) = ps_Containers (pt_Spec t)"
  "ps_Volumes (pt_Spec (applyKubernetesOptions t options)) = ps_Volumes (pt_Spec t)"
  "ps_RestartPolicy (pt_Spec (applyKubernetesOptions t options)) = ps_RestartPolicy (pt_Spec t)"
  by (auto simp: applyKubernetesOptions_def Let_def split: option.splits)

definition profile_of :: "Resources option \<Rightarrow> string option" where
  "profile_of resources =
     (case resources of None \<Rightarrow> None
      | Some r \<Rightarrow> (case rs_Profile r of None \<Rightarrow> None | Some p \<Rightarrow> if p = '''' then None else Some p))"

lemma applyResourceIntent_meta:
  "pt_Labels (applyResourceIntent t resources) = pt_Labels t"
  "pt_Annotations (applyResourceIntent t resources) =
     (case profile_of resources of None \<Rightarrow> pt_Annotations t
      | Some p \<Rightarrow> AList.update resourceProfileKey p (pt_Annotations t))"
  by (auto simp: applyResourceIntent_def Let_def profile_of_def split: option.splits list.splits)

lemma key_literals [simp]: "resourceProfileKey \<noteq> runtimeConfigHashKey" "runtimeConfigHashKey \<noteq> resourceProfileKey"
  by (simp_all add: resourceProfileKey_def runtimeConfigHashKey_def)

section \<open>The environment\<close>

lemma base_env_names: "distinct (map ev_Name (base_env obs otel))"
  by (cases obs) (auto simp: base_env_def)

text \<open>The part of the environment that comes from the flow.\<close>

definition extra_env :: "bool \<Rightarrow> string \<Rightarrow> go_map \<Rightarrow> EnvVar list" where
  "extra_env obs otel extra =
     map (\<lambda>key. \<lparr>ev_Name = key, ev_Value = (case map_of extra key of None \<Rightarrow> '''' | Some v \<Rightarrow> v)\<rparr>)
       (filter (\<lambda>key. key \<notin> ev_Name ` set (base_env obs otel)) (sort (map fst extra)))"

lemma runtimeEnv_split: "runtimeEnv obs otel extra = base_env obs otel @ extra_env obs otel extra"
  by (simp add: runtimeEnv_def extra_env_def Let_def image_image)

lemma extra_env_set:
  assumes "wf_map extra"
  shows "set (extra_env obs otel extra) =
    {\<lparr>ev_Name = k, ev_Value = v\<rparr> | k v. map_of extra k = Some v \<and> k \<notin> ev_Name ` set (base_env obs otel)}"
proof -
  have "map_of extra k \<noteq> None \<longleftrightarrow> k \<in> fst ` set extra" for k by (simp add: map_of_eq_None_iff)
  then show ?thesis unfolding extra_env_def
    by (auto simp: image_iff split: option.splits) (metis fst_conv option.distinct(1) weak_map_of_SomeI)+
qed

section \<open>Applying one object\<close>

definition applied ::
  "('s \<Rightarrow> 's \<Rightarrow> bool) \<Rightarrow> ('s kobject \<Rightarrow> kobj) \<Rightarrow> kkey \<Rightarrow> 's kobject \<Rightarrow> cluster \<Rightarrow> cluster \<Rightarrow> bool" where
  "applied fill mk k d c c' \<longleftrightarrow> (\<exists>ob. fill (ob_Spec d) (ob_Spec ob) \<and> om_Labels (ob_Meta ob) = om_Labels (ob_Meta d)
     \<and> c' = c(k \<mapsto> mk ob))"

context kube_resource
begin

lemma apply_object_cases:
  assumes "apply_object rc ns n d w = (e, w')" "om_Name (ob_Meta d) = n"
  shows "(e \<noteq> None \<and> view w' = view w) \<or> applied fill mk (kd, ns, n) d (view w) (view w')"
proof -
  obtain g w1 where g: "rc_Get rc ns n w = (g, w1)" by fastforce
  have v1: "view w1 = view w" using kGet [OF g] by simp
  show ?thesis
  proof (cases g)
    case (Inl x)
    obtain c w2 where c: "rc_Create rc ns d w1 = (c, w2)" by fastforce
    from assms Inl g c v1 kCreate [OF c] show ?thesis
      by (cases c; cases "IsNotFound x") (auto simp: apply_object_def applied_def stored_as_def)
  next
    case (Inr cur)
    define new where "new = cur\<lparr>ob_Spec := ob_Spec d, ob_Meta := (ob_Meta cur)\<lparr>om_Labels := om_Labels (ob_Meta d)\<rparr>\<rparr>"
    obtain c w2 where c: "rc_Update rc ns new w1 = (c, w2)" by fastforce
    have nm: "om_Name (ob_Meta new) = n" using kGet [OF g] Inr by (simp add: new_def)
    have e: "w' = w2" "e = None \<longleftrightarrow> \<not> isl c"
      using assms Inr g c by (auto simp: apply_object_def new_def split: sum.splits)
    from kUpdate [OF c] show ?thesis
    proof
      assume "isl c \<and> view w2 = view w1"
      then show ?thesis using e v1 by auto
    next
      assume "\<exists>ob'. stored_as fill new ob' \<and> view w1 (kd, ns, om_Name (ob_Meta new)) \<noteq> None
           \<and> view w2 = (view w1)((kd, ns, om_Name (ob_Meta new)) \<mapsto> mk ob')"
      then show ?thesis using e v1 nm by (auto simp: applied_def stored_as_def new_def)
    qed
  qed
qed

lemma delete_object_cases:
  assumes "delete_object rc kd ns n (errs, w) = (errs', w')"
  shows "(errs' = errs \<and> view w' = (view w)((kd, ns, n) := None))
    \<or> ((\<exists>m. errs' = errs @ [DeleteFailed kd n (KOther m)]) \<and> (view w' = view w \<or> view w' = (view w)((kd, ns, n) := None)))"
proof -
  obtain d w1 where d: "rc_Delete rc ns n w = (d, w1)" by fastforce
  have "(view w)((kd, ns, n) := None) = view w" if "view w (kd, ns, n) = None" using that by auto
  with kDelete [OF d] d assms show ?thesis
    by (cases d; cases "projl d") (auto simp: delete_object_def)
qed

end

section \<open>The workload of a flow\<close>

text \<open>The abstract choice of the workload: its kind, its name and the pods it runs.\<close>

definition exec_mode :: "FlowSpec \<Rightarrow> ExecutionMode" where
  "exec_mode sp = (case fs_Execution sp of None \<Rightarrow> EXECUTION_MODE_STREAMING | Some ex \<Rightarrow> ex_Mode ex)"

definition cron_of :: "FlowSpec \<Rightarrow> KubernetesCronOptions option" where
  "cron_of sp =
     (case fs_KubernetesOptions sp of
        None \<Rightarrow> None
      | Some opts \<Rightarrow> (case ko_Cron opts of None \<Rightarrow> None
          | Some cron \<Rightarrow> if co_Schedule cron = '''' then None else Some cron))"

definition wants_daemonset :: "FlowSpec \<Rightarrow> bool" where
  "wants_daemonset sp \<longleftrightarrow> exec_mode sp = EXECUTION_MODE_STREAMING
     \<and> map_option ko_StreamingWorkloadKind (fs_KubernetesOptions sp) = Some STREAMING_WORKLOAD_KIND_DAEMONSET"

definition workload_kind :: "FlowSpec \<Rightarrow> kind" where
  "workload_kind sp =
     (if exec_mode sp = EXECUTION_MODE_JOB then (if cron_of sp \<noteq> None then CronJobKind else JobKind)
      else if wants_daemonset sp then DaemonSetKind else DeploymentKind)"

definition workload_name :: "FlowSpec \<Rightarrow> string" where
  "workload_name sp = (if exec_mode sp = EXECUTION_MODE_JOB then fs_Name sp else fs_Name sp @ ''-runtime'')"

definition workload_pods :: "FlowSpec \<Rightarrow> PullPolicy \<Rightarrow> string \<Rightarrow> bool \<Rightarrow> string \<Rightarrow> PodTemplateSpec" where
  "workload_pods sp pol checksum obs otel =
     runtimePodTemplate (fs_Name sp) (fs_Name sp @ ''-config'') (runtime_image sp) pol checksum obs otel
       (if exec_mode sp = EXECUTION_MODE_JOB then restartPolicyFromSpec (Some sp) else RestartPolicyUnset)
       (case fs_Kubernetes sp of None \<Rightarrow> None | Some k \<Rightarrow> ks_Resources k) (fs_KubernetesOptions sp) (fs_Env sp)"

text \<open>
  What the workload's place in the cluster holds after a successful application, from what it held:
  the object for the pods \<open>t\<close>, with the server's defaults, except that a job that existed is kept.
\<close>

definition runs ::
  "(DeploymentSpec \<Rightarrow> DeploymentSpec \<Rightarrow> bool) \<Rightarrow> (DaemonSetSpec \<Rightarrow> DaemonSetSpec \<Rightarrow> bool) \<Rightarrow> (JobSpec \<Rightarrow> JobSpec \<Rightarrow> bool) \<Rightarrow> (CronJobSpec \<Rightarrow> CronJobSpec \<Rightarrow> bool)
     \<Rightarrow> FlowSpec \<Rightarrow> PodTemplateSpec \<Rightarrow> kobj option \<Rightarrow> kobj \<Rightarrow> bool" where
  "runs fill_dp fill_ds fill_jb fill_cj sp t old new \<longleftrightarrow>
     (case workload_kind sp of
        DeploymentKind \<Rightarrow> \<exists>ob. new = KDeployment ob
          \<and> fill_dp \<lparr>dp_Replicas = Some 1, dp_MatchLabels = [(flowLabelKey, fs_Name sp)], dp_Template = t\<rparr> (ob_Spec ob)
      | DaemonSetKind \<Rightarrow> \<exists>ob. new = KDaemonSet ob
          \<and> fill_ds \<lparr>ds_MatchLabels = [(flowLabelKey, fs_Name sp)], ds_Template = t\<rparr> (ob_Spec ob)
      | JobKind \<Rightarrow> old = Some new \<or> old = None \<and> (\<exists>ob. new = KJob ob \<and> fill_jb \<lparr>js_Template = t\<rparr> (ob_Spec ob))
      | CronJobKind \<Rightarrow> \<exists>ob cron. cron_of sp = Some cron \<and> new = KCronJob ob \<and> fill_cj (cron_job_spec cron t) (ob_Spec ob)
      | ConfigMapKind \<Rightarrow> False)"

definition wl_key :: "string \<Rightarrow> FlowSpec \<Rightarrow> kkey" where
  "wl_key ns sp = (workload_kind sp, ns, workload_name sp)"

definition cm_key :: "string \<Rightarrow> string \<Rightarrow> kkey" where
  "cm_key ns n = (ConfigMapKind, ns, n @ ''-config'')"

definition config_yaml :: "config_codec \<Rightarrow> FlowSpec \<Rightarrow> string option" where
  "config_yaml cc sp =
     (case cc_protojson cc sp of Inl _ \<Rightarrow> None
      | Inr payload \<Rightarrow> (case cc_JSONToYAML cc payload of Inl _ \<Rightarrow> None | Inr yaml \<Rightarrow> Some yaml))"

lemma new_object_sels [simp]:
  "om_Name (ob_Meta (new_object ns n f s)) = n" "ob_Spec (new_object ns n f s) = s"
  "om_Labels (ob_Meta (new_object ns n f s)) = [(flowLabelKey, f)]"
  by (simp_all add: new_object_def)

lemma apply_workload_alt:
  "apply_workload kc ns sp cmn pol chk obs otel w =
     (let res = (case fs_Kubernetes sp of None \<Rightarrow> None | Some k \<Rightarrow> ks_Resources k)
      in if exec_mode sp = EXECUTION_MODE_JOB
         then (case cron_of sp of
                 Some cron \<Rightarrow> applyCronJob kc ns sp cmn (runtime_image sp) pol chk obs otel res cron w
               | None \<Rightarrow> applyJob kc ns sp cmn (runtime_image sp) pol chk obs otel res w)
         else if wants_daemonset sp
         then applyDaemonSet kc ns (fs_Name sp) (fs_Name sp @ ''-runtime'') cmn (runtime_image sp) pol chk obs otel res
                (fs_KubernetesOptions sp) (fs_Env sp) w
         else applyDeployment kc ns (fs_Name sp) (fs_Name sp @ ''-runtime'') cmn (runtime_image sp) pol chk obs otel res
                (fs_KubernetesOptions sp) (fs_Env sp) w)"
  by (cases "fs_KubernetesOptions sp")
     (auto simp: apply_workload_def Let_def exec_mode_def cron_of_def wants_daemonset_def
       split: option.splits ExecutionMode.splits)

context kube
begin

lemma applyJob_cases:
  assumes "applyJob kc ns sp cmn img pol chk obs otel res w = ((nm, e), w')"
  shows "nm = fs_Name sp \<and> ((e \<noteq> None \<and> view w' = view w) \<or> (e = None \<and> view w' = view w \<and> view w (JobKind, ns, fs_Name sp) \<noteq> None)
    \<or> (\<exists>ob. view w (JobKind, ns, fs_Name sp) = None \<and> view w' = (view w)((JobKind, ns, fs_Name sp) \<mapsto> KJob ob)
         \<and> fill_jb \<lparr>js_Template = runtimePodTemplate (fs_Name sp) cmn img pol chk obs otel
              (restartPolicyFromSpec (Some sp)) res (fs_KubernetesOptions sp) (fs_Env sp)\<rparr> (ob_Spec ob)))"
proof -
  define d where "d = new_object ns (fs_Name sp) (fs_Name sp) \<lparr>js_Template = runtimePodTemplate (fs_Name sp) cmn img pol chk obs otel
              (restartPolicyFromSpec (Some sp)) res (fs_KubernetesOptions sp) (fs_Env sp)\<rparr>"
  obtain g w1 where g: "rc_Get (kc_Jobs kc) ns (fs_Name sp) w = (g, w1)" by fastforce
  obtain c w2 where c: "rc_Create (kc_Jobs kc) ns d w1 = (c, w2)" by fastforce
  have d: "om_Name (ob_Meta d) = fs_Name sp" "ob_Spec d = \<lparr>js_Template = runtimePodTemplate (fs_Name sp) cmn img pol chk obs otel
              (restartPolicyFromSpec (Some sp)) res (fs_KubernetesOptions sp) (fs_Env sp)\<rparr>"
    by (simp_all add: d_def)
  show ?thesis
  proof (cases g)
    case (Inl x)
    show ?thesis
    proof (cases "IsNotFound x")
      case True
      with assms Inl g c have "nm = fs_Name sp" "w' = w2" "e = None \<longleftrightarrow> \<not> isl c"
        by (auto simp: applyJob_def Let_def d_def split: sum.splits)
      with jb.kCreate [OF c] jb.kGet [OF g] d show ?thesis by (auto simp: stored_as_def)
    next
      case False
      with assms Inl g jb.kGet [OF g] show ?thesis by (auto simp: applyJob_def Let_def)
    qed
  next
    case (Inr x)
    with assms g jb.kGet [OF g] show ?thesis by (auto simp: applyJob_def Let_def)
  qed
qed

lemma apply_workload_cases:
  assumes "apply_workload kc ns sp (fs_Name sp @ ''-config'') pol chk obs otel w = ((nm, e), w')"
  shows "nm = workload_name sp \<and> ((e \<noteq> None \<and> view w' = view w) \<or>
    (\<exists>new. runs fill_dp fill_ds fill_jb fill_cj sp (workload_pods sp pol chk obs otel) (view w (wl_key ns sp)) new
       \<and> view w' = (view w)(wl_key ns sp \<mapsto> new)))"
proof (cases "workload_kind sp")
  case DeploymentKind
  then have k: "exec_mode sp \<noteq> EXECUTION_MODE_JOB" "\<not> wants_daemonset sp" by (auto simp: workload_kind_def split: if_splits)
  obtain x w1 where "apply_object (kc_Deployments kc) ns (fs_Name sp @ ''-runtime'')
      (new_object ns (fs_Name sp @ ''-runtime'') (fs_Name sp)
         \<lparr>dp_Replicas = Some 1, dp_MatchLabels = [(flowLabelKey, fs_Name sp)], dp_Template = workload_pods sp pol chk obs otel\<rparr>) w = (x, w1)"
    by fastforce
  from this dp.apply_object_cases [OF this] assms k DeploymentKind show ?thesis
    by (auto simp: apply_workload_alt applyDeployment_def Let_def workload_pods_def runtimePodTemplate_def runs_def
        wl_key_def workload_name_def applied_def)
next
  case DaemonSetKind
  then have k: "exec_mode sp \<noteq> EXECUTION_MODE_JOB" "wants_daemonset sp" by (auto simp: workload_kind_def split: if_splits)
  obtain x w1 where "apply_object (kc_DaemonSets kc) ns (fs_Name sp @ ''-runtime'')
      (new_object ns (fs_Name sp @ ''-runtime'') (fs_Name sp)
         \<lparr>ds_MatchLabels = [(flowLabelKey, fs_Name sp)], ds_Template = workload_pods sp pol chk obs otel\<rparr>) w = (x, w1)"
    by fastforce
  from this ds.apply_object_cases [OF this] assms k DaemonSetKind show ?thesis
    by (auto simp: apply_workload_alt applyDaemonSet_def Let_def workload_pods_def runtimePodTemplate_def runs_def
        wl_key_def workload_name_def applied_def)
next
  case JobKind
  then have k: "exec_mode sp = EXECUTION_MODE_JOB" "cron_of sp = None" by (auto simp: workload_kind_def split: if_splits)
  have "applyJob kc ns sp (fs_Name sp @ ''-config'') (runtime_image sp) pol chk obs otel
      (case fs_Kubernetes sp of None \<Rightarrow> None | Some k \<Rightarrow> ks_Resources k) w = ((nm, e), w')"
    using assms k by (simp add: apply_workload_alt Let_def)
  from applyJob_cases [OF this] k JobKind show ?thesis
    by (auto simp: runs_def wl_key_def workload_name_def workload_pods_def fun_upd_idem)
next
  case CronJobKind
  then obtain cron where k: "exec_mode sp = EXECUTION_MODE_JOB" "cron_of sp = Some cron"
    by (auto simp: workload_kind_def split: if_splits)
  obtain x w1 where "apply_object (kc_CronJobs kc) ns (fs_Name sp)
      (new_object ns (fs_Name sp) (fs_Name sp) (cron_job_spec cron (workload_pods sp pol chk obs otel))) w = (x, w1)"
    by fastforce
  from this cj.apply_object_cases [OF this] assms k CronJobKind show ?thesis
    by (auto simp: apply_workload_alt applyCronJob_def Let_def workload_pods_def runs_def
        wl_key_def workload_name_def applied_def)
qed (auto simp: workload_kind_def split: if_splits)

lemma applyConfigMap_cases:
  assumes "applyConfigMap cc kc ns nm sp w = ((chk, e), w')"
  shows "(e \<noteq> None \<and> view w' = view w)
    \<or> (\<exists>yaml ob. config_yaml cc sp = Some yaml \<and> chk = EncodeToString (cc_Sum256 cc yaml)
         \<and> ob_Spec ob = [(runtimeConfigKey, yaml)] \<and> view w' = (view w)((ConfigMapKind, ns, nm) \<mapsto> KConfigMap ob))"
proof (cases "config_yaml cc sp")
  case None
  with assms show ?thesis by (auto simp: applyConfigMap_def config_yaml_def split: sum.splits)
next
  case (Some yaml)
  then obtain payload where p: "cc_protojson cc sp = Inr payload" "cc_JSONToYAML cc payload = Inr yaml"
    by (auto simp: config_yaml_def split: sum.splits)
  obtain x w1 where a: "apply_object (kc_ConfigMaps kc) ns nm
      (new_object ns nm (fs_Name sp) [(runtimeConfigKey, yaml)]) w = (x, w1)" by fastforce
  from cm.apply_object_cases [OF a] assms p a Some show ?thesis
    by (auto simp: applyConfigMap_def Let_def applied_def)
qed

end

text \<open>The objects that belong to a flow.\<close>

definition runtime_keys :: "string \<Rightarrow> string \<Rightarrow> kkey set" where
  "runtime_keys ns n =
     {(DeploymentKind, ns, n @ ''-runtime''), (DaemonSetKind, ns, n @ ''-runtime''), (JobKind, ns, n),
      (CronJobKind, ns, n), cm_key ns n}"

lemma runtime_keys_disjoint: "n \<noteq> n' \<Longrightarrow> runtime_keys ns n \<inter> runtime_keys ns n' = {}"
  by (auto simp: runtime_keys_def cm_key_def)

lemma wl_key_in: "wl_key ns sp \<in> runtime_keys ns (fs_Name sp)" "cm_key ns n \<in> runtime_keys ns n"
  by (auto simp: runtime_keys_def wl_key_def workload_kind_def workload_name_def wants_daemonset_def cm_key_def)

lemma wl_key_not_cm [simp]: "wl_key ns sp \<noteq> cm_key ns n" "cm_key ns n \<noteq> wl_key ns sp"
  by (auto simp: wl_key_def cm_key_def workload_kind_def)

text \<open>The state of a flow's runtime: the config map of its spec and the workload with matching pods.\<close>

definition runtime_ready ::
  "(DeploymentSpec \<Rightarrow> DeploymentSpec \<Rightarrow> bool) \<Rightarrow> (DaemonSetSpec \<Rightarrow> DaemonSetSpec \<Rightarrow> bool) \<Rightarrow> (JobSpec \<Rightarrow> JobSpec \<Rightarrow> bool) \<Rightarrow> (CronJobSpec \<Rightarrow> CronJobSpec \<Rightarrow> bool)
     \<Rightarrow> config_codec \<Rightarrow> string \<Rightarrow> FlowSpec \<Rightarrow> PullPolicy \<Rightarrow> bool \<Rightarrow> string \<Rightarrow> cluster \<Rightarrow> cluster \<Rightarrow> bool" where
  "runtime_ready fill_dp fill_ds fill_jb fill_cj cc ns sp pol obs otel c c' \<longleftrightarrow>
     (\<exists>yaml cm new. config_yaml cc sp = Some yaml
        \<and> c' (cm_key ns (fs_Name sp)) = Some (KConfigMap cm) \<and> ob_Spec cm = [(runtimeConfigKey, yaml)]
        \<and> c' (wl_key ns sp) = Some new
        \<and> runs fill_dp fill_ds fill_jb fill_cj sp
            (workload_pods sp pol (EncodeToString (cc_Sum256 cc yaml)) obs otel) (c (wl_key ns sp)) new)
     \<and> (\<forall>k. k \<noteq> cm_key ns (fs_Name sp) \<and> k \<noteq> wl_key ns sp \<longrightarrow> c' k = c k)"

text \<open>
  One deletion of a sequence: it changes at most its own object, and if the object is still there
  the failure is recorded.
\<close>

definition deletes :: "string \<Rightarrow> kind \<times> string \<Rightarrow> delete_error list \<Rightarrow> delete_error list \<Rightarrow> cluster \<Rightarrow> cluster \<Rightarrow> bool" where
  "deletes ns km er er' c c' \<longleftrightarrow>
     (case km of (kd, m) \<Rightarrow> set er \<subseteq> set er' \<and> (\<forall>k. k \<noteq> (kd, ns, m) \<longrightarrow> c' k = c k)
        \<and> (c' (kd, ns, m) = None \<or> c' = c \<and> (\<exists>r. DeleteFailed kd m r \<in> set er')))"

fun deletes_all :: "string \<Rightarrow> (kind \<times> string) list \<Rightarrow> delete_error list \<Rightarrow> delete_error list \<Rightarrow> cluster \<Rightarrow> cluster \<Rightarrow> bool" where
  "deletes_all ns [] er er' c c' \<longleftrightarrow> er' = er \<and> c' = c"
| "deletes_all ns (s # ss) er er' c c' \<longleftrightarrow>
     (\<exists>er1 c1. deletes ns s er er1 c c1 \<and> deletes_all ns ss er1 er' c1 c')"

lemma deletes_all_outcome:
  "deletes_all ns ss er er' c c' \<Longrightarrow> set er \<subseteq> set er'
     \<and> (\<forall>k. k \<notin> (\<lambda>(kd, m). (kd, ns, m)) ` set ss \<longrightarrow> c' k = c k)
     \<and> (\<forall>k. c' k = c k \<or> c' k = None)
     \<and> (\<forall>(kd, m)\<in>set ss. c' (kd, ns, m) \<noteq> None \<longrightarrow> (\<exists>r. DeleteFailed kd m r \<in> set er'))"
proof (induction ss arbitrary: er c)
  case (Cons s ss)
  obtain kd m where s: "s = (kd, m)" by (cases s)
  from Cons.prems obtain er1 c1 where d: "deletes ns (kd, m) er er1 c c1" and r: "deletes_all ns ss er1 er' c1 c'"
    by (auto simp: s)
  note ih = Cons.IH [OF r]
  have own: "c' (kd, ns, m) \<noteq> None \<longrightarrow> (\<exists>r. DeleteFailed kd m r \<in> set er')"
  proof
    assume "c' (kd, ns, m) \<noteq> None"
    then have "c1 (kd, ns, m) \<noteq> None" using ih by metis
    then show "\<exists>r. DeleteFailed kd m r \<in> set er'" using d ih by (auto simp: deletes_def)
  qed
  have other: "k \<noteq> (kd, ns, m) \<Longrightarrow> c1 k = c k" and one: "c1 (kd, ns, m) = None \<or> c1 = c" for k
    using d unfolding deletes_def prod.case by blast+
  have ih1: "k \<notin> (\<lambda>(kd, m). (kd, ns, m)) ` set ss \<Longrightarrow> c' k = c1 k" for k using ih by blast
  have frame: "c1 k = c k \<or> c1 k = None" for k using other one by (cases "k = (kd, ns, m)") auto
  have "set er \<subseteq> set er'" using d ih by (auto simp: deletes_def)
  moreover have "\<forall>k. c' k = c k \<or> c' k = None" using ih frame by metis
  moreover have "c' k = c k" if "k \<notin> (\<lambda>(kd, m). (kd, ns, m)) ` set (s # ss)" for k
    using that ih1 [of k] other [of k] by (simp add: s)
  ultimately show ?case using ih own by (auto simp: s)
qed simp

context kube_resource
begin

lemma delete_object_deletes:
  assumes "delete_object rc kd ns n (errs, w) = (errs', w')"
  shows "deletes ns (kd, n) errs errs' (view w) (view w')"
  using delete_object_cases [OF assms] by (auto simp: deletes_def)

end

context kube
begin

text \<open>
  Every outcome of \<^verbatim>\<open>ensureRuntime\<close>: only the two objects of the flow change, nothing is removed,
  without an error the runtime is ready, and the workload is what it was or one that runs the spec.
\<close>

lemma ensureRuntime_cases:
  assumes "ensureRuntime cc (Some kc) ns (Some sp) pol obs otel w = ((nm, e), w')"
  shows "(\<forall>k. k \<noteq> cm_key ns (fs_Name sp) \<and> k \<noteq> wl_key ns sp \<longrightarrow> view w' k = view w k)
    \<and> (\<forall>k. view w k \<noteq> None \<longrightarrow> view w' k \<noteq> None)
    \<and> (e = None \<longrightarrow> nm = workload_name sp
         \<and> runtime_ready fill_dp fill_ds fill_jb fill_cj cc ns sp pol obs otel (view w) (view w'))
    \<and> (view w' (wl_key ns sp) = view w (wl_key ns sp)
       \<or> (\<exists>yaml new. config_yaml cc sp = Some yaml \<and> view w' (wl_key ns sp) = Some new
            \<and> runs fill_dp fill_ds fill_jb fill_cj sp
                (workload_pods sp pol (EncodeToString (cc_Sum256 cc yaml)) obs otel) (view w (wl_key ns sp)) new))"
proof (cases "fs_Name sp = '''' \<or> runtime_image sp = ''''")
  case True
  with assms show ?thesis by (auto simp: ensureRuntime_def split: if_splits)
next
  case False
  obtain chk x w1 where c: "applyConfigMap cc kc ns (fs_Name sp @ ''-config'') sp w = ((chk, x), w1)"
    by (metis prod.collapse)
  note cm = applyConfigMap_cases [OF c]
  show ?thesis
  proof (cases x)
    case (Some y)
    with assms False c have "w' = w1" "e = Some y" by (auto simp: ensureRuntime_def Let_def)
    with cm show ?thesis by (auto simp flip: cm_key_def)
  next
    case None
    with assms False c have a: "apply_workload kc ns sp (fs_Name sp @ ''-config'') pol chk obs otel w1 = ((nm, e), w')"
      by (auto simp: ensureRuntime_def Let_def)
    from cm None obtain yaml ob where o: "config_yaml cc sp = Some yaml" "chk = EncodeToString (cc_Sum256 cc yaml)"
      "ob_Spec ob = [(runtimeConfigKey, yaml)]" "view w1 = (view w)(cm_key ns (fs_Name sp) \<mapsto> KConfigMap ob)"
      by (auto simp: cm_key_def)
    from apply_workload_cases [OF a] have nm: "nm = workload_name sp"
      and out: "(e \<noteq> None \<and> view w' = view w1) \<or>
        (\<exists>new. runs fill_dp fill_ds fill_jb fill_cj sp (workload_pods sp pol chk obs otel) (view w1 (wl_key ns sp)) new
           \<and> view w' = (view w1)(wl_key ns sp \<mapsto> new))" by blast+
    have "view w1 (wl_key ns sp) = view w (wl_key ns sp)" by (simp add: o(4))
    with out nm o show ?thesis unfolding runtime_ready_def by (elim disjE exE conjE) auto
  qed
qed

lemma deleteRuntimeResources_cases:
  assumes d: "deleteRuntimeResources (Some kc) ns n w = (e, w')" and n: "n \<noteq> ''''"
  shows "(\<forall>k. k \<notin> runtime_keys ns n \<longrightarrow> view w' k = view w k)
    \<and> (\<forall>k. view w' k = view w k \<or> view w' k = None)
    \<and> (case e of None \<Rightarrow> \<forall>k\<in>runtime_keys ns n. view w' k = None
       | Some x \<Rightarrow> \<exists>errs. x = ErrJoined errs \<and> errs \<noteq> []
           \<and> (\<forall>(kd, ns', m)\<in>runtime_keys ns n. view w' (kd, ns', m) \<noteq> None \<longrightarrow> (\<exists>r. DeleteFailed kd m r \<in> set errs)))"
proof -
  obtain e1 w1 where s1: "delete_object (kc_Deployments kc) DeploymentKind ns (n @ ''-runtime'') ([], w) = (e1, w1)" by fastforce
  obtain e2 w2 where s2: "delete_object (kc_DaemonSets kc) DaemonSetKind ns (n @ ''-runtime'') (e1, w1) = (e2, w2)" by fastforce
  obtain e3 w3 where s3: "delete_object (kc_Jobs kc) JobKind ns n (e2, w2) = (e3, w3)" by fastforce
  obtain e4 w4 where s4: "delete_object (kc_CronJobs kc) CronJobKind ns n (e3, w3) = (e4, w4)" by fastforce
  obtain e5 w5 where s5: "delete_object (kc_ConfigMaps kc) ConfigMapKind ns (n @ ''-config'') (e4, w4) = (e5, w5)" by fastforce
  have e: "e = (if e5 \<noteq> [] then Some (ErrJoined e5) else None)" "w' = w5"
    using d n by (auto simp: deleteRuntimeResources_def Let_def s1 s2 s3 s4 s5 split: if_splits)
  define ss where "ss = [(DeploymentKind, n @ ''-runtime''), (DaemonSetKind, n @ ''-runtime''), (JobKind, n),
    (CronJobKind, n), (ConfigMapKind, n @ ''-config'')]"
  have "deletes ns (DeploymentKind, n @ ''-runtime'') [] e1 (view w) (view w1)"
    "deletes ns (DaemonSetKind, n @ ''-runtime'') e1 e2 (view w1) (view w2)"
    "deletes ns (JobKind, n) e2 e3 (view w2) (view w3)" "deletes ns (CronJobKind, n) e3 e4 (view w3) (view w4)"
    "deletes ns (ConfigMapKind, n @ ''-config'') e4 e5 (view w4) (view w5)"
    using dp.delete_object_deletes [OF s1] ds.delete_object_deletes [OF s2] jb.delete_object_deletes [OF s3]
      cj.delete_object_deletes [OF s4] cm.delete_object_deletes [OF s5] by blast+
  then have "deletes_all ns ss [] e5 (view w) (view w5)" unfolding ss_def deletes_all.simps by blast
  note out = deletes_all_outcome [OF this]
  have keys: "(\<lambda>(kd, m). (kd, ns, m)) ` set ss = runtime_keys ns n"
    by (auto simp: ss_def runtime_keys_def cm_key_def)
  have left: "\<forall>(kd, ns', m)\<in>(\<lambda>(kd, m). (kd, ns, m)) ` set ss. view w5 (kd, ns', m) \<noteq> None \<longrightarrow> (\<exists>r. DeleteFailed kd m r \<in> set e5)"
    using out by auto
  have gone: "view w5 k = None" if "e5 = []" "k \<in> runtime_keys ns n" for k
  proof -
    obtain kd ns' m where k: "k = (kd, ns', m)" by (cases k)
    from bspec [OF left that(2) [folded keys]] that(1) show ?thesis by (simp add: k)
  qed
  have frame: "\<forall>k. k \<notin> runtime_keys ns n \<longrightarrow> view w5 k = view w k" "\<forall>k. view w5 k = view w k \<or> view w5 k = None"
    using out unfolding keys by simp_all
  show ?thesis
  proof (cases "e5 = []")
    case True
    then have "e = None" using e(1) by simp
    with True frame gone show ?thesis unfolding e(2) by (simp only: option.case) blast
  next
    case False
    then have "e = Some (ErrJoined e5)" using e(1) by simp
    with False frame left show ?thesis unfolding e(2) keys by (simp only: option.case) blast
  qed
qed

end

section \<open>Quantities\<close>

lemma sint_small: "0 \<le> x \<Longrightarrow> x < 2 ^ 63 \<Longrightarrow> sint (word_of_int x :: 64 word) = x"
  by (simp add: sint_sbintrunc' signed_take_bit_int_eq_self)

lemma sint_cores: "sint (ucast (c :: u32) :: 64 word) = uint c"
proof -
  have "uint c < 2 ^ 32" using uint_lt2p [of c] by simp
  then have "uint c < 2 ^ 63" by simp
  then show ?thesis unfolding ucast_eq by (intro sint_small) simp_all
qed

lemma sint_megabytes: "sint (ucast (m :: u32) * 1000 * 1000 :: 64 word) = uint m * 1000000"
proof -
  have "uint m < 2 ^ 32" using uint_lt2p [of m] by simp
  then have a: "0 \<le> uint m * 1000000" "uint m * 1000000 < 2 ^ 63" by simp_all
  have "(1000 * 1000 :: 64 word) = 1000000" by simp
  then have "(ucast m * 1000 * 1000 :: 64 word) = ucast m * 1000000" by (simp only: mult.assoc)
  also have "\<dots> = word_of_int (uint m * 1000000)" by (simp only: of_int_mult of_int_numeral ucast_eq)
  finally have "(ucast m * 1000 * 1000 :: 64 word) = word_of_int (uint m * 1000000)" .
  then show ?thesis using sint_small [OF a] by (simp only:)
qed

section \<open>Properties\<close>

definition mini_cc :: config_codec where
  "mini_cc = \<lparr>cc_protojson = (\<lambda>sp. Inr (fs_Name sp)), cc_JSONToYAML = (\<lambda>j. Inr (''name: '' @ j)), cc_Sum256 = (\<lambda>y. take 2 y)\<rparr>"

definition run_spec :: FlowSpec where
  "run_spec = demo_spec\<lparr>fs_Kubernetes := Some \<lparr>ks_Image = Some ''rt:1'', ks_ImagePullPolicy = IMAGE_PULL_POLICY_ALWAYS,
     ks_RestartPolicy = RESTART_POLICY_UNSPECIFIED, ks_CpuPinning = [],
     ks_Resources = Some \<lparr>rs_CpuCores = Some 2, rs_MemoryMb = Some 512, rs_Profile = Some ''small''\<rparr>\<rparr>,
     fs_Env := [(''MODE'', ''x''), (''DEBUG'', ''1'')]\<rparr>"

definition km0 :: kube_mem where
  "km0 = \<lparr>km_objs = [], km_faults = []\<rparr>"

text \<open>
  C12: a run of \<^verbatim>\<open>ensureRuntime\<close> without an error leaves the runtime of the flow ready. The config map
  holds the YAML of the spec; the workload has the kind the execution mode and the options ask for, runs
  pods annotated with the checksum of that YAML, and is returned by name. A job that existed is kept.
  Every other object of the cluster is what it was.
\<close>

theorem ensure_runtime_effect:
  assumes "kube kc view fill_dp fill_ds fill_jb fill_cj"
    "ensureRuntime cc (Some kc) ns (Some sp) pol obs otel w = ((nm, None), w')"
  shows "nm = workload_name sp
    \<and> runtime_ready fill_dp fill_ds fill_jb fill_cj cc ns sp pol obs otel (view w) (view w')"
  using kube.ensureRuntime_cases [OF assms] by simp

theorem ensure_runtime_effect_witness:
  "\<exists>w'. ensureRuntime mini_cc (Some kmem) ''ns'' (Some run_spec) PullAlways False '''' km0 = ((''f-runtime'', None), w')
     \<and> runtime_ready (=) (=) (=) (=) mini_cc ''ns'' run_spec PullAlways False '''' (km_view km0) (km_view w')"
proof -
  have "fst (ensureRuntime mini_cc (Some kmem) ''ns'' (Some run_spec) PullAlways False '''' km0) = (''f-runtime'', None)"
    by code_simp
  then obtain w' where "ensureRuntime mini_cc (Some kmem) ''ns'' (Some run_spec) PullAlways False '''' km0 = ((''f-runtime'', None), w')"
    by (metis prod.collapse)
  with ensure_runtime_effect [OF memkube.kube_axioms this] show ?thesis by blast
qed

text \<open>
  The reach of \<^verbatim>\<open>ensureRuntime\<close>, on every outcome. It touches at most the config map and the workload of
  its flow, never an object of a flow with another name, and it removes nothing; in particular the workload
  of another kind that an earlier version of the flow had stays in the cluster.
\<close>

lemma ensure_runtime_reach:
  assumes "kube kc view fill_dp fill_ds fill_jb fill_cj"
    "ensureRuntime cc (Some kc) ns (Some sp) pol obs otel w = ((nm, e), w')"
  shows "(\<forall>k. view w' k \<noteq> view w k \<longrightarrow> k = cm_key ns (fs_Name sp) \<or> k = wl_key ns sp)
    \<and> (\<forall>n k. n \<noteq> fs_Name sp \<and> k \<in> runtime_keys ns n \<longrightarrow> view w' k = view w k)
    \<and> (\<forall>k. view w k \<noteq> None \<longrightarrow> view w' k \<noteq> None)"
proof -
  note c = kube.ensureRuntime_cases [OF assms]
  have "view w' k = view w k" if "n \<noteq> fs_Name sp" "k \<in> runtime_keys ns n" for n k
    using c that runtime_keys_disjoint [OF that(1), of ns] wl_key_in(1) [of ns sp] wl_key_in(2) [of ns "fs_Name sp"]
    by (metis disjoint_iff)
  with c show ?thesis by blast
qed

lemma ensure_runtime_reach_example:
  "\<exists>nm e w'. ensureRuntime mini_cc (Some kmem) ''ns'' (Some run_spec) PullAlways False ''''
       \<lparr>km_objs = [((JobKind, ''ns'', ''f''), KJob undefined)], km_faults = []\<rparr> = ((nm, e), w')
     \<and> km_view w' (JobKind, ''ns'', ''f'') \<noteq> None"
proof -
  let ?w = "\<lparr>km_objs = [((JobKind, ''ns'', ''f''), KJob undefined)], km_faults = []\<rparr>"
  obtain nm e w' where r: "ensureRuntime mini_cc (Some kmem) ''ns'' (Some run_spec) PullAlways False '''' ?w = ((nm, e), w')"
    by (metis prod.collapse)
  have "km_view ?w (JobKind, ''ns'', ''f'') \<noteq> None" by (simp add: km_view_def)
  with ensure_runtime_reach [OF memkube.kube_axioms r] r show ?thesis by blast
qed

text \<open>
  C24: \<^verbatim>\<open>deleteRuntimeResources\<close> removes the runtime of a flow. Without an error none of the flow's five objects
  is left. It tries all five: with an error each object that is left has its failure in the joined
  error. No other object changes on any outcome.
\<close>

theorem delete_runtime_effect:
  assumes "kube kc view fill_dp fill_ds fill_jb fill_cj" "deleteRuntimeResources (Some kc) ns n w = (e, w')" "n \<noteq> ''''"
  shows "(\<forall>k. k \<notin> runtime_keys ns n \<longrightarrow> view w' k = view w k)
    \<and> (case e of None \<Rightarrow> \<forall>k\<in>runtime_keys ns n. view w' k = None
       | Some x \<Rightarrow> \<exists>errs. x = ErrJoined errs \<and> errs \<noteq> []
           \<and> (\<forall>(kd, ns', m)\<in>runtime_keys ns n. view w' (kd, ns', m) \<noteq> None \<longrightarrow> (\<exists>r. DeleteFailed kd m r \<in> set errs)))"
  using kube.deleteRuntimeResources_cases [OF assms] by blast

theorem delete_runtime_effect_witness:
  "\<exists>w'. deleteRuntimeResources (Some kmem) ''ns'' ''f'' \<lparr>km_objs = [((JobKind, ''ns'', ''f''), KJob undefined)], km_faults = []\<rparr> = (None, w')
     \<and> km_view w' (JobKind, ''ns'', ''f'') = None"
proof -
  let ?w = "\<lparr>km_objs = [((JobKind, ''ns'', ''f''), KJob undefined)], km_faults = []\<rparr>"
  obtain e w' where d: "deleteRuntimeResources (Some kmem) ''ns'' ''f'' ?w = (e, w')" by fastforce
  have "fst (deleteRuntimeResources (Some kmem) ''ns'' ''f'' ?w) = None"
    by (simp add: deleteRuntimeResources_def delete_object_def kmem_def km_client_def km_call_def)
  with d have "e = None" by simp
  moreover have "(JobKind, ''ns'', ''f'') \<in> runtime_keys ''ns'' ''f''" by (simp add: runtime_keys_def)
  ultimately show ?thesis using delete_runtime_effect [OF memkube.kube_axioms d] d by auto
qed

text \<open>
  The metadata of the pods. Whatever labels, annotations and profile a flow asks for, the flow label
  is the flow's name (so the selector of the workload matches its pods) and the checksum
  annotation is the checksum; every other label and annotation is the flow's, and the resource profile is
  annotated unless the flow sets that annotation itself.
\<close>

lemma pod_metadata:
  assumes "wf_map (opt_map ko_PodLabels options)" "wf_map (opt_map ko_PodAnnotations options)"
    "t = runtimePodTemplate flowName cm img pol checksum obs otel restart resources options env"
  shows "map_of (pt_Labels t) = (map_of (opt_map ko_PodLabels options))(flowLabelKey \<mapsto> flowName)
    \<and> map_of (pt_Annotations t) =
        ((case profile_of resources of None \<Rightarrow> Map.empty | Some p \<Rightarrow> [resourceProfileKey \<mapsto> p])
           ++ map_of (opt_map ko_PodAnnotations options))(runtimeConfigHashKey \<mapsto> checksum)"
proof -
  have "map_of (pt_Labels t) k = ((map_of (opt_map ko_PodLabels options))(flowLabelKey \<mapsto> flowName)) k" for k
    using set_entries_other [OF assms(1), of k flowLabelKey]
    by (cases "k = flowLabelKey") (simp_all add: assms(3) runtimePodTemplate_def applyKubernetesOptions_meta
        applyResourceIntent_meta set_entries_protected pod_template_def split: option.splits)
  moreover have "map_of (pt_Annotations t) k =
      (((case profile_of resources of None \<Rightarrow> Map.empty | Some p \<Rightarrow> [resourceProfileKey \<mapsto> p])
           ++ map_of (opt_map ko_PodAnnotations options))(runtimeConfigHashKey \<mapsto> checksum)) k" for k
    using set_entries_other [OF assms(2), of k runtimeConfigHashKey]
    by (cases "k = runtimeConfigHashKey") (simp_all add: assms(3) runtimePodTemplate_def applyKubernetesOptions_meta
        applyResourceIntent_meta set_entries_protected pod_template_def map_add_def split: option.splits)
  ultimately show ?thesis by blast
qed

lemma pod_metadata_example:
  "map_of (pt_Labels (runtimePodTemplate ''f'' ''f-config'' ''rt:1'' PullAlways ''6e61'' False '''' RestartPolicyNever None
     (Some \<lparr>ko_PodLabels = [(''flowpipe.io/flow-name'', ''other''), (''team'', ''a'')], ko_PodAnnotations = [],
       ko_ServiceAccountName = None, ko_ImagePullSecrets = [], ko_RuntimeClassName = None,
       ko_StreamingWorkloadKind = STREAMING_WORKLOAD_KIND_UNSPECIFIED, ko_Cron = None\<rparr>) [])) ''flowpipe.io/flow-name'' = Some ''f''"
  by (subst pod_metadata [THEN conjunct1, OF _ _ refl]) (simp_all add: opt_map_def wf_map_def flowLabelKey_def)

text \<open>
  the environment of the runtime container. No name occurs twice; the controller's own variables
  cannot be overridden by the flow, every other variable of the flow is passed on, and the result does not
  depend on the order in which the flow's map is visited.
\<close>

lemma runtime_env_exact:
  assumes "wf_map extra"
  shows "distinct (map ev_Name (runtimeEnv obs otel extra))
    \<and> set (runtimeEnv obs otel extra) = set (base_env obs otel) \<union>
        {\<lparr>ev_Name = k, ev_Value = v\<rparr> | k v. map_of extra k = Some v \<and> k \<notin> ev_Name ` set (base_env obs otel)}
    \<and> (\<forall>extra'. mset extra' = mset extra \<longrightarrow> runtimeEnv obs otel extra' = runtimeEnv obs otel extra)"
proof -
  have "map ev_Name (extra_env obs otel extra) = filter (\<lambda>key. key \<notin> ev_Name ` set (base_env obs otel)) (sort (map fst extra))"
    by (simp add: extra_env_def comp_def)
  moreover have "distinct (map fst extra)" using assms by (simp add: wf_map_def)
  ultimately have "distinct (map ev_Name (runtimeEnv obs otel extra))"
    using base_env_names [of obs otel] by (auto simp: runtimeEnv_split)
  moreover have "runtimeEnv obs otel extra' = runtimeEnv obs otel extra" if m: "mset extra' = mset extra" for extra'
  proof -
    have "map_of extra' = map_of extra" using map_of_perm [OF assms] m by metis
    moreover have "sort (map fst extra') = sort (map fst extra)"
      using m by (intro properties_for_sort) simp_all
    ultimately show ?thesis by (simp add: runtimeEnv_split extra_env_def)
  qed
  moreover have "set (runtimeEnv obs otel extra) = set (base_env obs otel) \<union>
        {\<lparr>ev_Name = k, ev_Value = v\<rparr> | k v. map_of extra k = Some v \<and> k \<notin> ev_Name ` set (base_env obs otel)}"
    by (simp only: runtimeEnv_split set_append extra_env_set [OF assms])
  ultimately show ?thesis by blast
qed

lemma runtime_env_exact_example:
  "map ev_Name (runtimeEnv False '''' [(''MODE'', ''x''), (''DEBUG'', ''1'')])
     = [''FLOWPIPE_OBSERVABILITY_ENABLED'', ''DEBUG'', ''MODE'']
   \<and> runtimeEnv False '''' [(''DEBUG'', ''1''), (''MODE'', ''x'')] = runtimeEnv False '''' [(''MODE'', ''x''), (''DEBUG'', ''1'')]"
proof -
  have "map ev_Name (runtimeEnv False '''' [(''MODE'', ''x''), (''DEBUG'', ''1'')])
     = [''FLOWPIPE_OBSERVABILITY_ENABLED'', ''DEBUG'', ''MODE'']" by code_simp
  moreover have "wf_map [(''MODE'', ''x''), (''DEBUG'', ''1'')]" by (simp add: wf_map_def)
  then have "runtimeEnv False '''' [(''DEBUG'', ''1''), (''MODE'', ''x'')] = runtimeEnv False '''' [(''MODE'', ''x''), (''DEBUG'', ''1'')]"
    using runtime_env_exact [THEN conjunct2, THEN conjunct2, rule_format, of _ "[(''DEBUG'', ''1''), (''MODE'', ''x'')]"]
    by simp
  ultimately show ?thesis by blast
qed

lemma fold_requests: "map_of (fold (\<lambda>(k, v). AList.update k v) (intent_requests it) rs) = map_of rs ++ map_of (intent_requests it)"
  by (auto simp: intent_requests_def update_conv' map_add_def fun_eq_iff split: option.splits)

lemma applyResourceIntent_places:
  "map (\<lambda>c. (c\<lparr>ct_Requests := []\<rparr>, map_of (ct_Requests c))) (ps_Containers (pt_Spec (applyResourceIntent t (Some it)))) =
     (case map (\<lambda>c. (c\<lparr>ct_Requests := []\<rparr>, map_of (ct_Requests c))) (ps_Containers (pt_Spec t)) of
        [] \<Rightarrow> [] | (c, rs) # r \<Rightarrow> (c, rs ++ map_of (intent_requests it)) # r)"
  by (cases "ps_Containers (pt_Spec t)")
    (auto simp: applyResourceIntent_def Let_def fold_requests split: option.splits)

text \<open>
  C37: the resource requests are exact. The quantities of a resource intent, computed in 64-bit integers, do
  not wrap and are positive: the cores as they are and the megabytes times one million; a zero or
  missing field asks for nothing. \<^verbatim>\<open>applyResourceIntent\<close> adds them to the requests of the first container of the template, and
  changes nothing else in any container.
\<close>

theorem resource_requests_exact:
  "(map_of (intent_requests it) ''cpu'' = Some q \<longleftrightarrow> (\<exists>c. rs_CpuCores it = Some c \<and> 0 < c \<and> sint q = uint c))
   \<and> (map_of (intent_requests it) ''memory'' = Some q \<longleftrightarrow>
        (\<exists>m. rs_MemoryMb it = Some m \<and> 0 < m \<and> sint q = uint m * 1000000))
   \<and> map (\<lambda>c. (c\<lparr>ct_Requests := []\<rparr>, map_of (ct_Requests c))) (ps_Containers (pt_Spec (applyResourceIntent t (Some it)))) =
       (case map (\<lambda>c. (c\<lparr>ct_Requests := []\<rparr>, map_of (ct_Requests c))) (ps_Containers (pt_Spec t)) of
          [] \<Rightarrow> []
        | (c, rs) # r \<Rightarrow> (c, rs ++ map_of (intent_requests it)) # r)"
proof -
  have "map_of (intent_requests it) ''cpu'' = Some q \<longleftrightarrow> (\<exists>c. rs_CpuCores it = Some c \<and> 0 < c \<and> q = ucast c)"
    by (cases "rs_CpuCores it"; cases "rs_MemoryMb it") (auto simp: intent_requests_def)
  moreover have "map_of (intent_requests it) ''memory'' = Some q \<longleftrightarrow>
      (\<exists>m. rs_MemoryMb it = Some m \<and> 0 < m \<and> q = ucast m * 1000 * 1000)"
    by (cases "rs_CpuCores it"; cases "rs_MemoryMb it") (auto simp: intent_requests_def)
  ultimately show ?thesis
    unfolding word_eq_iff_signed [where ?'a = int] sint_cores sint_megabytes using applyResourceIntent_places by blast
qed

end
