(* ===== verification/Ctl_Queue.thy ===== *)
theory Ctl_Queue
  imports Flow_Prelude
begin

text \<open>
  The work queue of the controller (\<^verbatim>\<open>workqueue.go\<close>, \<^verbatim>\<open>workqueue_memory.go\<close>): the time stamps the
  controller keeps around the rate-limited queue of client-go. That queue is not part of the repository:
  it is a record of functions over a state \<open>'q\<close>, and the locale \<open>work_queue\<close> states its documented
  behaviour in terms of the keys that are queued, the keys that wait for a rate-limited delay to pass, and the keys
  that are being processed. A delay passes by itself, which shows when a key is asked for: \<^verbatim>\<open>Get\<close> may find any of the delayed keys
  queued, and it blocks while every key it finds is being processed. A key may be queued and delayed at once; taking it
  leaves its delayed copy behind.

  The workers of the controller share the queue; \<open>queue_step\<close> is their interleaving.
\<close>

section \<open>The queue of client-go\<close>

datatype get_result = Got string | GotShutdown | Blocked

record 'q wq_ops =
  wq_Add :: "string \<Rightarrow> 'q \<Rightarrow> 'q"
  wq_Get :: "'q \<Rightarrow> get_result \<times> 'q"
  wq_Done :: "string \<Rightarrow> 'q \<Rightarrow> 'q"
  wq_Forget :: "string \<Rightarrow> 'q \<Rightarrow> 'q"
  wq_AddRateLimited :: "string \<Rightarrow> 'q \<Rightarrow> 'q"
  wq_Len :: "'q \<Rightarrow> nat"
  wq_ShutDown :: "'q \<Rightarrow> 'q"

locale work_queue =
  fixes ops :: "'q wq_ops" and queued :: "'q \<Rightarrow> string set" and delayed :: "'q \<Rightarrow> string set"
    and processing :: "'q \<Rightarrow> string set" and down :: "'q \<Rightarrow> bool"
  assumes Add_law: "queued (wq_Add ops k q) = (if down q then queued q else insert k (queued q))
      \<and> delayed (wq_Add ops k q) = delayed q \<and> processing (wq_Add ops k q) = processing q \<and> down (wq_Add ops k q) = down q"
    and Get_Got: "wq_Get ops q = (Got k, q') \<Longrightarrow> \<exists>due \<subseteq> delayed q. (down q \<longrightarrow> due = {})
      \<and> k \<in> queued q \<union> due \<and> k \<notin> processing q
      \<and> queued q' = queued q \<union> due - {k} \<and> delayed q' = delayed q - due
      \<and> processing q' = insert k (processing q) \<and> down q' = down q"
    and Get_Blocked: "wq_Get ops q = (Blocked, q') \<Longrightarrow> \<exists>due \<subseteq> delayed q. queued q \<union> due \<subseteq> processing q \<and> \<not> down q
      \<and> queued q' = queued q \<union> due \<and> delayed q' = delayed q - due \<and> processing q' = processing q \<and> \<not> down q'"
    and Get_Shutdown: "wq_Get ops q = (GotShutdown, q') \<Longrightarrow> down q
      \<and> queued q' = queued q \<and> delayed q' = delayed q \<and> processing q' = processing q \<and> down q'"
    and Done_law: "queued (wq_Done ops k q) = queued q \<and> delayed (wq_Done ops k q) = delayed q
      \<and> processing (wq_Done ops k q) = processing q - {k} \<and> down (wq_Done ops k q) = down q"
    and Forget_law: "queued (wq_Forget ops k q) = queued q \<and> delayed (wq_Forget ops k q) = delayed q
      \<and> processing (wq_Forget ops k q) = processing q \<and> down (wq_Forget ops k q) = down q"
    and AddRateLimited_law: "(if down q then queued (wq_AddRateLimited ops k q) = queued q \<and> delayed (wq_AddRateLimited ops k q) = delayed q
        else queued (wq_AddRateLimited ops k q) = insert k (queued q) \<and> delayed (wq_AddRateLimited ops k q) = delayed q
          \<or> queued (wq_AddRateLimited ops k q) = queued q \<and> delayed (wq_AddRateLimited ops k q) = insert k (delayed q))
      \<and> processing (wq_AddRateLimited ops k q) = processing q \<and> down (wq_AddRateLimited ops k q) = down q"
    and ShutDown_law: "queued (wq_ShutDown ops q) = queued q \<and> delayed (wq_ShutDown ops q) = delayed q
      \<and> processing (wq_ShutDown ops q) = processing q \<and> down (wq_ShutDown ops q)"
begin

text \<open>The keys that wait for a run, queued or delayed.\<close>

abbreviation pending :: "'q \<Rightarrow> string set" where
  "pending q \<equiv> queued q \<union> delayed q"

end

section \<open>MemoryQueue\<close>

text \<open>Times are counted in nanoseconds; \<open>now\<close> is the reading of the clock by a call.\<close>

record 'q MemoryQueue =
  mq_q :: 'q
  mq_enqueued :: "(string \<times> int) list"

definition NewMemoryQueue :: "'q \<Rightarrow> 'q MemoryQueue" where
  "NewMemoryQueue q = \<lparr>mq_q = q, mq_enqueued = []\<rparr>"

definition markEnqueued :: "int \<Rightarrow> string \<Rightarrow> 'q MemoryQueue \<Rightarrow> 'q MemoryQueue" where
  "markEnqueued now key m = m\<lparr>mq_enqueued := AList.update key now (mq_enqueued m)\<rparr>"

definition clearEnqueued :: "string \<Rightarrow> 'q MemoryQueue \<Rightarrow> 'q MemoryQueue" where
  "clearEnqueued key m = m\<lparr>mq_enqueued := AList.delete key (mq_enqueued m)\<rparr>"

definition dequeueLag :: "int \<Rightarrow> string \<Rightarrow> 'q MemoryQueue \<Rightarrow> int \<times> 'q MemoryQueue" where
  "dequeueLag now key m =
     (case map_of (mq_enqueued m) key of
        None \<Rightarrow> (0, m)
      | Some enqueuedAt \<Rightarrow> (now - enqueuedAt, m\<lparr>mq_enqueued := AList.delete key (mq_enqueued m)\<rparr>))"

definition MQ_Add :: "'q wq_ops \<Rightarrow> int \<Rightarrow> string \<Rightarrow> 'q MemoryQueue \<Rightarrow> 'q MemoryQueue" where
  "MQ_Add ops now key m =
     (let m1 = markEnqueued now key m in m1\<lparr>mq_q := wq_Add ops key (mq_q m1)\<rparr>)"

text \<open>\<open>None\<close> while the call blocks; otherwise the key, the lag and whether there is a key.\<close>

definition MQ_Get :: "'q wq_ops \<Rightarrow> int \<Rightarrow> 'q MemoryQueue \<Rightarrow> (string \<times> int \<times> bool) option \<times> 'q MemoryQueue" where
  "MQ_Get ops now m =
     (case wq_Get ops (mq_q m) of
        (Blocked, q) \<Rightarrow> (None, m\<lparr>mq_q := q\<rparr>)
      | (GotShutdown, q) \<Rightarrow> (Some ('''', 0, False), m\<lparr>mq_q := q\<rparr>)
      | (Got key, q) \<Rightarrow>
          (case dequeueLag now key (m\<lparr>mq_q := q\<rparr>) of (lag, m') \<Rightarrow> (Some (key, lag, True), m')))"

definition MQ_Forget :: "'q wq_ops \<Rightarrow> string \<Rightarrow> 'q MemoryQueue \<Rightarrow> 'q MemoryQueue" where
  "MQ_Forget ops key m =
     (let m1 = clearEnqueued key m in m1\<lparr>mq_q := wq_Done ops key (wq_Forget ops key (mq_q m1))\<rparr>)"

definition MQ_Retry :: "'q wq_ops \<Rightarrow> int \<Rightarrow> string \<Rightarrow> 'q MemoryQueue \<Rightarrow> 'q MemoryQueue" where
  "MQ_Retry ops now key m =
     (let m1 = markEnqueued now key m in m1\<lparr>mq_q := wq_Done ops key (wq_AddRateLimited ops key (mq_q m1))\<rparr>)"

definition MQ_Len :: "'q wq_ops \<Rightarrow> 'q MemoryQueue \<Rightarrow> nat" where
  "MQ_Len ops m = wq_Len ops (mq_q m)"

definition MQ_Shutdown :: "'q wq_ops \<Rightarrow> 'q MemoryQueue \<Rightarrow> 'q MemoryQueue" where
  "MQ_Shutdown ops m = m\<lparr>mq_q := wq_ShutDown ops (mq_q m)\<rparr>"

lemmas mq_defs = MQ_Add_def MQ_Get_def MQ_Forget_def MQ_Retry_def MQ_Len_def MQ_Shutdown_def
  markEnqueued_def clearEnqueued_def dequeueLag_def Let_def

section \<open>The wrapper keeps the contract\<close>

text \<open>
  \<open>MemoryQueue\<close> is itself a queue with the promises of \<^verbatim>\<open>WorkQueue\<close>: finishing a key ends its
  processing, and a retry also leaves it waiting.
\<close>

context work_queue
begin

lemma MQ_Add_view:
  "queued (mq_q (MQ_Add ops now k m)) = (if down (mq_q m) then queued (mq_q m) else insert k (queued (mq_q m)))"
  "delayed (mq_q (MQ_Add ops now k m)) = delayed (mq_q m)"
  "processing (mq_q (MQ_Add ops now k m)) = processing (mq_q m)" "down (mq_q (MQ_Add ops now k m)) = down (mq_q m)"
  using Add_law by (simp_all add: mq_defs)

lemma MQ_Get_law:
  assumes "MQ_Get ops now m = (Some (k, lag, True), m')"
  shows "wq_Get ops (mq_q m) = (Got k, mq_q m')" "lag = (case map_of (mq_enqueued m) k of None \<Rightarrow> 0 | Some t \<Rightarrow> now - t)"
  using assms by (auto simp: mq_defs split: get_result.splits option.splits prod.splits)

lemma MQ_Get_key:
  assumes "MQ_Get ops now m = (Some (k, lag, True), m')"
  shows "k \<in> pending (mq_q m)" "k \<notin> processing (mq_q m)" "pending (mq_q m) - {k} \<subseteq> pending (mq_q m')"
    "pending (mq_q m') \<subseteq> pending (mq_q m)" "processing (mq_q m') = insert k (processing (mq_q m))" "down (mq_q m') = down (mq_q m)"
    "down (mq_q m) \<or> delayed (mq_q m) = {} \<Longrightarrow>
       k \<in> queued (mq_q m) \<and> queued (mq_q m') = queued (mq_q m) - {k} \<and> delayed (mq_q m') = delayed (mq_q m)"
  using Get_Got [OF MQ_Get_law(1) [OF assms]] by auto

lemma MQ_Forget_view:
  "queued (mq_q (MQ_Forget ops k m)) = queued (mq_q m)" "delayed (mq_q (MQ_Forget ops k m)) = delayed (mq_q m)"
  "processing (mq_q (MQ_Forget ops k m)) = processing (mq_q m) - {k}" "down (mq_q (MQ_Forget ops k m)) = down (mq_q m)"
  using Done_law Forget_law by (simp_all add: mq_defs)

lemma MQ_Retry_view:
  "pending (mq_q (MQ_Retry ops now k m)) = (if down (mq_q m) then pending (mq_q m) else insert k (pending (mq_q m)))"
  "down (mq_q m) \<Longrightarrow> queued (mq_q (MQ_Retry ops now k m)) = queued (mq_q m) \<and> delayed (mq_q (MQ_Retry ops now k m)) = delayed (mq_q m)"
  "processing (mq_q (MQ_Retry ops now k m)) = processing (mq_q m) - {k}"
  "down (mq_q (MQ_Retry ops now k m)) = down (mq_q m)"
  using Done_law AddRateLimited_law [of "mq_q m" k] by (auto simp: mq_defs split: if_splits)

end

section \<open>Workers on one queue\<close>

text \<open>
  The state of the machine: the queue, the key each worker holds, and the keys that are owed a run
  (a change was announced, or a run failed, since the key was last taken).
\<close>

record 'q workers =
  wk_queue :: "'q MemoryQueue"
  wk_holds :: "nat \<Rightarrow> string option"
  wk_owed :: "string set"

inductive queue_step :: "'q wq_ops \<Rightarrow> 'q workers \<Rightarrow> 'q workers \<Rightarrow> bool" for ops where
  announce: "queue_step ops s (s\<lparr>wk_queue := MQ_Add ops now k (wk_queue s), wk_owed := insert k (wk_owed s)\<rparr>)"
| take: "wk_holds s i = None \<Longrightarrow> MQ_Get ops now (wk_queue s) = (Some (k, lag, True), m) \<Longrightarrow>
    queue_step ops s (s\<lparr>wk_queue := m, wk_holds := (wk_holds s)(i \<mapsto> k), wk_owed := wk_owed s - {k}\<rparr>)"
| succeed: "wk_holds s i = Some k \<Longrightarrow>
    queue_step ops s (s\<lparr>wk_queue := MQ_Forget ops k (wk_queue s), wk_holds := (wk_holds s)(i := None)\<rparr>)"
| fail: "wk_holds s i = Some k \<Longrightarrow>
    queue_step ops s (s\<lparr>wk_queue := MQ_Retry ops now k (wk_queue s), wk_holds := (wk_holds s)(i := None),
      wk_owed := insert k (wk_owed s)\<rparr>)"

inductive queue_run :: "'q wq_ops \<Rightarrow> 'q workers \<Rightarrow> 'q workers \<Rightarrow> bool" for ops where
  run_refl: "queue_run ops s s"
| run_step: "queue_run ops s t \<Longrightarrow> queue_step ops t u \<Longrightarrow> queue_run ops s u"

definition queue_inv :: "('q \<Rightarrow> string set) \<Rightarrow> ('q \<Rightarrow> string set) \<Rightarrow> ('q \<Rightarrow> bool) \<Rightarrow> 'q workers \<Rightarrow> bool" where
  "queue_inv pending processing down s \<longleftrightarrow> \<not> down (mq_q (wk_queue s))
     \<and> processing (mq_q (wk_queue s)) = ran (wk_holds s)
     \<and> (\<forall>i j k. wk_holds s i = Some k \<and> wk_holds s j = Some k \<longrightarrow> i = j)
     \<and> wk_owed s \<subseteq> pending (mq_q (wk_queue s))"

lemma ran_upd_None:
  assumes "\<forall>i j k. f i = Some k \<and> f j = Some k \<longrightarrow> i = j" "f i = Some k"
  shows "ran (f(i := None)) = ran f - {k}"
proof (intro set_eqI iffI)
  fix x assume "x \<in> ran (f(i := None))"
  then obtain a where "a \<noteq> i" "f a = Some x" by (auto simp: ran_def split: if_splits)
  with assms show "x \<in> ran f - {k}" by (auto simp: ran_def)
next
  fix x assume "x \<in> ran f - {k}"
  then obtain a where "f a = Some x" "x \<noteq> k" by (auto simp: ran_def)
  with assms(2) have "(f(i := None)) a = Some x" by auto
  then show "x \<in> ran (f(i := None))" by (rule ranI)
qed

context work_queue
begin

lemma queue_step_inv:
  assumes "queue_step ops s t" "queue_inv pending processing down s"
  shows "queue_inv pending processing down t"
  using assms(1)
proof (cases rule: queue_step.cases)
  case (announce now k)
  then show ?thesis using assms(2) by (auto simp: queue_inv_def MQ_Add_view)
next
  case (take i now k lag m)
  note g = MQ_Get_key [OF take(3)]
  have "k \<notin> ran (wk_holds s)" using g(2) assms(2) by (simp add: queue_inv_def)
  then have nk: "wk_holds s j \<noteq> Some k" for j by (auto simp: ran_def)
  have "ran ((wk_holds s)(i \<mapsto> k)) = insert k (ran (wk_holds s))" using take(2) by simp
  then show ?thesis using take g(1,3,5,6) assms(2) nk by (auto simp: queue_inv_def)
next
  case (succeed i k)
  then show ?thesis using assms(2) ran_upd_None [of "wk_holds s" i k]
    by (auto simp: queue_inv_def MQ_Forget_view)
next
  case (fail i k now)
  then show ?thesis using assms(2) ran_upd_None [of "wk_holds s" i k]
    by (auto simp: queue_inv_def MQ_Retry_view)
qed

lemma queue_run_inv: "queue_run ops s t \<Longrightarrow> queue_inv pending processing down s \<Longrightarrow> queue_inv pending processing down t"
  by (induction rule: queue_run.induct) (auto intro: queue_step_inv)

end

section \<open>A list queue\<close>

text \<open>
  A queue in memory with the behaviour client-go documents: a first-in first-out list of queued keys
  without duplicates, which skips a key while it is being processed. A rate-limited key is delayed: it is
  queued when a key is asked for the second time after that.
\<close>

record list_queue =
  lq_waiting :: "string list"
  lq_delayed :: "(string \<times> nat) list"
  lq_processing :: "string list"
  lq_down :: bool

definition lq_add :: "string \<Rightarrow> list_queue \<Rightarrow> list_queue" where
  "lq_add k q = (if lq_down q \<or> k \<in> set (lq_waiting q) then q else q\<lparr>lq_waiting := lq_waiting q @ [k]\<rparr>)"

definition lq_add_later :: "string \<Rightarrow> list_queue \<Rightarrow> list_queue" where
  "lq_add_later k q = (if lq_down q \<or> k \<in> fst ` set (lq_delayed q) then q else q\<lparr>lq_delayed := lq_delayed q @ [(k, 1)]\<rparr>)"

definition lq_due :: "list_queue \<Rightarrow> string list" where
  "lq_due q = (if lq_down q then [] else map fst (filter (\<lambda>(_, d). d = 0) (lq_delayed q)))"

definition lq_tick :: "list_queue \<Rightarrow> list_queue" where
  "lq_tick q = (if lq_down q then q
     else fold lq_add (lq_due q) (q\<lparr>lq_delayed := map (apsnd (\<lambda>d. d - 1)) (filter (\<lambda>(k, _). k \<notin> set (lq_due q)) (lq_delayed q))\<rparr>))"

definition lq_get :: "list_queue \<Rightarrow> get_result \<times> list_queue" where
  "lq_get q =
     (case find (\<lambda>k. k \<notin> set (lq_processing q)) (lq_waiting q) of
        Some k \<Rightarrow> (Got k, q\<lparr>lq_waiting := removeAll k (lq_waiting q), lq_processing := k # lq_processing q\<rparr>)
      | None \<Rightarrow> (if lq_down q then GotShutdown else Blocked, q))"

definition lq_ops :: "list_queue wq_ops" where
  "lq_ops = \<lparr>wq_Add = lq_add, wq_Get = (\<lambda>q. lq_get (lq_tick q)),
     wq_Done = (\<lambda>k q. q\<lparr>lq_processing := removeAll k (lq_processing q)\<rparr>),
     wq_Forget = (\<lambda>k q. q), wq_AddRateLimited = lq_add_later,
     wq_Len = (\<lambda>q. length (lq_waiting q)), wq_ShutDown = (\<lambda>q. q\<lparr>lq_down := True\<rparr>)\<rparr>"

abbreviation lq_queued :: "list_queue \<Rightarrow> string set" where
  "lq_queued q \<equiv> set (lq_waiting q)"

abbreviation lq_later :: "list_queue \<Rightarrow> string set" where
  "lq_later q \<equiv> fst ` set (lq_delayed q)"

abbreviation lq_busy :: "list_queue \<Rightarrow> string set" where
  "lq_busy q \<equiv> set (lq_processing q)"

lemma fold_lq_add:
  "\<not> lq_down q \<Longrightarrow> lq_queued (fold lq_add ks q) = lq_queued q \<union> set ks \<and> lq_delayed (fold lq_add ks q) = lq_delayed q
     \<and> lq_processing (fold lq_add ks q) = lq_processing q \<and> \<not> lq_down (fold lq_add ks q)"
  by (induction ks arbitrary: q) (auto simp: lq_add_def)

lemma lq_tick_view:
  "set (lq_due q) \<subseteq> lq_later q" "lq_down q \<Longrightarrow> lq_due q = []"
  "lq_queued (lq_tick q) = lq_queued q \<union> set (lq_due q)" "lq_later (lq_tick q) = lq_later q - set (lq_due q)"
  "lq_processing (lq_tick q) = lq_processing q" "lq_down (lq_tick q) = lq_down q"
proof -
  define q1 where "q1 = q\<lparr>lq_delayed := map (apsnd (\<lambda>d. d - 1)) (filter (\<lambda>(k, _). k \<notin> set (lq_due q)) (lq_delayed q))\<rparr>"
  show "set (lq_due q) \<subseteq> lq_later q" and due: "lq_down q \<Longrightarrow> lq_due q = []" by (auto simp: lq_due_def)
  have q1: "lq_later q1 = lq_later q - set (lq_due q)" "lq_queued q1 = lq_queued q" "lq_processing q1 = lq_processing q" "lq_down q1 = lq_down q"
    by (force simp: q1_def image_iff)+
  have t: "lq_tick q = (if lq_down q then q else fold lq_add (lq_due q) q1)" by (simp add: lq_tick_def q1_def)
  show "lq_queued (lq_tick q) = lq_queued q \<union> set (lq_due q)" "lq_later (lq_tick q) = lq_later q - set (lq_due q)"
    "lq_processing (lq_tick q) = lq_processing q" "lq_down (lq_tick q) = lq_down q"
    using fold_lq_add [of q1 "lq_due q"] q1 due by (simp_all add: t)
qed

lemma lq_get_cases:
  "lq_get q = (Got k, q') \<Longrightarrow> k \<in> lq_queued q \<and> k \<notin> lq_busy q \<and> lq_queued q' = lq_queued q - {k} \<and> lq_delayed q' = lq_delayed q
     \<and> lq_busy q' = insert k (lq_busy q) \<and> lq_down q' = lq_down q"
  "lq_get q = (Blocked, q') \<Longrightarrow> q' = q \<and> lq_queued q \<subseteq> lq_busy q \<and> \<not> lq_down q"
  "lq_get q = (GotShutdown, q') \<Longrightarrow> q' = q \<and> lq_down q"
  by (auto simp: lq_get_def find_Some_iff find_None_iff split: option.splits if_splits)

interpretation listq: work_queue lq_ops lq_queued lq_later lq_busy lq_down
proof (unfold_locales, goal_cases)
  case (2 q k q')
  then show ?case using lq_get_cases(1) [of "lq_tick q" k q'] lq_tick_view [of q]
    by (intro exI [of _ "set (lq_due q)"]) (auto simp: lq_ops_def)
next
  case (3 q q')
  then show ?case using lq_get_cases(2) [of "lq_tick q" q'] lq_tick_view [of q]
    by (intro exI [of _ "set (lq_due q)"]) (auto simp: lq_ops_def)
next
  case (4 q q')
  then show ?case using lq_get_cases(3) [of "lq_tick q" q'] lq_tick_view [of q] by (auto simp: lq_ops_def)
qed (auto simp: lq_ops_def lq_add_def lq_add_later_def)

section \<open>Properties\<close>

text \<open>
  C8: the workers of the controller never lose a key and never process one twice at the same time. From a
  state in which nothing is held and nothing is owed, after any interleaving of announcements, takes and
  successful or failed runs: two workers never hold the same key, and every key that is owed a run
  (announced, or failed, since it was last taken) is queued, or waits for its rate-limited delay to pass.
\<close>

theorem workers_exclusive_and_complete:
  assumes "work_queue ops queued delayed processing down" "queue_run ops s t"
    "\<not> down (mq_q (wk_queue s))" "processing (mq_q (wk_queue s)) = {}" "wk_holds s = (\<lambda>_. None)" "wk_owed s = {}"
  shows "(\<forall>i j k. wk_holds t i = Some k \<and> wk_holds t j = Some k \<longrightarrow> i = j)
    \<and> wk_owed t \<subseteq> queued (mq_q (wk_queue t)) \<union> delayed (mq_q (wk_queue t)) \<and> processing (mq_q (wk_queue t)) = ran (wk_holds t)"
proof -
  have "queue_inv (\<lambda>q. queued q \<union> delayed q) processing down s" using assms(3-6) by (simp add: queue_inv_def)
  from work_queue.queue_run_inv [OF assms(1,2) this] show ?thesis by (simp add: queue_inv_def)
qed

definition idle_workers :: "list_queue workers" where
  "idle_workers = \<lparr>wk_queue = NewMemoryQueue \<lparr>lq_waiting = [], lq_delayed = [], lq_processing = [], lq_down = False\<rparr>,
     wk_holds = (\<lambda>_. None), wk_owed = {}\<rparr>"

text \<open>A worker takes a key, its run fails, and the key waits for its delay.\<close>

theorem workers_exclusive_and_complete_witness:
  "\<exists>t. queue_run lq_ops idle_workers t \<and> wk_owed t = {''f''} \<and> lq_waiting (mq_q (wk_queue t)) = []
     \<and> wk_owed t \<subseteq> lq_queued (mq_q (wk_queue t)) \<union> lq_later (mq_q (wk_queue t))"
proof -
  define s1 where "s1 = idle_workers\<lparr>wk_queue := MQ_Add lq_ops 0 ''f'' (wk_queue idle_workers), wk_owed := insert ''f'' (wk_owed idle_workers)\<rparr>"
  define s2 where "s2 = s1\<lparr>wk_queue := snd (MQ_Get lq_ops 0 (wk_queue s1)), wk_holds := (wk_holds s1)(0 \<mapsto> ''f''), wk_owed := wk_owed s1 - {''f''}\<rparr>"
  define t where "t = s2\<lparr>wk_queue := MQ_Retry lq_ops 0 ''f'' (wk_queue s2), wk_holds := (wk_holds s2)(0 := None), wk_owed := insert ''f'' (wk_owed s2)\<rparr>"
  have g: "MQ_Get lq_ops 0 (wk_queue s1) = (Some (''f'', 0, True), snd (MQ_Get lq_ops 0 (wk_queue s1)))"
    and w: "lq_waiting (mq_q (wk_queue t)) = []"
    unfolding t_def s2_def s1_def idle_workers_def by code_simp+
  have "queue_run lq_ops idle_workers s1" unfolding s1_def by (rule run_step [OF run_refl queue_step.announce])
  moreover have "queue_step lq_ops s1 s2"
    unfolding s2_def by (rule queue_step.take [OF _ g]) (simp add: s1_def idle_workers_def)
  moreover have "queue_step lq_ops s2 t" unfolding t_def by (rule queue_step.fail) (simp add: s2_def)
  ultimately have r: "queue_run lq_ops idle_workers t" by (blast intro: run_step)
  moreover have "wk_owed t = {''f''}" by (simp add: t_def s2_def s1_def idle_workers_def)
  moreover have "wk_owed t \<subseteq> lq_queued (mq_q (wk_queue t)) \<union> lq_later (mq_q (wk_queue t))"
    using workers_exclusive_and_complete [OF listq.work_queue_axioms r] by (simp add: idle_workers_def NewMemoryQueue_def)
  ultimately show ?thesis using w by blast
qed

end
