(* ===== verification/Ctl_Reconcile.thy ===== *)
theory Ctl_Reconcile
  imports Ctl_Store Ctl_Runtime Ctl_Queue
begin

text \<open>
  The reconciliation loop of the controller (\<^verbatim>\<open>controller.go\<close>, \<^verbatim>\<open>reconcile.go\<close>, \<^verbatim>\<open>watch.go\<close>): one reconcile
  of a flow reads the active spec, applies or deletes the runtime objects and writes the status; a
  worker takes keys from the queue and forgets or retries them; the watch loop and the initial
  sync put keys into the queue. Tracing, metrics and logging are left out.

  The world holds both services; the locale \<open>control_plane\<close> adds to their contracts that a call of one does not
  change the other.
\<close>

section \<open>The controller\<close>

record 'w Controller =
  c_cli :: "'w etcd_client"
  c_pc :: proto_codec
  c_cc :: config_codec
  c_kube :: "'w kube_client option"
  c_runtimeNamespace :: string
  c_observabilityEnabled :: bool
  c_otelEndpoint :: string
  c_workerCount :: int

datatype reconcile_error =
    RecStore store_error
  | RecRuntime runtime_error
  | RecStatus status_error

section \<open>Reconciling a flow\<close>

text \<open>\<open>now\<close> is the reading of the clock for the status.\<close>

definition deploying_status :: "Timestamp \<Rightarrow> u64 \<Rightarrow> string \<Rightarrow> FlowStatus" where
  "deploying_status now version workload =
     \<lparr>fst_State = FLOW_STATE_DEPLOYING, fst_Message = ''flow runtime created'', fst_ActiveVersion = version,
      fst_Workload = workload, fst_LastUpdated = Some now\<rparr>"

text \<open>
  A reconcile reads the active flow and brings the cluster to what it has read; the second part, which makes no
  further read of the store, is \<open>reconcile_rest\<close>.
\<close>

definition reconcile_rest ::
  "'w Controller \<Rightarrow> Timestamp \<Rightarrow> string \<Rightarrow> FlowSpec option \<times> u64 \<Rightarrow> 'w \<Rightarrow> reconcile_error option \<times> 'w" where
  "reconcile_rest c now name a w =
     (case a of
        (None, version) \<Rightarrow>
          (case deleteRuntimeResources (c_kube c) (c_runtimeNamespace c) name w of
             (Some e, w2) \<Rightarrow> (Some (RecRuntime e), w2)
           | (None, w2) \<Rightarrow> (None, w2))
      | (Some spec, version) \<Rightarrow>
          (case ensureRuntime (c_cc c) (c_kube c) (c_runtimeNamespace c) (Some spec) (pullPolicyFromSpec (Some spec))
                  (c_observabilityEnabled c) (c_otelEndpoint c) w of
             ((_, Some e), w2) \<Rightarrow> (Some (RecRuntime e), w2)
           | ((workload, None), w2) \<Rightarrow>
               (case UpdateStatus (c_cli c) (c_pc c) name (Some (deploying_status now version workload)) w2 of
                  (Inl e, w3) \<Rightarrow> (Some (RecStatus e), w3)
                | (Inr _, w3) \<Rightarrow> (None, w3))))"

definition reconcile :: "'w Controller \<Rightarrow> Timestamp \<Rightarrow> string \<Rightarrow> 'w \<Rightarrow> reconcile_error option \<times> 'w" where
  "reconcile c now name w =
     (case GetActiveFlow (c_cli c) (c_pc c) name w of
        (Inl e, w1) \<Rightarrow> (Some (RecStore e), w1)
      | (Inr a, w1) \<Rightarrow> reconcile_rest c now name a w1)"

section \<open>Workers and watch\<close>

text \<open>
  One turn of a worker's loop: \<open>None\<close> ends the worker (the context is done) or waits in the queue. After a
  shutdown of the queue the worker idles until the context is done.
\<close>

datatype worker_turn = WorkerStops | WorkerWaits | WorkerIdles | WorkerRan string "reconcile_error option"

definition finish_turn :: "'q wq_ops \<Rightarrow> int \<Rightarrow> string \<Rightarrow> reconcile_error option \<Rightarrow> 'q MemoryQueue \<Rightarrow> 'q MemoryQueue" where
  "finish_turn ops now name err m = (case err of Some _ \<Rightarrow> MQ_Retry ops now name m | None \<Rightarrow> MQ_Forget ops name m)"

definition worker_step ::
  "'q wq_ops \<Rightarrow> 'w Controller \<Rightarrow> Timestamp \<Rightarrow> bool \<Rightarrow> 'q MemoryQueue \<times> 'w \<Rightarrow> worker_turn \<times> 'q MemoryQueue \<times> 'w" where
  "worker_step ops c now ctxDone st =
     (case st of (m, w) \<Rightarrow>
        if ctxDone then (WorkerStops, m, w)
        else (case MQ_Get ops now m of
                (None, m1) \<Rightarrow> (WorkerWaits, m1, w)
              | (Some (name, lag, ok), m1) \<Rightarrow>
                  if \<not> ok then (WorkerIdles, m1, w)
                  else (case reconcile c now name w of
                          (err, w1) \<Rightarrow> (WorkerRan name err, finish_turn ops now name err m1, w1))))"

text \<open>
  The loop of a worker over a sequence of turns, each with its reading of the clock and whether the
  context is done by then; it returns at the first turn that finds the context done.
\<close>

fun worker ::
  "'q wq_ops \<Rightarrow> 'w Controller \<Rightarrow> (Timestamp \<times> bool) list \<Rightarrow> 'q MemoryQueue \<times> 'w \<Rightarrow> worker_turn list \<times> 'q MemoryQueue \<times> 'w" where
  "worker ops c [] st = ([], st)"
| "worker ops c ((now, ctxDone) # ts) st =
     (case worker_step ops c now ctxDone st of
        (WorkerStops, st') \<Rightarrow> ([WorkerStops], st')
      | (t, st') \<Rightarrow> (case worker ops c ts st' of (rest, st'') \<Rightarrow> (t # rest, st'')))"

fun enqueue_flows :: "'q wq_ops \<Rightarrow> int \<Rightarrow> Flow list \<Rightarrow> 'q MemoryQueue \<Rightarrow> 'q MemoryQueue" where
  "enqueue_flows ops now [] m = m"
| "enqueue_flows ops now (f # fs) m = enqueue_flows ops now fs (MQ_Add ops now (fl_Name f) m)"

definition enqueueExisting ::
  "'q wq_ops \<Rightarrow> 'w Controller \<Rightarrow> ((string \<times> Flow) list \<Rightarrow> (string \<times> Flow) list) \<Rightarrow> int
     \<Rightarrow> 'q MemoryQueue \<times> 'w \<Rightarrow> store_error option \<times> 'q MemoryQueue \<times> 'w" where
  "enqueueExisting ops c visit now st =
     (case st of (m, w) \<Rightarrow>
        (case ctl_ListFlows (c_cli c) (c_pc c) visit w of
           (Inl e, w') \<Rightarrow> (Some e, m, w')
         | (Inr flows, w') \<Rightarrow> (None, enqueue_flows ops now flows m, w')))"

text \<open>The watch loop on the events it receives until the stream is closed.\<close>

fun runWatch :: "'q wq_ops \<Rightarrow> int \<Rightarrow> WatchEvent list \<Rightarrow> 'q MemoryQueue \<Rightarrow> 'q MemoryQueue" where
  "runWatch ops now [] m = m"
| "runWatch ops now (ev # evs) m =
     (case we_Flow ev of
        None \<Rightarrow> runWatch ops now evs m
      | Some f \<Rightarrow>
          (case we_Type ev of
             WatchAdded \<Rightarrow> runWatch ops now evs (MQ_Add ops now (fl_Name f) m)
           | WatchUpdated \<Rightarrow> runWatch ops now evs (MQ_Add ops now (fl_Name f) m)
           | WatchDeleted \<Rightarrow> runWatch ops now evs (MQ_Add ops now (fl_Name f) m)))"

text \<open>The number of workers \<^verbatim>\<open>Run\<close> starts.\<close>

definition run_workers :: "'w Controller \<Rightarrow> int" where
  "run_workers c = (if c_workerCount c < 1 then 1 else c_workerCount c)"

section \<open>The control plane\<close>

definition rc_keeps :: "('s, 'w) resource_client \<Rightarrow> ('w \<Rightarrow> 'a) \<Rightarrow> bool" where
  "rc_keeps rc f \<longleftrightarrow> (\<forall>ns n w. f (snd (rc_Get rc ns n w)) = f w) \<and> (\<forall>ns ob w. f (snd (rc_Create rc ns ob w)) = f w)
     \<and> (\<forall>ns ob w. f (snd (rc_Update rc ns ob w)) = f w) \<and> (\<forall>ns n w. f (snd (rc_Delete rc ns n w)) = f w)"

lemma rc_keepsD:
  assumes "rc_keeps rc f"
  shows "rc_Get rc ns n w = (r, w') \<Longrightarrow> f w' = f w" "rc_Create rc ns ob w = (r, w') \<Longrightarrow> f w' = f w"
    "rc_Update rc ns ob w = (r, w') \<Longrightarrow> f w' = f w" "rc_Delete rc ns n w = (d, w') \<Longrightarrow> f w' = f w"
  using assms unfolding rc_keeps_def by (metis snd_conv)+

locale control_plane = etcd_store cli kvs pc + kube kc view fill_dp fill_ds fill_jb fill_cj
  for cli :: "'w etcd_client" and kvs :: "'w \<Rightarrow> keyspace" and pc :: proto_codec
    and kc :: "'w kube_client" and view :: "'w \<Rightarrow> cluster"
    and fill_dp :: "DeploymentSpec \<Rightarrow> DeploymentSpec \<Rightarrow> bool" and fill_ds :: "DaemonSetSpec \<Rightarrow> DaemonSetSpec \<Rightarrow> bool"
    and fill_jb :: "JobSpec \<Rightarrow> JobSpec \<Rightarrow> bool" and fill_cj :: "CronJobSpec \<Rightarrow> CronJobSpec \<Rightarrow> bool" +
  assumes Get_keeps: "cli_Get cli k w = (r, w') \<Longrightarrow> view w' = view w"
    and Put_keeps: "cli_Put cli k v w = (u, w') \<Longrightarrow> view w' = view w"
    and kube_keeps: "rc_keeps (kc_ConfigMaps kc) kvs" "rc_keeps (kc_Deployments kc) kvs" "rc_keeps (kc_DaemonSets kc) kvs"
      "rc_keeps (kc_Jobs kc) kvs" "rc_keeps (kc_CronJobs kc) kvs"

lemma apply_object_keeps:
  assumes "rc_keeps rc f" "apply_object rc ns n d w = (e, w')"
  shows "f w' = f w"
  using assms(2) rc_keepsD [OF assms(1)]
  by (auto simp: apply_object_def split: prod.splits sum.splits if_splits)

lemma delete_object_keeps:
  assumes "rc_keeps rc f" "delete_object rc kd ns n (errs, w) = (errs', w')"
  shows "f w' = f w"
  using assms(2) rc_keepsD [OF assms(1)] by (auto simp: delete_object_def split: prod.splits sum.splits)

context control_plane
begin

lemma GetActiveFlow_keeps: "GetActiveFlow cli pc n w = (r, w') \<Longrightarrow> view w' = view w"
  by (auto simp: GetActiveFlow_def readActive_def readSpec_def split: prod.splits sum.splits list.splits option.splits dest!: Get_keeps)

lemma UpdateStatus_keeps: "UpdateStatus cli pc n st w = (r, w') \<Longrightarrow> view w' = view w"
  by (auto simp: UpdateStatus_def split: option.splits prod.splits sum.splits dest!: Put_keeps)

lemma applyJob_keeps: "applyJob kc ns sp cmn img pol chk obs otel res w = (r, w') \<Longrightarrow> kvs w' = kvs w"
  using rc_keepsD [OF kube_keeps(4)]
  by (auto simp: applyJob_def Let_def split: prod.splits sum.splits if_splits)

lemma apply_workload_keeps:
  "apply_workload kc ns sp cmn pol chk obs otel w = (r, w') \<Longrightarrow> kvs w' = kvs w"
  using apply_object_keeps [OF kube_keeps(2)] apply_object_keeps [OF kube_keeps(3)] apply_object_keeps [OF kube_keeps(5)]
  by (auto simp: apply_workload_alt applyDeployment_def applyDaemonSet_def applyCronJob_def Let_def
      split: prod.splits if_splits option.splits dest: applyJob_keeps)

lemma applyConfigMap_keeps: "applyConfigMap cc kc ns nm sp w = (r, w') \<Longrightarrow> kvs w' = kvs w"
  using apply_object_keeps [OF kube_keeps(1)]
  by (auto simp: applyConfigMap_def Let_def split: prod.splits sum.splits)

lemma ensureRuntime_keeps:
  "ensureRuntime cc (Some kc) ns spec pol obs otel w = (r, w') \<Longrightarrow> kvs w' = kvs w"
  by (auto simp: ensureRuntime_def Let_def split: prod.splits option.splits if_splits
      dest!: applyConfigMap_keeps apply_workload_keeps)

lemma deleteRuntimeResources_keeps:
  assumes "deleteRuntimeResources (Some kc) ns n w = (e, w')"
  shows "kvs w' = kvs w"
proof (cases "n = ''''")
  case False
  obtain e1 w1 where s1: "delete_object (kc_Deployments kc) DeploymentKind ns (n @ ''-runtime'') ([], w) = (e1, w1)" by fastforce
  obtain e2 w2 where s2: "delete_object (kc_DaemonSets kc) DaemonSetKind ns (n @ ''-runtime'') (e1, w1) = (e2, w2)" by fastforce
  obtain e3 w3 where s3: "delete_object (kc_Jobs kc) JobKind ns n (e2, w2) = (e3, w3)" by fastforce
  obtain e4 w4 where s4: "delete_object (kc_CronJobs kc) CronJobKind ns n (e3, w3) = (e4, w4)" by fastforce
  obtain e5 w5 where s5: "delete_object (kc_ConfigMaps kc) ConfigMapKind ns (n @ ''-config'') (e4, w4) = (e5, w5)" by fastforce
  have "w' = w5" using assms False by (auto simp: deleteRuntimeResources_def Let_def s1 s2 s3 s4 s5)
  then show ?thesis
    using delete_object_keeps [OF kube_keeps(2) s1] delete_object_keeps [OF kube_keeps(3) s2]
      delete_object_keeps [OF kube_keeps(4) s3] delete_object_keeps [OF kube_keeps(5) s4]
      delete_object_keeps [OF kube_keeps(1) s5] by simp
qed (use assms in \<open>auto simp: deleteRuntimeResources_def\<close>)

end

section \<open>Outcomes of a reconcile\<close>

definition runs_on :: "'w Controller \<Rightarrow> 'w etcd_client \<Rightarrow> proto_codec \<Rightarrow> 'w kube_client \<Rightarrow> bool" where
  "runs_on c cli pc kc \<longleftrightarrow> c_cli c = cli \<and> c_pc c = pc \<and> c_kube c = Some kc"

text \<open>No spec is there to run: the flow was deleted, or its active version has no spec.\<close>

definition spec_missing :: "keyspace \<Rightarrow> string \<Rightarrow> bool" where
  "spec_missing m n \<longleftrightarrow> m (activeKey n) = None \<or> (\<exists>v. active_of m n = Some v \<and> m (versionSpecKey n v) = None)"

context control_plane
begin

lemma reconcile_cases:
  assumes r: "reconcile c now n w = (e, w')" and c: "runs_on c cli pc kc"
  obtains (unread) x where "e = Some x" "kvs w' = kvs w" "view w' = view w"
  | (delete) x w1 where "spec_missing (kvs w) n" "kvs w' = kvs w" "view w1 = view w"
      "deleteRuntimeResources (Some kc) (c_runtimeNamespace c) n w1 = (x, w')" "e = map_option RecRuntime x"
  | (failed) v sp x w1 nm where "active_of (kvs w) n = Some v" "spec_of pc (kvs w) n v = Some sp" "view w1 = view w"
      "ensureRuntime (c_cc c) (Some kc) (c_runtimeNamespace c) (Some sp) (pullPolicyFromSpec (Some sp))
         (c_observabilityEnabled c) (c_otelEndpoint c) w1 = ((nm, Some x), w')"
      "e = Some (RecRuntime x)" "kvs w' = kvs w"
  | (applied) v sp w1 w2 nm u where "active_of (kvs w) n = Some v" "spec_of pc (kvs w) n v = Some sp" "view w1 = view w"
      "ensureRuntime (c_cc c) (Some kc) (c_runtimeNamespace c) (Some sp) (pullPolicyFromSpec (Some sp))
         (c_observabilityEnabled c) (c_otelEndpoint c) w1 = ((nm, None), w2)"
      "UpdateStatus cli pc n (Some (deploying_status now v nm)) w2 = (u, w')" "kvs w2 = kvs w" "view w' = view w2"
      "e = (case u of Inl x \<Rightarrow> Some (RecStatus x) | Inr _ \<Rightarrow> None)"
proof -
  note c = c [unfolded runs_on_def]
  obtain g w1 where g: "GetActiveFlow cli pc n w = (g, w1)" by fastforce
  have k: "kvs w1 = kvs w" "view w1 = view w" using GetActiveFlow_pure [OF g] GetActiveFlow_keeps [OF g] by simp_all
  show thesis
  proof (cases g)
    case (Inl x)
    with r g c k show thesis by (intro unread [of "RecStore x"]) (auto simp: reconcile_def reconcile_rest_def)
  next
    case (Inr a)
    obtain so v where a: "a = (so, v)" by (cases a)
    have av: "active_view pc (kvs w) n (so, v)" using GetActiveFlow_view g Inr a by blast
    show thesis
    proof (cases so)
      case None
      obtain x w2 where d: "deleteRuntimeResources (Some kc) (c_runtimeNamespace c) n w1 = (x, w2)" by fastforce
      with r g c Inr a None have "w' = w2" "e = map_option RecRuntime x"
        by (auto simp: reconcile_def reconcile_rest_def split: option.splits)
      moreover have "spec_missing (kvs w) n"
        using av None by (auto simp: spec_missing_def active_view_def split: option.splits)
      ultimately show thesis using delete d k deleteRuntimeResources_keeps [OF d] by metis
    next
      case (Some sp)
      have act: "active_of (kvs w) n = Some v" "spec_of pc (kvs w) n v = Some sp"
        using av Some by (auto simp: active_view_def split: option.splits)
      obtain nm x w2 where en: "ensureRuntime (c_cc c) (Some kc) (c_runtimeNamespace c) (Some sp) (pullPolicyFromSpec (Some sp))
          (c_observabilityEnabled c) (c_otelEndpoint c) w1 = ((nm, x), w2)" by (metis prod.collapse)
      have k2: "kvs w2 = kvs w" using ensureRuntime_keeps [OF en] k by simp
      show thesis
      proof (cases x)
        case (Some y)
        with r g c Inr a \<open>so = Some sp\<close> en have "e = Some (RecRuntime y)" "w' = w2" by (auto simp: reconcile_def reconcile_rest_def)
        with failed act k en Some k2 show thesis by metis
      next
        case None
        obtain u w3 where up: "UpdateStatus cli pc n (Some (deploying_status now v nm)) w2 = (u, w3)" by fastforce
        with r g c Inr a \<open>so = Some sp\<close> en None
        have "e = (case u of Inl x \<Rightarrow> Some (RecStatus x) | Inr _ \<Rightarrow> None)" "w' = w3"
          by (auto simp: reconcile_def reconcile_rest_def split: sum.splits)
        with applied act k en None up k2 UpdateStatus_keeps [OF up] show thesis by metis
      qed
    qed
  qed
qed

lemma reconcile_converges:
  assumes r: "reconcile c now n w = (None, w')" and c: "runs_on c cli pc kc"
  shows "(spec_missing (kvs w) n \<and> kvs w' = kvs w
      \<and> (\<forall>k. view w' k = (if k \<in> runtime_keys (c_runtimeNamespace c) n then None else view w k)))
    \<or> (\<exists>v sp. active_of (kvs w) n = Some v \<and> spec_of pc (kvs w) n v = Some sp
      \<and> runtime_ready fill_dp fill_ds fill_jb fill_cj (c_cc c) (c_runtimeNamespace c) sp (pullPolicyFromSpec (Some sp))
          (c_observabilityEnabled c) (c_otelEndpoint c) (view w) (view w')
      \<and> (\<forall>n'. aflow_of pc (kvs w') n' =
           (if flow_id n' = flow_id n then (aflow_of pc (kvs w) n')\<lparr>a_status := Some (deploying_status now v (workload_name sp))\<rparr>
            else aflow_of pc (kvs w) n')))"
  using r c
proof (cases rule: reconcile_cases)
  case (delete x w1)
  then have x: "x = None" by simp
  then have "n \<noteq> ''''" using delete(4) by (auto simp: deleteRuntimeResources_def)
  from deleteRuntimeResources_cases [OF delete(4) this] x delete(1-3) show ?thesis by auto
next
  case (applied v sp w1 w2 nm u)
  then have u: "u = Inr ()" by (cases u) auto
  note en = ensureRuntime_cases [OF applied(4)]
  obtain b where b: "marshal_status pc (deploying_status now v nm) = Inr b" "kvs w' = (kvs w)(statusKey n \<mapsto> b)"
    using UpdateStatus_cases [OF applied(5)] u applied(6) by auto
  from applied(1,2,3,7) en b(2) aflow_of_status [OF b(1), of "kvs w" n] show ?thesis by (intro disjI2 exI [of _ v] exI [of _ sp]) auto
qed simp_all

lemma reconcile_confined:
  assumes r: "reconcile c now n w = (e, w')" and c: "runs_on c cli pc kc"
    and nm: "\<And>v sp. spec_of pc (kvs w) n v = Some sp \<Longrightarrow> fs_Name sp = n"
  shows "(\<forall>k. k \<notin> runtime_keys (c_runtimeNamespace c) n \<longrightarrow> view w' k = view w k)
    \<and> (kvs w' = kvs w \<or> (\<exists>b. kvs w' = (kvs w)(statusKey n \<mapsto> b)))"
  using r c
proof (cases rule: reconcile_cases)
  case (unread x)
  then show ?thesis by simp
next
  case (delete x w1)
  show ?thesis
  proof (cases "n = ''''")
    case True
    with delete show ?thesis by (auto simp: deleteRuntimeResources_def)
  next
    case False
    from deleteRuntimeResources_cases [OF delete(4) this] delete(2,3) show ?thesis by simp
  qed
next
  case (failed v sp x w1 nm')
  from ensureRuntime_cases [OF failed(4)] wl_key_in [of "c_runtimeNamespace c"] failed(2,3,6) nm show ?thesis by metis
next
  case (applied v sp w1 w2 nm' u)
  have "\<forall>k. k \<notin> runtime_keys (c_runtimeNamespace c) n \<longrightarrow> view w' k = view w k"
    using ensureRuntime_cases [OF applied(4)] wl_key_in [of "c_runtimeNamespace c"] applied(2,3,7) nm by metis
  moreover have "kvs w' = kvs w \<or> (\<exists>b. kvs w' = (kvs w)(statusKey n \<mapsto> b))"
    using UpdateStatus_cases [OF applied(5)] applied(6) by auto
  ultimately show ?thesis by blast
qed

end

section \<open>Both services in memory\<close>

text \<open>A client over one half of a world acts on the world and leaves the other half alone.\<close>

definition on_fst :: "('a \<Rightarrow> 'r \<times> 'a) \<Rightarrow> 'a \<times> 'b \<Rightarrow> 'r \<times> 'a \<times> 'b" where
  "on_fst f w = (case f (fst w) of (r, a) \<Rightarrow> (r, a, snd w))"

definition on_snd :: "('b \<Rightarrow> 'r \<times> 'b) \<Rightarrow> 'a \<times> 'b \<Rightarrow> 'r \<times> 'a \<times> 'b" where
  "on_snd f w = (case f (snd w) of (r, b) \<Rightarrow> (r, fst w, b))"

lemma on_fst_iff: "on_fst f w = (r, w') \<longleftrightarrow> f (fst w) = (r, fst w') \<and> snd w' = snd w"
  by (cases w') (auto simp: on_fst_def split: prod.splits)

lemma on_snd_iff: "on_snd f w = (r, w') \<longleftrightarrow> f (snd w) = (r, snd w') \<and> fst w' = fst w"
  by (cases w') (auto simp: on_snd_def split: prod.splits)

definition both_etcd :: "(etcd_mem \<times> kube_mem) etcd_client" where
  "both_etcd = \<lparr>cli_Get = (\<lambda>k. on_fst (cli_Get mem_client k)), cli_GetPrefix = (\<lambda>p. on_fst (cli_GetPrefix mem_client p)),
     cli_Put = (\<lambda>k v. on_fst (cli_Put mem_client k v)), cli_DeletePrefix = (\<lambda>p. on_fst (cli_DeletePrefix mem_client p)),
     cli_Txn = (\<lambda>cs ops. on_fst (cli_Txn mem_client cs ops))\<rparr>"

definition both_rc :: "('s, kube_mem) resource_client \<Rightarrow> ('s, etcd_mem \<times> kube_mem) resource_client" where
  "both_rc rc = \<lparr>rc_Get = (\<lambda>ns n. on_snd (rc_Get rc ns n)), rc_Create = (\<lambda>ns ob. on_snd (rc_Create rc ns ob)),
     rc_Update = (\<lambda>ns ob. on_snd (rc_Update rc ns ob)), rc_Delete = (\<lambda>ns n. on_snd (rc_Delete rc ns n))\<rparr>"

definition both_kube :: "(etcd_mem \<times> kube_mem) kube_client" where
  "both_kube = \<lparr>kc_ConfigMaps = both_rc (kc_ConfigMaps kmem), kc_Deployments = both_rc (kc_Deployments kmem),
     kc_DaemonSets = both_rc (kc_DaemonSets kmem), kc_Jobs = both_rc (kc_Jobs kmem), kc_CronJobs = both_rc (kc_CronJobs kmem)\<rparr>"

definition both_kvs :: "etcd_mem \<times> kube_mem \<Rightarrow> keyspace" where
  "both_kvs w = mem_view (fst w)"

definition both_view :: "etcd_mem \<times> kube_mem \<Rightarrow> cluster" where
  "both_view w = km_view (snd w)"

lemma both_rc_resource:
  assumes "kube_resource rc kd mk fill km_view"
  shows "kube_resource (both_rc rc) kd mk fill both_view"
proof (unfold_locales, goal_cases)
  case (1 ns n w r w')
  then have "rc_Get rc ns n (snd w) = (r, snd w')" by (simp add: both_rc_def on_snd_iff)
  from kube_resource.kGet [OF assms this] show ?case unfolding both_view_def .
next
  case (2 ns ob w r w')
  then have "rc_Create rc ns ob (snd w) = (r, snd w')" by (simp add: both_rc_def on_snd_iff)
  from kube_resource.kCreate [OF assms this] show ?case unfolding both_view_def .
next
  case (3 ns ob w r w')
  then have "rc_Update rc ns ob (snd w) = (r, snd w')" by (simp add: both_rc_def on_snd_iff)
  from kube_resource.kUpdate [OF assms this] show ?case unfolding both_view_def .
next
  case (4 ns n w d w')
  then have "rc_Delete rc ns n (snd w) = (d, snd w')" by (simp add: both_rc_def on_snd_iff)
  from kube_resource.kDelete [OF assms this] show ?case unfolding both_view_def .
qed

lemma both_rc_keeps: "rc_keeps (both_rc rc) both_kvs"
  by (simp add: rc_keeps_def both_rc_def both_kvs_def on_snd_def split: prod.splits)

lemma both_etcd_laws: "etcd both_etcd both_kvs"
proof (unfold_locales, goal_cases)
  case (1 k w r w')
  then have "cli_Get mem_client k (fst w) = (r, fst w')" by (simp add: both_etcd_def on_fst_iff)
  from mem.Get_law [OF this] show ?case unfolding both_kvs_def .
next
  case (2 p w r w')
  then have "cli_GetPrefix mem_client p (fst w) = (r, fst w')" by (simp add: both_etcd_def on_fst_iff)
  from mem.GetPrefix_law [OF this] show ?case unfolding both_kvs_def .
next
  case (3 k v w w')
  then have "cli_Put mem_client k v (fst w) = (Inr (), fst w')" by (simp add: both_etcd_def on_fst_iff)
  from mem.Put_ok [OF this] show ?case unfolding both_kvs_def .
next
  case (4 k v w e w')
  then have "cli_Put mem_client k v (fst w) = (Inl e, fst w')" by (simp add: both_etcd_def on_fst_iff)
  from mem.Put_err [OF this] show ?case unfolding both_kvs_def .
next
  case (5 p w w')
  then have "cli_DeletePrefix mem_client p (fst w) = (Inr (), fst w')" by (simp add: both_etcd_def on_fst_iff)
  from mem.DeletePrefix_ok [OF this] show ?case unfolding both_kvs_def .
next
  case (6 p w e w')
  then have "cli_DeletePrefix mem_client p (fst w) = (Inl e, fst w')" by (simp add: both_etcd_def on_fst_iff)
  from mem.DeletePrefix_err [OF this] show ?case unfolding both_kvs_def .
next
  case (7 cs ops w b w')
  then have "cli_Txn mem_client cs ops (fst w) = (Inr b, fst w')" by (simp add: both_etcd_def on_fst_iff)
  from mem.Txn_ok [OF this] show ?case unfolding both_kvs_def .
next
  case (8 cs ops w e w')
  then have "cli_Txn mem_client cs ops (fst w) = (Inl e, fst w')" by (simp add: both_etcd_def on_fst_iff)
  from mem.Txn_err [OF this] show ?case unfolding both_kvs_def .
qed

interpretation both: control_plane both_etcd both_kvs mini_codec both_kube both_view "(=)" "(=)" "(=)" "(=)"
proof -
  have "etcd both_etcd both_kvs" by (rule both_etcd_laws)
  then have "etcd_store both_etcd both_kvs mini_codec" unfolding etcd_store_def using mini.proto_spec_axioms by blast
  moreover have "kube both_kube both_view (=) (=) (=) (=)"
    using memkube.kube_axioms unfolding kube_def by (simp add: both_kube_def both_rc_resource)
  moreover have "control_plane_axioms both_etcd both_kvs both_kube both_view"
    by (unfold_locales) (auto simp: both_etcd_def both_kube_def both_rc_keeps on_fst_iff both_view_def)
  ultimately show "control_plane both_etcd both_kvs mini_codec both_kube both_view (=) (=) (=) (=)"
    unfolding control_plane_def by blast
qed

section \<open>What ends up in the queue\<close>

context work_queue
begin

lemma enqueue_flows_view:
  "queued (mq_q (enqueue_flows ops now fs m)) =
     (if down (mq_q m) then queued (mq_q m) else queued (mq_q m) \<union> fl_Name ` set fs)
   \<and> delayed (mq_q (enqueue_flows ops now fs m)) = delayed (mq_q m)
   \<and> processing (mq_q (enqueue_flows ops now fs m)) = processing (mq_q m)
   \<and> down (mq_q (enqueue_flows ops now fs m)) = down (mq_q m)"
  by (induction fs arbitrary: m) (auto simp: MQ_Add_view)

lemma runWatch_view:
  "queued (mq_q (runWatch ops now evs m)) =
     (if down (mq_q m) then queued (mq_q m) else queued (mq_q m) \<union> {fl_Name f | ev f. ev \<in> set evs \<and> we_Flow ev = Some f})
   \<and> delayed (mq_q (runWatch ops now evs m)) = delayed (mq_q m)
   \<and> processing (mq_q (runWatch ops now evs m)) = processing (mq_q m)
   \<and> down (mq_q (runWatch ops now evs m)) = down (mq_q m)"
proof (induction evs arbitrary: m)
  case (Cons ev evs)
  show ?case
  proof (cases "we_Flow ev")
    case None
    then show ?thesis using Cons.IH [of m] by auto
  next
    case (Some f)
    have "runWatch ops now (ev # evs) m = runWatch ops now evs (MQ_Add ops now (fl_Name f) m)"
      using Some by (simp split: WatchEventType.splits)
    then show ?thesis using Cons.IH [of "MQ_Add ops now (fl_Name f) m"] Some by (auto simp: MQ_Add_view)
  qed
qed simp

text \<open>The effect of a turn of a worker on the queue.\<close>

lemma finish_turn_view:
  "pending (mq_q (finish_turn ops now k e m)) = (if e = None \<or> down (mq_q m) then pending (mq_q m) else insert k (pending (mq_q m)))"
  "e = None \<or> down (mq_q m) \<Longrightarrow>
     queued (mq_q (finish_turn ops now k e m)) = queued (mq_q m) \<and> delayed (mq_q (finish_turn ops now k e m)) = delayed (mq_q m)"
  "processing (mq_q (finish_turn ops now k e m)) = processing (mq_q m) - {k}"
  "down (mq_q (finish_turn ops now k e m)) = down (mq_q m)"
  by (cases e; simp add: finish_turn_def MQ_Forget_view MQ_Retry_view)+

lemma worker_step_ran:
  assumes "worker_step ops c now d (m, w) = (WorkerRan k e, m', w')"
  shows "k \<in> pending (mq_q m)" "k \<notin> processing (mq_q m)" "processing (mq_q m') = processing (mq_q m)"
    "down (mq_q m') = down (mq_q m)" "reconcile c now k w = (e, w')"
    "down (mq_q m) \<or> delayed (mq_q m) = {} \<and> e = None \<Longrightarrow>
       k \<in> queued (mq_q m) \<and> queued (mq_q m') = queued (mq_q m) - {k} \<and> delayed (mq_q m') = delayed (mq_q m)"
proof -
  obtain g m1 where g: "MQ_Get ops now m = (g, m1)" by fastforce
  with assms obtain lag where l: "g = Some (k, lag, True)" and r: "reconcile c now k w = (e, w')"
    and m': "m' = finish_turn ops now k e m1"
    by (auto simp: worker_step_def split: if_splits prod.splits option.splits)
  note q = MQ_Get_key [OF g [unfolded l]] and f = finish_turn_view [where now = now and k = k and e = e and m = m1, folded m']
  show "k \<in> pending (mq_q m)" "k \<notin> processing (mq_q m)" "reconcile c now k w = (e, w')" using q r by simp_all
  show "processing (mq_q m') = processing (mq_q m)" "down (mq_q m') = down (mq_q m)" using q(2,5,6) f(3,4) by auto
  show "k \<in> queued (mq_q m) \<and> queued (mq_q m') = queued (mq_q m) - {k} \<and> delayed (mq_q m') = delayed (mq_q m)"
    if "down (mq_q m) \<or> delayed (mq_q m) = {} \<and> e = None"
    using that q(6,7) f(2) by auto
qed

lemma worker_step_not_ran:
  assumes "worker_step ops c now d (m, w) = (t, m', w')" "\<forall>k e. t \<noteq> WorkerRan k e"
  shows "pending (mq_q m') = pending (mq_q m)" "processing (mq_q m') = processing (mq_q m)"
    "down (mq_q m') = down (mq_q m)" "w' = w" "t = WorkerIdles \<Longrightarrow> down (mq_q m)"
    "down (mq_q m) \<or> delayed (mq_q m) = {} \<Longrightarrow> queued (mq_q m') = queued (mq_q m) \<and> delayed (mq_q m') = delayed (mq_q m)"
    "\<not> d \<Longrightarrow> \<not> down (mq_q m) \<Longrightarrow> queued (mq_q m) \<subseteq> processing (mq_q m)"
proof -
  have c: "d \<and> m' = m \<and> t = WorkerStops \<or> \<not> d \<and> (wq_Get ops (mq_q m) = (Blocked, mq_q m') \<and> t = WorkerWaits
      \<or> wq_Get ops (mq_q m) = (GotShutdown, mq_q m') \<and> t = WorkerIdles)" and w: "w' = w"
    using assms by (auto simp: worker_step_def MQ_Get_def split: if_splits prod.splits option.splits get_result.splits)
  note laws = Get_Blocked [of "mq_q m" "mq_q m'"] Get_Shutdown [of "mq_q m" "mq_q m'"]
  show "w' = w" by (rule w)
  show "pending (mq_q m') = pending (mq_q m)" "processing (mq_q m') = processing (mq_q m)"
    "down (mq_q m') = down (mq_q m)" "t = WorkerIdles \<Longrightarrow> down (mq_q m)"
    "down (mq_q m) \<or> delayed (mq_q m) = {} \<Longrightarrow> queued (mq_q m') = queued (mq_q m) \<and> delayed (mq_q m') = delayed (mq_q m)"
    "\<not> d \<Longrightarrow> \<not> down (mq_q m) \<Longrightarrow> queued (mq_q m) \<subseteq> processing (mq_q m)"
    using c laws by (fastforce dest: subsetD)+
qed

text \<open>
  Without failures and without delayed keys every key is run once: each turn takes a queued key away, or finds none left.
\<close>

lemma worker_drains:
  assumes "worker ops c (map (\<lambda>t. (t, False)) nows) (m, w) = (turns, m', w')"
    and "\<And>k x. WorkerRan k (Some x) \<notin> set turns"
    and "finite (queued (mq_q m))" "delayed (mq_q m) = {}" "processing (mq_q m) = {}" "\<not> down (mq_q m)"
  shows "{k. WorkerRan k None \<in> set turns} \<subseteq> queued (mq_q m)
    \<and> queued (mq_q m') = queued (mq_q m) - {k. WorkerRan k None \<in> set turns} \<and> delayed (mq_q m') = {}
    \<and> (card (queued (mq_q m)) \<le> length nows \<longrightarrow> queued (mq_q m') = {})"
  using assms
proof (induction nows arbitrary: m w turns)
  case Nil
  then show ?case by auto
next
  case (Cons now nows)
  obtain t m1 w1 where st: "worker_step ops c now False (m, w) = (t, m1, w1)" by (metis prod_cases3)
  obtain rest where rest: "worker ops c (map (\<lambda>t. (t, False)) nows) (m1, w1) = (rest, m', w')" "turns = t # rest"
    using Cons.prems(1) st by (cases t) (auto simp: worker_step_def split: if_splits prod.splits option.splits)
  have ok: "\<And>k x. WorkerRan k (Some x) \<notin> set rest" using Cons.prems(2) rest(2) by auto
  show ?case
  proof (cases "\<exists>k. t = WorkerRan k None")
    case True
    then obtain k where t: "t = WorkerRan k None" by blast
    note v = worker_step_ran [OF st [unfolded t]]
    have v6: "k \<in> queued (mq_q m)" "queued (mq_q m1) = queued (mq_q m) - {k}" "delayed (mq_q m1) = {}"
      using v(6) Cons.prems(4) by auto
    have "finite (queued (mq_q m1))" "delayed (mq_q m1) = {}" "processing (mq_q m1) = {}" "\<not> down (mq_q m1)"
      using v(3,4) v6 Cons.prems(3-6) by simp_all
    note IH = Cons.IH [OF rest(1) ok this]
    have "card (queued (mq_q m1)) = card (queued (mq_q m)) - 1" using v6 Cons.prems(3) by simp
    then show ?thesis using IH v6 t rest(2) by auto
  next
    case False
    then have nr: "\<forall>k e. t \<noteq> WorkerRan k e" using Cons.prems(2) rest(2) by (metis list.set_intros(1) not_Some_eq)
    note v = worker_step_not_ran [OF st nr]
    have e: "queued (mq_q m) = {}" using v(7) Cons.prems(5,6) by simp
    have "queued (mq_q m1) = {}" "delayed (mq_q m1) = {}" using v(6) e Cons.prems(4) by simp_all
    moreover have "processing (mq_q m1) = {}" "\<not> down (mq_q m1)" using v(2,3) Cons.prems(5,6) by simp_all
    ultimately show ?thesis using Cons.IH [OF rest(1) ok] e rest(2) nr by auto
  qed
qed

end

section \<open>Properties\<close>

definition ctl0 :: "(etcd_mem \<times> kube_mem) Controller" where
  "ctl0 = \<lparr>c_cli = both_etcd, c_pc = mini_codec, c_cc = mini_cc, c_kube = Some both_kube, c_runtimeNamespace = ''ns'',
     c_observabilityEnabled = False, c_otelEndpoint = '''', c_workerCount = 1\<rparr>"

lemma ctl0_runs: "runs_on ctl0 both_etcd mini_codec both_kube"
  by (simp add: runs_on_def ctl0_def)

definition mem_foo :: etcd_mem where
  "mem_foo = \<lparr>mem_kvs = [(''/flowpipe/flows/foo/active'', ''2''), (''/flowpipe/flows/foo/versions/2/spec'', ''d2:foo'')],
     mem_faults = []\<rparr>"

definition foo_queue :: "list_queue MemoryQueue" where
  "foo_queue = NewMemoryQueue \<lparr>lq_waiting = [''foo''], lq_delayed = [], lq_processing = [], lq_down = False\<rparr>"

text \<open>
  C5: a reconcile without an error brings the cluster to the state the store asks for. When the flow has no
  spec to run (no active pointer, or no spec under it) none of its runtime objects is left, and no other
  object and no key changes. Otherwise its runtime is ready for the active spec, the status of
  the flow is \<open>DEPLOYING\<close> for the active version and names the workload, and no other flow and nothing else of
  this flow changes.
\<close>

theorem reconcile_reaches_spec:
  assumes "control_plane cli kvs pc kc view fill_dp fill_ds fill_jb fill_cj" "runs_on c cli pc kc"
    "reconcile c now n w = (None, w')"
  shows "(spec_missing (kvs w) n \<and> kvs w' = kvs w
      \<and> (\<forall>k. view w' k = (if k \<in> runtime_keys (c_runtimeNamespace c) n then None else view w k)))
    \<or> (\<exists>v sp. active_of (kvs w) n = Some v \<and> spec_of pc (kvs w) n v = Some sp
      \<and> runtime_ready fill_dp fill_ds fill_jb fill_cj (c_cc c) (c_runtimeNamespace c) sp (pullPolicyFromSpec (Some sp))
          (c_observabilityEnabled c) (c_otelEndpoint c) (view w) (view w')
      \<and> (\<forall>n'. aflow_of pc (kvs w') n' =
           (if flow_id n' = flow_id n then (aflow_of pc (kvs w) n')\<lparr>a_status := Some (deploying_status now v (workload_name sp))\<rparr>
            else aflow_of pc (kvs w) n')))"
  by (rule control_plane.reconcile_converges [OF assms(1,3,2)])

theorem reconcile_reaches_spec_witness:
  "\<exists>w'. reconcile ctl0 0 ''foo'' (mem_foo, km0) = (None, w')
     \<and> a_status (aflow_of mini_codec (both_kvs w') ''foo'') = Some (deploying_status 0 2 ''foo-runtime'')"
proof -
  have "fst (reconcile ctl0 0 ''foo'' (mem_foo, km0)) = None" by code_simp
  then obtain w' where r: "reconcile ctl0 0 ''foo'' (mem_foo, km0) = (None, w')" by (metis prod.collapse)
  have a: "active_of (mem_view mem_foo) ''foo'' = Some 2"
    "spec_of mini_codec (mem_view mem_foo) ''foo'' 2 = Some (demo_spec\<lparr>fs_Name := ''foo'', fs_Version := 2\<rparr>)"
    "mem_view mem_foo (activeKey ''foo'') \<noteq> None" "mem_view mem_foo (versionSpecKey ''foo'' 2) \<noteq> None"
    "workload_name (demo_spec\<lparr>fs_Name := ''foo'', fs_Version := 2\<rparr>) = ''foo-runtime''" by code_simp+
  then have "\<not> spec_missing (both_kvs (mem_foo, km0)) ''foo''" by (simp add: spec_missing_def both_kvs_def)
  with reconcile_reaches_spec [OF both.control_plane_axioms ctl0_runs r] a r show ?thesis by (auto simp: both_kvs_def)
qed

lemma list_view_names:
  assumes "list_all (\<lambda>(k, b). case unmarshal_spec pc b of Inl _ \<Rightarrow> True | Inr s \<Rightarrow> fs_Name s = n) xs"
    "spec_of pc (map_of xs) n v = Some sp"
  shows "fs_Name sp = n"
proof -
  obtain b where "(versionSpecKey n v, b) \<in> set xs" "unmarshal_spec pc b = Inr sp"
    using assms(2) by (auto simp: spec_of_def dest!: map_of_SomeD split: option.splits sum.splits)
  with assms(1) show ?thesis unfolding list_all_iff by fastforce
qed

text \<open>
  C23: a reconcile of one flow stays within that flow on every outcome, errors included: with specs stored under their
  own name, the only objects it may change are the five runtime objects of the flow, and the only key
  it may write is the status of the flow.
\<close>

theorem reconcile_stays_in_flow:
  assumes "control_plane cli kvs pc kc view fill_dp fill_ds fill_jb fill_cj" "runs_on c cli pc kc"
    "reconcile c now n w = (e, w')" "\<And>v sp. spec_of pc (kvs w) n v = Some sp \<Longrightarrow> fs_Name sp = n"
  shows "(\<forall>k. k \<notin> runtime_keys (c_runtimeNamespace c) n \<longrightarrow> view w' k = view w k)
    \<and> (\<forall>k. k \<noteq> statusKey n \<longrightarrow> kvs w' k = kvs w k)"
proof -
  have "(\<forall>k. k \<notin> runtime_keys (c_runtimeNamespace c) n \<longrightarrow> view w' k = view w k)
    \<and> (kvs w' = kvs w \<or> (\<exists>b. kvs w' = (kvs w)(statusKey n \<mapsto> b)))"
    by (rule control_plane.reconcile_confined [OF assms(1,3,2)]) (rule assms(4))
  then show ?thesis by auto
qed

theorem reconcile_stays_in_flow_witness:
  "\<exists>w'. reconcile ctl0 0 ''foo'' (mem_foo, km0) = (None, w')
     \<and> both_kvs w' (statusKey ''foo'') \<noteq> None \<and> both_view w' (cm_key (c_runtimeNamespace ctl0) ''foo'') \<noteq> None
     \<and> both_kvs w' (versionSpecKey ''foo'' 2) = Some ''d2:foo''
     \<and> both_view w' (cm_key (c_runtimeNamespace ctl0) ''foobar'') = both_view (mem_foo, km0) (cm_key (c_runtimeNamespace ctl0) ''foobar'')"
proof -
  have r0: "fst (reconcile ctl0 0 ''foo'' (mem_foo, km0)) = None"
    "both_kvs (snd (reconcile ctl0 0 ''foo'' (mem_foo, km0))) (statusKey ''foo'') \<noteq> None"
    "both_view (snd (reconcile ctl0 0 ''foo'' (mem_foo, km0))) (cm_key (c_runtimeNamespace ctl0) ''foo'') \<noteq> None"
    "both_kvs (mem_foo, km0) (versionSpecKey ''foo'' 2) = Some ''d2:foo''"
    "versionSpecKey ''foo'' 2 \<noteq> statusKey ''foo''"
    by code_simp+
  then obtain w' where r: "reconcile ctl0 0 ''foo'' (mem_foo, km0) = (None, w')" by (metis prod.collapse)
  have "list_all (\<lambda>(k, b). case unmarshal_spec mini_codec b of Inl _ \<Rightarrow> True | Inr s \<Rightarrow> fs_Name s = ''foo'') (mem_kvs mem_foo)"
    by code_simp
  then have n: "fs_Name sp = ''foo''" if "spec_of mini_codec (both_kvs (mem_foo, km0)) ''foo'' v = Some sp" for v sp
    using that unfolding both_kvs_def mem_view_def fst_conv by (rule list_view_names)
  have o: "cm_key (c_runtimeNamespace ctl0) ''foobar'' \<notin> runtime_keys (c_runtimeNamespace ctl0) ''foo''"
    by (simp add: runtime_keys_def cm_key_def)
  have "(\<forall>k. k \<notin> runtime_keys (c_runtimeNamespace ctl0) ''foo'' \<longrightarrow> both_view w' k = both_view (mem_foo, km0) k)
      \<and> (\<forall>k. k \<noteq> statusKey ''foo'' \<longrightarrow> both_kvs w' k = both_kvs (mem_foo, km0) k)"
    by (rule reconcile_stays_in_flow [OF both.control_plane_axioms ctl0_runs r]) (rule n)
  then have "both_view w' (cm_key (c_runtimeNamespace ctl0) ''foobar'') = both_view (mem_foo, km0) (cm_key (c_runtimeNamespace ctl0) ''foobar'')"
    "both_kvs w' (versionSpecKey ''foo'' 2) = Some ''d2:foo''" using o r0(4,5) by (simp_all add: cm_key_def)
  with r r0(2,3) [unfolded r snd_conv] show ?thesis by blast
qed

text \<open>
  C21: a worker gets through its queue. When no key waits for a rate-limited delay, nobody is processing a key and the queue is
  not shut down, a worker that takes as many turns as there are queued keys, with the context open in each of them and no
  reconcile failing, leaves no key waiting, and the keys it has reconciled are exactly those that were queued.
\<close>

theorem worker_empties_queue:
  assumes "work_queue ops queued delayed processing down"
    and "worker ops c (map (\<lambda>t. (t, False)) nows) (m, w) = (turns, m', w')" "\<And>k x. WorkerRan k (Some x) \<notin> set turns"
    and "finite (queued (mq_q m))" "delayed (mq_q m) = {}" "processing (mq_q m) = {}" "\<not> down (mq_q m)"
    and "card (queued (mq_q m)) \<le> length nows"
  shows "queued (mq_q m') = {} \<and> delayed (mq_q m') = {} \<and> {k. WorkerRan k None \<in> set turns} = queued (mq_q m)"
  using work_queue.worker_drains [OF assms(1,2,3-7)] assms(8) by auto

theorem worker_empties_queue_witness:
  "\<exists>turns m' w'. worker lq_ops ctl0 (map (\<lambda>t. (t, False)) [0, 0]) (foo_queue, mem_foo, km0) = (turns, m', w')
     \<and> lq_waiting (mq_q m') = [] \<and> WorkerRan ''foo'' None \<in> set turns"
proof -
  have t: "fst (worker lq_ops ctl0 (map (\<lambda>t. (t, False)) [0, 0]) (foo_queue, mem_foo, km0)) = [WorkerRan ''foo'' None, WorkerWaits]"
    by code_simp
  then obtain m' w' where r: "worker lq_ops ctl0 (map (\<lambda>t. (t, False)) [0, 0]) (foo_queue, mem_foo, km0)
      = ([WorkerRan ''foo'' None, WorkerWaits], m', w')" by (metis prod.collapse)
  from worker_empties_queue [OF listq.work_queue_axioms r] r show ?thesis
    by (simp add: foo_queue_def NewMemoryQueue_def)
qed

text \<open>
  every change the controller hears of is scheduled. The initial sync leaves the name of every flow it
  lists waiting in the queue, a watch leaves the name of every event it receives waiting, and neither touches
  what the workers hold; after the shutdown of the queue nothing is added.
\<close>

lemma changes_are_scheduled:
  assumes "work_queue ops queued delayed processing down"
  shows "queued (mq_q (runWatch ops now evs m)) =
      (if down (mq_q m) then queued (mq_q m) else queued (mq_q m) \<union> {fl_Name f | ev f. ev \<in> set evs \<and> we_Flow ev = Some f})
    \<and> processing (mq_q (runWatch ops now evs m)) = processing (mq_q m)
    \<and> (case ctl_ListFlows (c_cli c) (c_pc c) visit w of
         (Inl e, w') \<Rightarrow> enqueueExisting ops c visit now (m, w) = (Some e, m, w')
       | (Inr fs, w') \<Rightarrow> (\<exists>m'. enqueueExisting ops c visit now (m, w) = (None, m', w')
           \<and> queued (mq_q m') = (if down (mq_q m) then queued (mq_q m) else queued (mq_q m) \<union> fl_Name ` set fs)
           \<and> processing (mq_q m') = processing (mq_q m)))"
  using work_queue.runWatch_view [OF assms] work_queue.enqueue_flows_view [OF assms]
  by (auto simp: enqueueExisting_def split: prod.splits sum.splits)

lemma changes_are_scheduled_example:
  "set (lq_waiting (mq_q (runWatch lq_ops 3
     [\<lparr>we_Type = WatchDeleted, we_Flow = Some \<lparr>fl_Name = ''bar'', fl_Version = 0, fl_Spec = None, fl_Status = None\<rparr>\<rparr>] foo_queue)))
   = {''foo'', ''bar''}"
proof -
  let ?ev = "\<lparr>we_Type = WatchDeleted, we_Flow = Some \<lparr>fl_Name = ''bar'', fl_Version = 0, fl_Spec = None, fl_Status = None\<rparr>\<rparr>"
  have "\<not> lq_down (mq_q foo_queue)" "set (lq_waiting (mq_q foo_queue)) = {''foo''}"
    by (simp_all add: foo_queue_def NewMemoryQueue_def)
  then show ?thesis
    using changes_are_scheduled [OF listq.work_queue_axioms, of 3 "[?ev]" foo_queue ctl0 "\<lambda>x. x" "(mem0, km0)", THEN conjunct1]
    by auto
qed

end
