(* ===== verification/Ctl_Run.thy ===== *)
theory Ctl_Run
  imports Ctl_Reconcile Program_Config Go_Path
begin

text \<open>
  The controller as a process (\<^verbatim>\<open>controller.go\<close>, \<^verbatim>\<open>cmd/flow-controller/main.go\<close>, \<^verbatim>\<open>kube/client.go\<close>): finding the
  cluster and the identity of the process, one run of the controller from the initial sync to the
  shutdown of its queue, and the loop that runs it again and again under leader election. The leader elector, the
  operating system and the libraries that build a client are parameters.

  A run is an inductive relation on the queue and the world: events, turns of the workers and changes that others make to
  the world in any order.
\<close>

section \<open>Finding the cluster\<close>

text \<open>\<open>home\<close> is the home directory of the user, if there is one.\<close>

definition kubeconfigPath :: "environ \<Rightarrow> string option \<Rightarrow> string" where
  "kubeconfigPath env home =
     (let e = Getenv env ''KUBECONFIG'' in
      if e \<noteq> '''' then e
      else case home of None \<Rightarrow> '''' | Some h \<Rightarrow> path_Join [h, ''.kube'', ''config''])"

datatype kube_setup_error = KubeconfigFailed string string | ClientsetFailed string

record 'c kube_libs =
  kl_InClusterConfig :: "string + 'c"
  kl_BuildConfig :: "string \<Rightarrow> string + 'c"
  kl_NewForConfig :: "'c \<Rightarrow> string option"

definition loadConfig :: "'c kube_libs \<Rightarrow> environ \<Rightarrow> string option \<Rightarrow> kube_setup_error + 'c" where
  "loadConfig kl env home =
     (case kl_InClusterConfig kl of
        Inr cfg \<Rightarrow> Inr cfg
      | Inl _ \<Rightarrow>
          let kubeconfig = kubeconfigPath env home in
          (case kl_BuildConfig kl kubeconfig of
             Inl e \<Rightarrow> Inl (KubeconfigFailed kubeconfig e)
           | Inr cfg \<Rightarrow> Inr cfg))"

definition kube_New :: "'c kube_libs \<Rightarrow> environ \<Rightarrow> string option \<Rightarrow> kube_setup_error + 'c" where
  "kube_New kl env home =
     (case loadConfig kl env home of
        Inl e \<Rightarrow> Inl e
      | Inr cfg \<Rightarrow>
          (case kl_NewForConfig kl cfg of
             Some e \<Rightarrow> Inl (ClientsetFailed e)
           | None \<Rightarrow> Inr cfg))"

definition node_name :: "environ \<Rightarrow> string + string \<Rightarrow> nat \<Rightarrow> string" where
  "node_name env hostname pid =
     (let nodeName = Getenv env ''POD_NAME'' in
      if nodeName \<noteq> '''' then nodeName
      else let host = (case hostname of Inl _ \<Rightarrow> '''' | Inr h \<Rightarrow> h);
               host = (if host = '''' then ''flow-controller-local'' else host)
           in host @ ''-'' @ format_nat pid)"

section \<open>One run of the controller\<close>

text \<open>
  What happens between the initial sync and the end of the context: a watch event, a turn of a worker, or a change
  of the world by someone else.
\<close>

inductive serves :: "'q wq_ops \<Rightarrow> 'w Controller \<Rightarrow> 'q MemoryQueue \<times> 'w \<Rightarrow> 'q MemoryQueue \<times> 'w \<Rightarrow> bool" for ops c where
  serves_refl: "serves ops c s s"
| serves_event: "serves ops c s (m, w) \<Longrightarrow> serves ops c s (runWatch ops now [ev] m, w)"
| serves_turn: "serves ops c s (m, w) \<Longrightarrow> worker_step ops c now False (m, w) = (t, m', w') \<Longrightarrow> serves ops c s (m', w')"
| serves_outside: "serves ops c s (m, w) \<Longrightarrow> serves ops c s (m, w')"

text \<open>
  \<^verbatim>\<open>Run\<close>: its error, if the initial sync fails; otherwise it serves until the context is done, shuts the queue
  down and waits for the workers, which may still be in a turn. The number of workers only bounds which interleavings occur.
\<close>

inductive Run :: "'q wq_ops \<Rightarrow> 'w Controller \<Rightarrow> 'q MemoryQueue \<times> 'w \<Rightarrow> store_error option \<Rightarrow> 'q MemoryQueue \<times> 'w \<Rightarrow> bool" for ops c where
  RunFailed: "enqueueExisting ops c visit now s = (Some e, s') \<Longrightarrow> Run ops c s (Some e) s'"
| RunStopped: "enqueueExisting ops c visit now s = (None, s1) \<Longrightarrow> serves ops c s1 (m, w) \<Longrightarrow>
    serves ops c (MQ_Shutdown ops m, w) s' \<Longrightarrow> Run ops c s None s'"

inductive_cases Run_stoppedE: "Run ops c s None s'"

section \<open>Leader election\<close>

text \<open>
  The configuration the elector is built from. The elector itself belongs to client-go: building it may fail, which is the
  parameter \<open>newElector\<close>, and what \<^verbatim>\<open>runWithLeaderElection\<close> hears from it is a list of events, in order: the context
  is done, a run of the controller failed, or leadership was lost (with whether the context is done by the time the elector
  has returned). The loop returns with the error, or goes on; \<open>None\<close> is a loop that is still waiting.
\<close>

record leader_config =
  lc_Name :: string
  lc_Namespace :: string
  lc_Identity :: string
  lc_LeaseDuration :: int
  lc_RenewDeadline :: int
  lc_RetryPeriod :: int
  lc_ReleaseOnCancel :: bool

definition leaderConfig :: "CtlConfig \<Rightarrow> string \<Rightarrow> leader_config" where
  "leaderConfig cfg nodeName =
     \<lparr>lc_Name = ctl_LeaderElectionName cfg, lc_Namespace = ctl_LeaderElectionNamespace cfg, lc_Identity = nodeName,
      lc_LeaseDuration = ctl_LeaderElectionLeaseDuration cfg, lc_RenewDeadline = ctl_LeaderElectionRenewDeadline cfg,
      lc_RetryPeriod = ctl_LeaderElectionRetryPeriod cfg, lc_ReleaseOnCancel = True\<rparr>"

datatype election_error = ElectorFailed string | ControllerFailed store_error

datatype election_event = ElectionDone | ElectionError store_error | LeadershipLost bool

fun election_loop :: "election_event list \<Rightarrow> election_error option option" where
  "election_loop [] = None"
| "election_loop (ElectionDone # evs) = Some None"
| "election_loop (ElectionError err # evs) = Some (Some (ControllerFailed err))"
| "election_loop (LeadershipLost ctxDone # evs) = (if ctxDone then Some None else election_loop evs)"

definition runWithLeaderElection ::
  "(leader_config \<Rightarrow> string option) \<Rightarrow> CtlConfig \<Rightarrow> string \<Rightarrow> election_event list \<Rightarrow> election_error option option" where
  "runWithLeaderElection newElector cfg nodeName evs =
     (case newElector (leaderConfig cfg nodeName) of
        Some err \<Rightarrow> Some (Some (ElectorFailed err))
      | None \<Rightarrow> election_loop evs)"

text \<open>The runs of one process: each term of leadership runs the controller on the same queue.\<close>

inductive terms :: "'q wq_ops \<Rightarrow> 'w Controller \<Rightarrow> nat \<Rightarrow> 'q MemoryQueue \<times> 'w \<Rightarrow> 'q MemoryQueue \<times> 'w \<Rightarrow> bool" for ops c where
  terms_none: "terms ops c 0 s s"
| terms_more: "terms ops c k s (m, w) \<Longrightarrow> Run ops c (m, w') None s' \<Longrightarrow> terms ops c (Suc k) s s'"

section \<open>Queues after a shutdown\<close>

context work_queue
begin

lemma enqueueExisting_view:
  assumes "enqueueExisting ops c visit now (m, w) = (e, m', w')"
  shows "down (mq_q m') = down (mq_q m) \<and> processing (mq_q m') = processing (mq_q m) \<and> delayed (mq_q m') = delayed (mq_q m)
    \<and> (down (mq_q m) \<longrightarrow> queued (mq_q m') = queued (mq_q m))"
  using assms enqueue_flows_view by (auto simp: enqueueExisting_def split: prod.splits sum.splits)

text \<open>A queue that is down only loses keys; the keys that wait for a delay stay where they are.\<close>

definition drains :: "'q MemoryQueue \<Rightarrow> 'q MemoryQueue \<Rightarrow> bool" where
  "drains m m' \<longleftrightarrow> down (mq_q m') \<and> queued (mq_q m') \<subseteq> queued (mq_q m) \<and> delayed (mq_q m') = delayed (mq_q m)"

lemma drains_refl: "down (mq_q m) \<Longrightarrow> drains m m"
  by (simp add: drains_def)

lemma drains_trans: "drains m m' \<Longrightarrow> drains m' m'' \<Longrightarrow> drains m m''"
  by (auto simp: drains_def)

lemma worker_step_down:
  assumes "worker_step ops c now d (m, w) = (t, m', w')" "down (mq_q m)"
  shows "drains m m'"
proof (cases "\<exists>k e. t = WorkerRan k e")
  case True
  then obtain k e where t: "t = WorkerRan k e" by blast
  from worker_step_ran(4,6) [OF assms(1) [unfolded t]] assms(2) show ?thesis by (auto simp: drains_def)
next
  case False
  with worker_step_not_ran(3,6) [OF assms(1)] assms(2) show ?thesis by (auto simp: drains_def)
qed

lemma serves_down:
  assumes "serves ops c s s'" "down (mq_q (fst s))"
  shows "drains (fst s) (fst s')"
  using assms
proof (induction rule: serves.induct)
  case (serves_event s m w now ev)
  then show ?case using runWatch_view [of now "[ev]" m] by (auto simp: drains_def)
next
  case (serves_turn s m w now t m' w')
  then have "drains (fst s) m" by simp
  then show ?case using worker_step_down [OF serves_turn(2)] by (auto simp: drains_def)
qed (auto simp: drains_refl)

lemma Run_down:
  assumes "Run ops c s None s'"
  shows "down (mq_q (fst s'))" "down (mq_q (fst s)) \<Longrightarrow> drains (fst s) (fst s')"
proof -
  from assms obtain visit now s1 m w where seed: "enqueueExisting ops c visit now s = (None, s1)"
    and run: "serves ops c s1 (m, w)" and drain: "serves ops c (MQ_Shutdown ops m, w) s'" by (rule Run_stoppedE)
  have last: "down (mq_q (fst s'))" "queued (mq_q (fst s')) \<subseteq> queued (mq_q m)" "delayed (mq_q (fst s')) = delayed (mq_q m)"
    using serves_down [OF drain] ShutDown_law [of "mq_q m"] by (auto simp: MQ_Shutdown_def drains_def)
  then show "down (mq_q (fst s'))" by simp
  assume d: "down (mq_q (fst s))"
  then have "drains (fst s) (fst s1)"
    using enqueueExisting_view [of c visit now "fst s" "snd s" None "fst s1" "snd s1"] seed by (simp add: drains_def)
  then have "drains (fst s) m" using serves_down [OF run] by (auto simp: drains_def)
  then show "drains (fst s) (fst s')" using last by (auto simp: drains_def)
qed

lemma terms_down:
  assumes "terms ops c k s s'" "down (mq_q (fst s))"
  shows "drains (fst s) (fst s')"
  using assms
proof (induction rule: terms.induct)
  case (terms_more k s m w w' s')
  then have "drains (fst s) m" by simp
  then show ?case using Run_down(2) [OF terms_more(2)] by (auto simp: drains_def)
qed (simp add: drains_refl)

end

section \<open>Workers after a shutdown\<close>

text \<open>The keys a sequence of turns has run.\<close>

fun ran_keys :: "worker_turn list \<Rightarrow> string list" where
  "ran_keys [] = []"
| "ran_keys (WorkerRan k e # ts) = k # ran_keys ts"
| "ran_keys (t # ts) = ran_keys ts"

context work_queue
begin

lemma worker_step_down_turn:
  assumes "worker_step ops c now d (m, w) = (t, m', w')" "down (mq_q m)"
  shows "t \<noteq> WorkerWaits" "t = WorkerStops \<longleftrightarrow> d"
  using assms Get_Blocked [of "mq_q m"]
  by (auto simp: worker_step_def MQ_Get_def split: if_splits prod.splits option.splits get_result.splits)

lemma worker_down:
  assumes "worker ops c ts (m, w) = (turns, m', w')" "down (mq_q m)" "\<exists>now. (now, True) \<in> set ts"
  shows "\<exists>busy. turns = busy @ [WorkerStops] \<and> length busy = length (takeWhile (\<lambda>(_, d). \<not> d) ts)
    \<and> WorkerStops \<notin> set busy \<and> WorkerWaits \<notin> set busy
    \<and> distinct (ran_keys busy) \<and> set (ran_keys busy) \<subseteq> queued (mq_q m)"
  using assms
proof (induction ts arbitrary: m w turns)
  case (Cons x ts)
  obtain now d where x: "x = (now, d)" by fastforce
  obtain t m1 w1 where s: "worker_step ops c now d (m, w) = (t, m1, w1)" by (metis prod_cases3)
  note turn = worker_step_down_turn [OF s Cons.prems(2)]
  show ?case
  proof (cases d)
    case True
    with turn s x Cons.prems(1) show ?thesis by simp
  next
    case False
    obtain rest m2 w2 where r: "worker ops c ts (m1, w1) = (rest, m2, w2)" by (metis prod_cases3)
    have turns: "turns = t # rest" "m2 = m'" "w2 = w'"
      using Cons.prems(1) s r turn False by (auto simp: x split: worker_turn.splits)
    have m1: "down (mq_q m1)" "queued (mq_q m1) \<subseteq> queued (mq_q m)" using worker_step_down [OF s Cons.prems(2)] by (simp_all add: drains_def)
    from Cons.IH [OF r [unfolded turns(2,3)] m1(1)] Cons.prems(3) x False obtain busy
      where b: "rest = busy @ [WorkerStops]" "length busy = length (takeWhile (\<lambda>(_, d). \<not> d) ts)"
        "WorkerStops \<notin> set busy" "WorkerWaits \<notin> set busy" "distinct (ran_keys busy)" "set (ran_keys busy) \<subseteq> queued (mq_q m1)"
      by auto
    have "distinct (ran_keys (t # busy)) \<and> set (ran_keys (t # busy)) \<subseteq> queued (mq_q m)"
    proof (cases t)
      case (WorkerRan k e)
      then show ?thesis using b(5,6) worker_step_ran(1,6) [OF s [unfolded WorkerRan]] Cons.prems(2) by auto
    qed (use b(5,6) m1(2) in auto)
    moreover have "t \<noteq> WorkerStops" "t \<noteq> WorkerWaits" using turn False by auto
    ultimately show ?thesis using b turns x False by (intro exI [of _ "t # busy"]) simp
  qed
qed simp

end

section \<open>Properties\<close>

text \<open>
  C22: a controller that loses leadership and wins it again does not reconcile any more. The run that ended has shut the queue down
  and the queue is never replaced: after any number of further terms of leadership, in every state of the next
  one, a worker can only run keys that were still queued when the first run ended, and no delayed key is ever queued; when
  none was, no turn of a worker reconciles anything, whatever flows exist and whatever events arrive.
\<close>

theorem reelected_controller_is_idle:
  assumes wq: "work_queue ops queued delayed processing down"
    and first: "Run ops c s0 None (m1, w1)"
    and later: "terms ops c k (m1, w1') (m2, w2)"
    and seed: "enqueueExisting ops c visit now (m2, w2') = (None, m3, w3)" and run: "serves ops c (m3, w3) (m4, w4)"
    and turn: "worker_step ops c now' d (m4, w4) = (t, m5, w5)"
  shows "(\<forall>n e. t = WorkerRan n e \<longrightarrow> n \<in> queued (mq_q m1)) \<and> delayed (mq_q m5) = delayed (mq_q m1)
    \<and> (queued (mq_q m1) = {} \<longrightarrow> queued (mq_q m5) = {} \<and> (\<forall>n e. t \<noteq> WorkerRan n e))"
proof -
  note dr = work_queue.drains_def [OF wq]
  have d1: "down (mq_q m1)" using work_queue.Run_down(1) [OF wq first] by simp
  have d2: "work_queue.drains queued delayed down m1 m2" using work_queue.terms_down [OF wq later] d1 by simp
  have d3: "work_queue.drains queued delayed down m1 m3" using work_queue.enqueueExisting_view [OF wq seed] d2 by (auto simp: dr)
  have d4: "work_queue.drains queued delayed down m1 m4" using work_queue.serves_down [OF wq run] d3 by (auto simp: dr)
  have "n \<in> queued (mq_q m1)" if "t = WorkerRan n e" for n e
    using work_queue.worker_step_ran(6) [OF wq turn [unfolded that]] d4 by (auto simp: dr)
  moreover have "work_queue.drains queued delayed down m1 m5" using work_queue.worker_step_down [OF wq turn] d4 by (auto simp: dr)
  ultimately show ?thesis by (auto simp: dr)
qed

definition empty_queue :: "list_queue MemoryQueue" where
  "empty_queue = NewMemoryQueue \<lparr>lq_waiting = [], lq_delayed = [], lq_processing = [], lq_down = False\<rparr>"

definition nothing :: "etcd_mem \<times> kube_mem" where
  "nothing = (mem0, km0)"

theorem reelected_controller_is_idle_witness:
  "\<exists>m1 m3. Run lq_ops ctl0 (empty_queue, nothing) None (m1, nothing)
     \<and> enqueueExisting lq_ops ctl0 (\<lambda>x. x) 0 (m1, mem_foo, km0) = (None, m3, mem_foo, km0)
     \<and> (\<forall>n e. fst (worker_step lq_ops ctl0 0 False (m3, mem_foo, km0)) \<noteq> WorkerRan n e)"
proof -
  have e0: "enqueueExisting lq_ops ctl0 (\<lambda>x. x) 0 (empty_queue, nothing) = (None, empty_queue, nothing)" by code_simp
  define m1 where "m1 = MQ_Shutdown lq_ops empty_queue"
  have r: "Run lq_ops ctl0 (empty_queue, nothing) None (m1, nothing)"
    unfolding m1_def by (rule RunStopped [OF e0 serves_refl serves_refl])
  have p: "set (lq_waiting (mq_q m1)) = {}" by (simp add: m1_def MQ_Shutdown_def empty_queue_def NewMemoryQueue_def lq_ops_def)
  have e1: "enqueueExisting lq_ops ctl0 (\<lambda>x. x) 0 (MQ_Shutdown lq_ops empty_queue, mem_foo, km0)
      = (None, MQ_Shutdown lq_ops empty_queue\<lparr>mq_enqueued := [(''foo'', 0)]\<rparr>, mem_foo, km0)" by code_simp
  obtain t m5 w5 where t: "worker_step lq_ops ctl0 0 False (MQ_Shutdown lq_ops empty_queue\<lparr>mq_enqueued := [(''foo'', 0)]\<rparr>, mem_foo, km0) = (t, m5, w5)"
    by (metis prod_cases3)
  from reelected_controller_is_idle [OF listq.work_queue_axioms r terms_none e1 [folded m1_def] serves_refl t [folded m1_def]] p r e1 t
  show ?thesis unfolding m1_def by fastforce
qed

text \<open>
  C13: a worker ends. Once the queue is shut down, no turn of the loop blocks in the queue any more: every turn before the
  first one that finds the context done is used up by idling or by running a key, each queued key is run at most
  once, failed reconciliations included, and at that turn the loop returns.
\<close>

theorem worker_stops:
  assumes "work_queue ops queued delayed processing down"
    and "down (mq_q m)" "(now, True) \<in> set ts" "worker ops c ts (m, w) = (turns, m', w')"
  shows "\<exists>busy. turns = busy @ [WorkerStops] \<and> length busy = length (takeWhile (\<lambda>(_, d). \<not> d) ts)
    \<and> WorkerStops \<notin> set busy \<and> WorkerWaits \<notin> set busy
    \<and> distinct (ran_keys busy) \<and> set (ran_keys busy) \<subseteq> queued (mq_q m)"
  using work_queue.worker_down [OF assms(1,4,2)] assms(3) by blast

theorem worker_stops_witness:
  "\<exists>busy. fst (worker lq_ops ctl0 [(0, False), (1, False), (2, True), (3, False)] (MQ_Shutdown lq_ops foo_queue, mem_foo, km0))
       = busy @ [WorkerStops] \<and> length busy = 2 \<and> WorkerWaits \<notin> set busy \<and> set (ran_keys busy) \<subseteq> {''foo''}"
proof -
  obtain turns m' w' where r: "worker lq_ops ctl0 [(0, False), (1, False), (2, True), (3, False)]
      (MQ_Shutdown lq_ops foo_queue, mem_foo, km0) = (turns, m', w')" by (rule prod_cases3)
  have q: "lq_down (mq_q (MQ_Shutdown lq_ops foo_queue))" "set (lq_waiting (mq_q (MQ_Shutdown lq_ops foo_queue))) = {''foo''}"
    by (simp_all add: MQ_Shutdown_def foo_queue_def NewMemoryQueue_def lq_ops_def)
  have "(2, True) \<in> set [(0, False), (1, False), (2, True), (3, False)]" by simp
  from worker_stops [OF listq.work_queue_axioms q(1) this r] show ?thesis
    unfolding r fst_conv q(2) by auto
qed

end
