(* ===== verification/Programs.thy ===== *)
theory Programs
  imports Api_Server Ctl_Run
begin

text \<open>
  The two services as programs (\<^verbatim>\<open>api/cmd/flow-api/main.go\<close>, \<^verbatim>\<open>controller/cmd/flow-controller/main.go\<close>) and what they
  do about their own telemetry (\<^verbatim>\<open>observability.go\<close> of both): log levels and the logger, the setup of the exporters and
  their shutdown, and the order in which a program sets its parts up, runs and leaves. The exporters and the
  connection to etcd are parameters that may fail; a program is the steps others can see of it and how it ends.
\<close>

section \<open>Logging\<close>

text \<open>The levels of \<^verbatim>\<open>log/slog\<close>. A nil logger drops everything; a handler drops what is below its level.\<close>

definition LevelDebug :: int where "LevelDebug = - 4"
definition LevelInfo :: int where "LevelInfo = 0"
definition LevelWarn :: int where "LevelWarn = 4"
definition LevelError :: int where "LevelError = 8"

definition parseLogLevel :: "string \<Rightarrow> int" where
  "parseLogLevel level =
     (let l = ToLower level in
      if l = ''debug'' then LevelDebug
      else if l = ''warn'' \<or> l = ''warning'' then LevelWarn
      else if l = ''error'' then LevelError
      else LevelInfo)"

definition ctl_parseLogLevel :: "string \<Rightarrow> int" where
  "ctl_parseLogLevel level =
     (let l = ToLower level in
      if l = ''debug'' then LevelDebug
      else if l = ''warn'' \<or> l = ''warning'' then LevelWarn
      else if l = ''error'' then LevelError
      else LevelInfo)"

record Logger =
  lg_slog :: "int option"

datatype program_step =
    LogLine int string
  | StoreClosed
  | TracerShutdown
  | MeterShutdown
  | ServerShutdown shutdown_step

definition Logger_write :: "Logger \<Rightarrow> int \<Rightarrow> string \<Rightarrow> program_step list" where
  "Logger_write l level msg =
     (case lg_slog l of
        None \<Rightarrow> []
      | Some least \<Rightarrow> if least \<le> level then [LogLine level msg] else [])"

definition Logger_Debug :: "Logger \<Rightarrow> string \<Rightarrow> program_step list" where
  "Logger_Debug l msg = Logger_write l LevelDebug msg"

definition Logger_Info :: "Logger \<Rightarrow> string \<Rightarrow> program_step list" where
  "Logger_Info l msg = Logger_write l LevelInfo msg"

definition Logger_Warn :: "Logger \<Rightarrow> string \<Rightarrow> program_step list" where
  "Logger_Warn l msg = Logger_write l LevelWarn msg"

definition Logger_Error :: "Logger \<Rightarrow> string \<Rightarrow> program_step list" where
  "Logger_Error l msg = Logger_write l LevelError msg"

section \<open>Telemetry\<close>

text \<open>What the OpenTelemetry libraries answer: an error text, or nothing when the step succeeds.\<close>

record otel_libs =
  ol_resource :: "string \<Rightarrow> string option"
  ol_traceExporter :: "string \<Rightarrow> string option"
  ol_metricExporter :: "string \<Rightarrow> string option"
  ol_tracerShutdown :: "string option"
  ol_meterShutdown :: "string option"

datatype telemetry_error =
    ResourceFailed string
  | TraceExporterFailed string
  | MetricExporterFailed string
  | TraceShutdownFailed string
  | MetricShutdownFailed string

text \<open>The shutdown function \<^verbatim>\<open>Setup\<close> returns: both providers are shut down, the first error is the result.\<close>

definition shutdown :: "otel_libs \<Rightarrow> telemetry_error option \<times> program_step list" where
  "shutdown libs =
     (let shutdownErr = map_option TraceShutdownFailed (ol_tracerShutdown libs);
          shutdownErr = (case ol_meterShutdown libs of
                           None \<Rightarrow> shutdownErr
                         | Some err \<Rightarrow> if shutdownErr = None then Some (MetricShutdownFailed err) else shutdownErr)
      in (shutdownErr, [TracerShutdown, MeterShutdown]))"

text \<open>\<open>enabled\<close>, \<open>service\<close>, \<open>endpoint\<close> and \<open>level\<close> are what \<^verbatim>\<open>Setup\<close> reads of the configuration.\<close>

definition setup_telemetry ::
  "otel_libs \<Rightarrow> bool \<Rightarrow> string \<Rightarrow> string \<Rightarrow> int
     \<Rightarrow> telemetry_error + ((telemetry_error option \<times> program_step list) \<times> Logger)" where
  "setup_telemetry libs enabled service endpoint level =
     (let lg = \<lparr>lg_slog = Some level\<rparr> in
      if \<not> enabled then Inr ((None, []), lg)
      else (case ol_resource libs service of
              Some e \<Rightarrow> Inl (ResourceFailed e)
            | None \<Rightarrow>
           (case ol_traceExporter libs endpoint of
              Some e \<Rightarrow> Inl (TraceExporterFailed e)
            | None \<Rightarrow>
           (case ol_metricExporter libs endpoint of
              Some e \<Rightarrow> Inl (MetricExporterFailed e)
            | None \<Rightarrow> Inr (shutdown libs, lg)))))"

definition Setup ::
  "otel_libs \<Rightarrow> Config \<Rightarrow> telemetry_error + ((telemetry_error option \<times> program_step list) \<times> Logger)" where
  "Setup libs cfg =
     setup_telemetry libs (ObservabilityEnabled cfg) (ServiceName cfg) (OTLPEndpoint cfg) (parseLogLevel (LogLevel cfg))"

definition ctl_Setup ::
  "otel_libs \<Rightarrow> CtlConfig \<Rightarrow> telemetry_error + ((telemetry_error option \<times> program_step list) \<times> Logger)" where
  "ctl_Setup libs cfg =
     setup_telemetry libs (ctl_ObservabilityEnabled cfg) (ctl_ServiceName cfg) (ctl_OTLPEndpoint cfg)
       (ctl_parseLogLevel (ctl_LogLevel cfg))"

section \<open>Programs\<close>

text \<open>
  How a program ends. The flag package ends it on a bad command line (and on a request for help); \<^verbatim>\<open>os.Exit\<close> does not run
  deferred calls, a return from \<^verbatim>\<open>main\<close> does, the last one first.
\<close>

datatype exit = ExitCode nat | Panicked telemetry_error

definition flag_exit :: "flag_error \<Rightarrow> exit" where
  "flag_exit e = (if e = FlagHelp then ExitCode 0 else ExitCode 2)"

definition deferred :: "Logger \<Rightarrow> telemetry_error option \<times> program_step list \<Rightarrow> program_step list" where
  "deferred logger shutdownTelemetry =
     (case shutdownTelemetry of (err, steps) \<Rightarrow>
        StoreClosed # steps @
          (case err of None \<Rightarrow> [] | Some _ \<Rightarrow> Logger_Error logger ''failed to shutdown telemetry''))"

text \<open>
  \<^verbatim>\<open>NewEtcd\<close> of both stores: the client library connects to the endpoints, with a timeout, or answers with an error. The store
  is the client.
\<close>

definition NewEtcd :: "(string list \<Rightarrow> int \<Rightarrow> string option) \<Rightarrow> string list \<Rightarrow> string option" where
  "NewEtcd newClient endpoints = newClient endpoints (5 * Second)"

definition ctl_NewEtcd :: "(string list \<Rightarrow> int \<Rightarrow> string option) \<Rightarrow> string list \<Rightarrow> string option" where
  "ctl_NewEtcd newClient endpoints = newClient endpoints (5 * Second)"

definition api_main ::
  "float_mul \<Rightarrow> environ \<Rightarrow> string list \<Rightarrow> otel_libs \<Rightarrow> (string list \<Rightarrow> int \<Rightarrow> string option) \<Rightarrow> server_env \<Rightarrow> 'w Store
     \<Rightarrow> 'w http_handler \<Rightarrow> run_event \<Rightarrow> exit \<times> program_step list" where
  "api_main fmul env args libs newClient se st mux ev =
     (case Load fmul env args of
        Inl e \<Rightarrow> (flag_exit e, [])
      | Inr cfg \<Rightarrow>
     (case Setup libs cfg of
        Inl e \<Rightarrow> (Panicked e, [])
      | Inr (shutdownTelemetry, logger) \<Rightarrow>
     (case NewEtcd newClient (EtcdEndpoints cfg) of
        Some _ \<Rightarrow> (ExitCode 1, Logger_Error logger ''failed to connect to etcd'')
      | None \<Rightarrow>
     (case Server_New se cfg st mux of
        (Inl _, _) \<Rightarrow> (ExitCode 1, Logger_Error logger ''failed to create server'')
      | (Inr srv, _) \<Rightarrow>
     (case Server_Run ev of
        (Some _, steps) \<Rightarrow>
          (ExitCode 1, Logger_Info logger ''flow-api starting'' @ map ServerShutdown steps
             @ Logger_Error logger ''flow-api exited with error'')
      | (None, steps) \<Rightarrow>
          (ExitCode 0, Logger_Info logger ''flow-api starting'' @ map ServerShutdown steps
             @ Logger_Info logger ''flow-api stopped'' @ deferred logger shutdownTelemetry))))))"

text \<open>
  \<^verbatim>\<open>New\<close> of the controller: its queue is the state of the workers, and its instruments are left out. In the program the
  result of the run is a parameter: what \<^verbatim>\<open>Run\<close> returns without leader election, and what the elector reports with it.
  The program is still running when there is no result.
\<close>

definition Controller_New ::
  "'w etcd_client \<Rightarrow> proto_codec \<Rightarrow> config_codec \<Rightarrow> 'w kube_client option \<Rightarrow> string \<Rightarrow> bool \<Rightarrow> string \<Rightarrow> int \<Rightarrow> 'w Controller" where
  "Controller_New store pc cc kubeClient runtimeNamespace observabilityEnabled otelEndpoint workerCount =
     \<lparr>c_cli = store, c_pc = pc, c_cc = cc, c_kube = kubeClient, c_runtimeNamespace = runtimeNamespace,
      c_observabilityEnabled = observabilityEnabled, c_otelEndpoint = otelEndpoint, c_workerCount = workerCount\<rparr>"

definition run_result ::
  "(leader_config \<Rightarrow> string option) \<Rightarrow> CtlConfig \<Rightarrow> string \<Rightarrow> election_event list \<Rightarrow> store_error option \<Rightarrow> election_error option option" where
  "run_result newElector cfg nodeName evs returned =
     (if ctl_LeaderElectionEnabled cfg then runWithLeaderElection newElector cfg nodeName evs
      else Some (map_option ControllerFailed returned))"

definition ctl_main ::
  "float_mul \<Rightarrow> environ \<Rightarrow> string list \<Rightarrow> otel_libs \<Rightarrow> string + string \<Rightarrow> nat \<Rightarrow> (string list \<Rightarrow> int \<Rightarrow> string option)
     \<Rightarrow> 'c kube_libs \<Rightarrow> string option \<Rightarrow> (leader_config \<Rightarrow> string option) \<Rightarrow> election_event list \<Rightarrow> store_error option
     \<Rightarrow> exit option \<times> program_step list" where
  "ctl_main fmul env args libs hostname pid newClient kl home newElector evs returned =
     (case ctl_Load fmul env args of
        Inl e \<Rightarrow> (Some (flag_exit e), [])
      | Inr cfg \<Rightarrow>
     (case ctl_Setup libs cfg of
        Inl e \<Rightarrow> (Some (Panicked e), [])
      | Inr (shutdownTelemetry, logger) \<Rightarrow>
     (let nodeName = node_name env hostname pid in
      case ctl_NewEtcd newClient (ctl_EtcdEndpoints cfg) of
        Some _ \<Rightarrow> (Some (ExitCode 1), Logger_Error logger ''failed to connect to etcd'')
      | None \<Rightarrow>
     (case kube_New kl env home of
        Inl _ \<Rightarrow> (Some (ExitCode 1), Logger_Error logger ''failed to create kubernetes client'')
      | Inr kubeClient \<Rightarrow>
     (let start = Logger_Info logger ''flow-controller starting'' in
      case run_result newElector cfg nodeName evs returned of
        None \<Rightarrow> (None, start)
      | Some (Some _) \<Rightarrow> (Some (ExitCode 1), start @ Logger_Error logger ''flow-controller exited with error'')
      | Some None \<Rightarrow>
          (Some (ExitCode 0), start @ Logger_Info logger ''flow-controller stopped'' @ deferred logger shutdownTelemetry))))))"

section \<open>How a program ends\<close>

lemma log_lines:
  "LogLine lvl msg \<in> set (Logger_write l level m) \<longleftrightarrow> (\<exists>least. lg_slog l = Some least \<and> least \<le> level \<and> lvl = level \<and> msg = m)"
  "StoreClosed \<notin> set (Logger_write l level m)" "TracerShutdown \<notin> set (Logger_write l level m)"
  "MeterShutdown \<notin> set (Logger_write l level m)"
  by (cases "lg_slog l"; auto simp: Logger_write_def)+

lemmas logger_simps = log_lines Logger_Info_def Logger_Warn_def Logger_Error_def Logger_Debug_def

lemma shutdown_steps:
  "snd (shutdown libs) = [TracerShutdown, MeterShutdown]"
  "fst (shutdown libs) = None \<longleftrightarrow> ol_tracerShutdown libs = None \<and> ol_meterShutdown libs = None"
  by (auto simp: shutdown_def Let_def split: option.splits)

lemma setup_telemetry_ok:
  assumes "setup_telemetry libs enabled service endpoint level = Inr (sd, lg)"
  shows "lg_slog lg = Some level \<and> snd sd = (if enabled then [TracerShutdown, MeterShutdown] else [])"
  using assms shutdown_steps [of libs] by (auto simp: setup_telemetry_def Let_def split: if_splits option.splits)

lemma deferred_steps:
  "StoreClosed \<in> set (deferred lg sd)"
  "TracerShutdown \<in> set (deferred lg sd) \<longleftrightarrow> TracerShutdown \<in> set (snd sd)"
  "MeterShutdown \<in> set (deferred lg sd) \<longleftrightarrow> MeterShutdown \<in> set (snd sd)"
  "LogLine lvl msg \<in> set (deferred lg sd) \<Longrightarrow> LogLine lvl msg \<in> set (snd sd) \<or> (\<exists>least. lg_slog lg = Some least \<and> least \<le> lvl)"
  by (cases sd; cases "fst sd"; auto simp: deferred_def logger_simps)+

text \<open>
  C40: how the API leaves. Once its command line is read, it exits with code 0 exactly when telemetry, the connection to etcd and
  both servers could be set up and no server returned with an error; only then are the store closed and
  (with exporters enabled) the trace and metric providers shut down, because \<^verbatim>\<open>os.Exit\<close> skips the deferred calls on every error
  path; and it never writes a log line below the configured level.
\<close>

theorem api_exit:
  assumes cfg: "Load fmul env args = Inr cfg" and run: "api_main fmul env args libs newClient se st mux ev = (code, steps)"
  shows "(code = ExitCode 0 \<longleftrightarrow> \<not> isl (Setup libs cfg) \<and> NewEtcd newClient (EtcdEndpoints cfg) = None
        \<and> \<not> isl (fst (Server_New se cfg st mux)) \<and> (ev = ContextDone \<or> ev = ServerReturned None))
    \<and> (StoreClosed \<in> set steps \<longleftrightarrow> code = ExitCode 0)
    \<and> (TracerShutdown \<in> set steps \<longleftrightarrow> code = ExitCode 0 \<and> ObservabilityEnabled cfg)
    \<and> (MeterShutdown \<in> set steps \<longleftrightarrow> code = ExitCode 0 \<and> ObservabilityEnabled cfg)
    \<and> (\<forall>lvl msg. LogLine lvl msg \<in> set steps \<longrightarrow> parseLogLevel (LogLevel cfg) \<le> lvl)"
proof (cases "Setup libs cfg")
  case (Inl e)
  then show ?thesis using run cfg by (auto simp: api_main_def)
next
  case (Inr p)
  obtain sd lg where p: "p = (sd, lg)" by fastforce
  have lg: "lg_slog lg = Some (parseLogLevel (LogLevel cfg))"
    "snd sd = (if ObservabilityEnabled cfg then [TracerShutdown, MeterShutdown] else [])"
    using setup_telemetry_ok Inr by (auto simp: Setup_def p)
  obtain ns lis where n: "Server_New se cfg st mux = (ns, lis)" by fastforce
  consider e where "NewEtcd newClient (EtcdEndpoints cfg) = Some e"
    | e where "NewEtcd newClient (EtcdEndpoints cfg) = None" "ns = Inl e"
    | srv e where "NewEtcd newClient (EtcdEndpoints cfg) = None" "ns = Inr srv" "ev = ServerReturned (Some e)"
    | srv where "NewEtcd newClient (EtcdEndpoints cfg) = None" "ns = Inr srv" "ev = ContextDone \<or> ev = ServerReturned None"
    by (metis run_event.exhaust sum.exhaust option.exhaust)
  then show ?thesis
  proof cases
    case 4
    then have "fst (Server_Run ev) = None" by (auto simp: Server_Run_def)
    then obtain ss where ss: "Server_Run ev = (None, ss)" by (cases "Server_Run ev") simp
    have "code = ExitCode 0"
      "steps = Logger_Info lg ''flow-api starting'' @ map ServerShutdown ss @ Logger_Info lg ''flow-api stopped'' @ deferred lg sd"
      using run cfg Inr p n 4 ss by (simp_all add: api_main_def)
    then show ?thesis using 4 Inr n lg deferred_steps(1-3) [of lg sd]
      by (auto simp: logger_simps split: if_splits dest: deferred_steps(4))
  qed (use run cfg Inr p n lg in \<open>auto simp: api_main_def Server_Run_def logger_simps\<close>)
qed

text \<open>The API on an empty command line, stopped by a signal; and with an etcd that cannot be reached.\<close>

definition quiet_libs :: otel_libs where
  "quiet_libs = \<lparr>ol_resource = (\<lambda>_. None), ol_traceExporter = (\<lambda>_. None), ol_metricExporter = (\<lambda>_. None),
     ol_tracerShutdown = None, ol_meterShutdown = Some ''timeout''\<rparr>"

theorem api_exit_witness:
  "\<exists>cfg. Load (\<lambda>_ _ _. 0) (\<lambda>_. None) [] = Inr cfg
     \<and> StoreClosed \<in> set (snd (api_main (\<lambda>_ _ _. 0) (\<lambda>_. None) [] quiet_libs (\<lambda>_ _. None) quiet_env mem_store (\<lambda>r w. ([], w)) ContextDone))
     \<and> StoreClosed \<notin> set (snd (api_main (\<lambda>_ _ _. 0) (\<lambda>_. None) [] quiet_libs (\<lambda>_ _. Some ''refused'') quiet_env mem_store (\<lambda>r w. ([], w)) ContextDone))"
proof -
  define cfg where "cfg = config_of (load_flags (\<lambda>_. None))"
  have l: "Load (\<lambda>_ _ _. 0) (\<lambda>_. None) [] = Inr cfg" by (simp add: Load_def cfg_def)
  have k: "AuthEnabled cfg = False" "GRPCTLSEnabled cfg = False" "HTTPTLSEnabled cfg = False" "ObservabilityEnabled cfg = False"
    by (simp_all add: cfg_def config_of_def load_flags_def BoolFlag_def envBoolOrDefault_def Getenv_def)
  have s: "\<not> isl (Setup quiet_libs cfg)" by (simp add: Setup_def setup_telemetry_def k)
  have v: "\<not> isl (fst (Server_New quiet_env cfg mem_store (\<lambda>r w. ([], w))))"
    by (simp add: Server_New_def NewGRPCServer_def NewHTTPServer_def ensureAPIKeyConfigured_def ensureGRPCServerTLSConfigured_def
        ensureHTTPServerTLSConfigured_def k quiet_env_def)
  note a = api_exit [OF l surjective_pairing, of quiet_libs]
  show ?thesis
    using a [of "\<lambda>_ _. None" quiet_env mem_store "\<lambda>r w. ([], w)" ContextDone]
      a [of "\<lambda>_ _. Some ''refused''" quiet_env mem_store "\<lambda>r w. ([], w)" ContextDone] l s v by (simp add: NewEtcd_def)
qed

end
