(* ===== verification/Store_Machine.thy ===== *)
theory Store_Machine
  imports Ctl_Store
begin

text \<open>
  The store under concurrent callers: any number of API requests that create or update flows, each
  a read of the active pointer followed later by its commit (\<^verbatim>\<open>createNewVersion\<close>), rollbacks, each a check that the
  version has a spec followed later by the write of the pointer (\<^verbatim>\<open>RollbackFlow\<close>), and deletions, interleaved with each
  other, with the reads of the API and of the controller, and with the controller's status updates. The state keeps what every
  request in progress has read, and the flows whose creation was acknowledged. A step is labelled with the call it is,
  so that a theorem can say which calls a run makes.

  The invariants are the shape the store promises for its keys: as long as nothing is rolled back or deleted the versions of a
  flow are the numbers from 1 to the active one; and as long as nothing is deleted an active pointer names a stored spec. A
  rollback that races a deletion breaks the second.
\<close>

section \<open>The machine\<close>

datatype api_action =
    BeginCreate string
  | CommitCreate
  | ReadStore
  | WriteStatus string
  | CheckRollback string
  | PutRollback
  | DeleteAll string

fun is_delete :: "api_action \<Rightarrow> bool" where
  "is_delete (DeleteAll n) = True"
| "is_delete _ = False"

record 'w api_state =
  as_world :: 'w
  as_read :: "nat \<Rightarrow> (string \<times> FlowSpec \<times> kv list) option"
  as_check :: "nat \<Rightarrow> (string \<times> u64) option"
  as_acked :: "Flow list"

inductive api_step :: "'w etcd_client \<Rightarrow> proto_codec \<Rightarrow> 'w api_state \<Rightarrow> api_action \<Rightarrow> 'w api_state \<Rightarrow> bool" for cli pc where
  begin_ok: "as_read s i = None \<Longrightarrow> fs_Name sp = n \<Longrightarrow> cli_Get cli (activeKey n) (as_world s) = (Inr resp, w') \<Longrightarrow>
    api_step cli pc s (BeginCreate n) (s\<lparr>as_world := w', as_read := (as_read s)(i \<mapsto> (n, sp, resp))\<rparr>)"
| begin_failed: "cli_Get cli (activeKey n) (as_world s) = (Inl e, w') \<Longrightarrow> api_step cli pc s (BeginCreate n) (s\<lparr>as_world := w'\<rparr>)"
| commit_ok: "as_read s i = Some (n, sp, resp) \<Longrightarrow> commitVersion cli pc n sp resp (as_world s) = (Inr f, w') \<Longrightarrow>
    api_step cli pc s CommitCreate (s\<lparr>as_world := w', as_read := (as_read s)(i := None), as_acked := f # as_acked s\<rparr>)"
| commit_failed: "as_read s i = Some (n, sp, resp) \<Longrightarrow> commitVersion cli pc n sp resp (as_world s) = (Inl e, w') \<Longrightarrow>
    api_step cli pc s CommitCreate (s\<lparr>as_world := w', as_read := (as_read s)(i := None)\<rparr>)"
| get: "GetFlow cli pc n (as_world s) = (r, w') \<Longrightarrow> api_step cli pc s ReadStore (s\<lparr>as_world := w'\<rparr>)"
| reconcile_read: "GetActiveFlow cli pc n (as_world s) = (a, w') \<Longrightarrow> api_step cli pc s ReadStore (s\<lparr>as_world := w'\<rparr>)"
| status: "UpdateStatus cli pc n st (as_world s) = (u, w') \<Longrightarrow> api_step cli pc s (WriteStatus n) (s\<lparr>as_world := w'\<rparr>)"
| check_ok: "as_check s i = None \<Longrightarrow> checkRollback cli n v (as_world s) = (Inr u, w') \<Longrightarrow>
    api_step cli pc s (CheckRollback n) (s\<lparr>as_world := w', as_check := (as_check s)(i \<mapsto> (n, v))\<rparr>)"
| check_failed: "checkRollback cli n v (as_world s) = (Inl e, w') \<Longrightarrow> api_step cli pc s (CheckRollback n) (s\<lparr>as_world := w'\<rparr>)"
| rollback: "as_check s i = Some (n, v) \<Longrightarrow> putRollback cli n v (as_world s) = (p, w') \<Longrightarrow>
    api_step cli pc s PutRollback (s\<lparr>as_world := w', as_check := (as_check s)(i := None)\<rparr>)"
| delete: "DeleteFlow cli n (as_world s) = (d, w') \<Longrightarrow> api_step cli pc s (DeleteAll n) (s\<lparr>as_world := w'\<rparr>)"

inductive api_run :: "'w etcd_client \<Rightarrow> proto_codec \<Rightarrow> 'w api_state \<Rightarrow> api_action list \<Rightarrow> 'w api_state \<Rightarrow> bool" for cli pc where
  run_none: "api_run cli pc s [] s"
| run_more: "api_run cli pc s as t \<Longrightarrow> api_step cli pc t a u \<Longrightarrow> api_run cli pc s (as @ [a]) u"

lemma run_one: "api_step cli pc s a t \<Longrightarrow> api_run cli pc s [a] t"
  using run_more [OF run_none] by fastforce

lemma run_append: "api_run cli pc t bs u \<Longrightarrow> api_run cli pc s as t \<Longrightarrow> api_run cli pc s (as @ bs) u"
  by (induction rule: api_run.induct) (auto intro: run_more simp flip: append_assoc)

lemma run_Cons: "api_step cli pc s a t \<Longrightarrow> api_run cli pc t bs u \<Longrightarrow> api_run cli pc s (a # bs) u"
  using run_append [OF _ run_one] by fastforce

text \<open>
  The operations of the store are runs of the machine: what one caller does is a run of its own, and the machine
  interleaves such runs.
\<close>

lemma createNewVersion_run:
  assumes "createNewVersion cli pc n sp (as_world s) = (r, w')" "as_read s i = None" "fs_Name sp = n"
  shows "\<exists>as t. api_run cli pc s as t \<and> as_world t = w' \<and> set as \<subseteq> {BeginCreate n, CommitCreate} \<and> as_check t = as_check s"
proof -
  obtain g w1 where get: "cli_Get cli (activeKey n) (as_world s) = (g, w1)" by fastforce
  show ?thesis
  proof (cases g)
    case (Inl e)
    then have "w' = w1" using assms(1) get by (simp add: createNewVersion_def)
    then show ?thesis using run_one [OF begin_failed [OF get [unfolded Inl]]] by fastforce
  next
    case (Inr resp)
    define s1 where "s1 = s\<lparr>as_world := w1, as_read := (as_read s)(i \<mapsto> (n, sp, resp))\<rparr>"
    have one: "api_run cli pc s [BeginCreate n] s1" unfolding s1_def by (rule run_one [OF begin_ok [OF assms(2,3) get [unfolded Inr]]])
    have s1: "as_read s1 i = Some (n, sp, resp)" "as_world s1 = w1" by (simp_all add: s1_def)
    have c: "commitVersion cli pc n sp resp (as_world s1) = (r, w')" using assms(1) get Inr s1(2) by (simp add: createNewVersion_def)
    have "\<exists>t. api_step cli pc s1 CommitCreate t \<and> as_world t = w' \<and> as_check t = as_check s1"
      using commit_ok [OF s1(1)] commit_failed [OF s1(1)] c by (cases r) (force simp: c)+
    then show ?thesis using run_more [OF one] by (fastforce simp: s1_def)
  qed
qed

lemma RollbackFlow_run:
  assumes "RollbackFlow cli pc n v (as_world s) = (r, w')" "as_check s i = None"
  shows "\<exists>as t. api_run cli pc s as t \<and> as_world t = w' \<and> set as \<subseteq> {CheckRollback n, PutRollback, ReadStore}"
proof -
  obtain g w1 where get: "checkRollback cli n v (as_world s) = (g, w1)" by fastforce
  show ?thesis
  proof (cases g)
    case (Inl e)
    then have "w' = w1" using assms(1) get by (simp add: RollbackFlow_def)
    then show ?thesis using run_one [OF check_failed [OF get [unfolded Inl]]] by fastforce
  next
    case (Inr u)
    define s1 where "s1 = s\<lparr>as_world := w1, as_check := (as_check s)(i \<mapsto> (n, v))\<rparr>"
    have one: "api_run cli pc s [CheckRollback n] s1" unfolding s1_def by (rule run_one [OF check_ok [OF assms(2) get [unfolded Inr]]])
    obtain p w2 where put: "putRollback cli n v w1 = (p, w2)" by fastforce
    define s2 where "s2 = s1\<lparr>as_world := w2, as_check := (as_check s1)(i := None)\<rparr>"
    have two: "api_run cli pc s [CheckRollback n, PutRollback] s2"
      using run_more [OF one rollback [of s1 i n v]] put by (simp add: s1_def s2_def)
    show ?thesis
    proof (cases p)
      case (Inl e)
      then have "w' = w2" using assms(1) get Inr put by (simp add: RollbackFlow_def)
      then show ?thesis using two by (intro exI [of _ "[CheckRollback n, PutRollback]"] exI [of _ s2]) (simp add: s2_def)
    next
      case (Inr u')
      then have "GetFlow cli pc n (as_world s2) = (r, w')" using assms(1) get \<open>g = Inr u\<close> put by (simp add: RollbackFlow_def s2_def)
      then show ?thesis using run_more [OF two api_step.get] by fastforce
    qed
  qed
qed

section \<open>Well-formed versions\<close>

definition wf_flow :: "aflow \<Rightarrow> bool" where
  "wf_flow a \<longleftrightarrow>
     (case a_active a of
        None \<Rightarrow> \<forall>v. a_specs a v = None
      | Some newest \<Rightarrow> 1 \<le> newest \<and> (\<forall>v. a_specs a v \<noteq> None \<longleftrightarrow> 1 \<le> v \<and> v \<le> newest))
     \<and> (\<forall>v sp. a_specs a v = Some sp \<longrightarrow> fs_Version sp = v)"

definition top_version :: "aflow \<Rightarrow> nat" where
  "top_version a = (case a_active a of None \<Rightarrow> 0 | Some v \<Rightarrow> unat v)"

lemma next_version:
  assumes "wf_flow a" "top_version a < 2 ^ 64 - 1"
  shows "unat (a_next a) = top_version a + 1" "a_specs a (a_next a) = None" "1 \<le> a_next a"
    "\<And>v. 1 \<le> v \<and> v \<le> a_next a \<longleftrightarrow> v = a_next a \<or> a_specs a v \<noteq> None"
proof -
  show u: "unat (a_next a) = top_version a + 1"
  proof (cases "a_active a")
    case (Some v)
    then have "unat v + 1 < 2 ^ 64" using assms(2) by (simp add: top_version_def)
    then have "unat (v + 1) = unat v + 1" by (simp add: unat_word_ariths)
    with Some show ?thesis by (simp add: a_next_def top_version_def)
  qed (simp add: a_next_def top_version_def)
  have stored: "a_specs a v \<noteq> None \<longleftrightarrow> 1 \<le> unat v \<and> unat v \<le> top_version a" for v
    using assms(1) by (auto simp: wf_flow_def top_version_def word_le_nat_alt split: option.splits)
  show "a_specs a (a_next a) = None" using stored [of "a_next a"] u by auto
  show "1 \<le> a_next a" using u by (simp add: word_le_nat_alt)
  show "1 \<le> v \<and> v \<le> a_next a \<longleftrightarrow> v = a_next a \<or> a_specs a v \<noteq> None" for v
  proof -
    have "1 \<le> v \<and> v \<le> a_next a \<longleftrightarrow> 1 \<le> unat v \<and> unat v \<le> top_version a + 1" by (simp add: word_le_nat_alt u)
    also have "\<dots> \<longleftrightarrow> unat v = unat (a_next a) \<or> 1 \<le> unat v \<and> unat v \<le> top_version a" using u by auto
    finally show ?thesis using stored [of v] by (simp add: word_unat_eq_iff)
  qed
qed

lemma wf_flow_create:
  assumes "wf_flow a" "top_version a < 2 ^ 64 - 1"
  shows "wf_flow (a_create sp a) \<and> top_version (a_create sp a) = top_version a + 1"
proof -
  note n = next_version [OF assms]
  have "((a_specs a)(a_next a \<mapsto> sp\<lparr>fs_Version := a_next a\<rparr>)) v \<noteq> None \<longleftrightarrow> 1 \<le> v \<and> v \<le> a_next a" for v
    using n(4) [of v] by auto
  moreover have "fs_Version s = v" if "((a_specs a)(a_next a \<mapsto> sp\<lparr>fs_Version := a_next a\<rparr>)) v = Some s" for v s
    using that assms(1) by (auto simp: wf_flow_def split: if_splits)
  ultimately show ?thesis using n(1,3) by (auto simp: wf_flow_def a_create_def top_version_def)
qed

lemma wf_flow_status [simp]: "wf_flow (a\<lparr>a_status := t\<rparr>) = wf_flow a" "top_version (a\<lparr>a_status := t\<rparr>) = top_version a"
  by (cases "a_active a"; simp add: wf_flow_def top_version_def)+

lemma a_create_sels:
  "a_active (a_create sp a) = Some (a_next a)"
  "a_specs (a_create sp a) v = (if v = a_next a then Some (sp\<lparr>fs_Version := a_next a\<rparr>) else a_specs a v)"
  by (simp_all add: a_create_def)

section \<open>The effect of a step\<close>

definition api_inv :: "proto_codec \<Rightarrow> ('w \<Rightarrow> keyspace) \<Rightarrow> nat \<Rightarrow> 'w api_state \<Rightarrow> bool" where
  "api_inv pc kvs k s \<longleftrightarrow>
     (\<forall>n. wf_flow (aflow_of pc (kvs (as_world s)) n) \<and> top_version (aflow_of pc (kvs (as_world s)) n) \<le> k)
     \<and> distinct (map (\<lambda>f. (flow_id (fl_Name f), fl_Version f)) (as_acked s))
     \<and> (\<forall>f\<in>set (as_acked s). fl_Spec f \<noteq> None \<and> spec_of pc (kvs (as_world s)) (fl_Name f) (fl_Version f) = fl_Spec f)"

definition same_versions :: "proto_codec \<Rightarrow> keyspace \<Rightarrow> keyspace \<Rightarrow> bool" where
  "same_versions pc m m' \<longleftrightarrow> (\<forall>n. \<exists>t. aflow_of pc m' n = (aflow_of pc m n)\<lparr>a_status := t\<rparr>)"

lemma same_versions_refl: "m' = m \<Longrightarrow> same_versions pc m m'"
  unfolding same_versions_def by (metis aflow.surjective aflow.update_convs(3))

lemma same_versions_spec: "same_versions pc m m' \<Longrightarrow> spec_of pc m' n = spec_of pc m n"
  unfolding same_versions_def aflow_of_def by (drule spec [of _ n]) auto

lemma api_inv_same:
  assumes "api_inv pc kvs k s" "same_versions pc (kvs (as_world s)) (kvs w')" "as_acked s' = as_acked s" "as_world s' = w'"
  shows "api_inv pc kvs (Suc k) s'"
proof -
  have "wf_flow (aflow_of pc (kvs w') n) \<and> top_version (aflow_of pc (kvs w') n) \<le> Suc k" for n
    using assms(1,2) by (metis api_inv_def le_Suc_eq same_versions_def wf_flow_status)
  then show ?thesis using assms same_versions_spec [OF assms(2)] by (auto simp: api_inv_def)
qed

lemma api_inv_commit:
  assumes inv: "api_inv pc kvs k s" and k: "k < 2 ^ 64 - 1"
    and c: "\<And>n'. aflow_of pc (kvs w') n' = (if flow_id n' = flow_id n then a_create sp (aflow_of pc (kvs (as_world s)) n)
       else aflow_of pc (kvs (as_world s)) n')"
    and s': "as_world s' = w'" "as_acked s' = as_acked s \<or> (as_acked s' = f # as_acked s \<and> fl_Name f = n
       \<and> fl_Version f = a_next (aflow_of pc (kvs (as_world s)) n) \<and> fl_Spec f = Some (sp\<lparr>fs_Version := fl_Version f\<rparr>))"
  shows "api_inv pc kvs (Suc k) s'"
proof -
  let ?m = "kvs (as_world s)"
  define nv where "nv = a_next (aflow_of pc ?m n)"
  have wf: "wf_flow (aflow_of pc ?m n')" "top_version (aflow_of pc ?m n') \<le> k" for n'
    using inv by (simp_all add: api_inv_def)
  have small: "top_version (aflow_of pc ?m n) < 2 ^ 64 - 1" using wf(2) [of n] k by simp
  note new = wf_flow_create [OF wf(1) small, of sp]
  have specs: "spec_of pc (kvs w') n' v = (if flow_id n' = flow_id n \<and> v = nv then Some (sp\<lparr>fs_Version := nv\<rparr>)
      else spec_of pc ?m n' v)" for n' v
    using arg_cong [OF c, of a_specs n'] arg_cong [OF aflow_of_same_id [of n' n pc ?m], of a_specs]
    by (auto simp: aflow_of_sels a_create_sels nv_def fun_eq_iff split: if_splits)
  have free: "spec_of pc ?m n' nv = None" if "flow_id n' = flow_id n" for n'
    using next_version(2) [OF wf(1) small] aflow_of_same_id [OF that, of pc ?m]
    by (metis aflow_of_sels(2) nv_def)
  have wf': "wf_flow (aflow_of pc (kvs w') n') \<and> top_version (aflow_of pc (kvs w') n') \<le> Suc k" for n'
    using c [of n'] wf [of n'] wf(2) [of n] new by auto
  have old: "spec_of pc (kvs w') (fl_Name g) (fl_Version g) = fl_Spec g \<and> fl_Spec g \<noteq> None
      \<and> (flow_id n, nv) \<noteq> (flow_id (fl_Name g), fl_Version g)" if "g \<in> set (as_acked s)" for g
  proof -
    have g: "fl_Spec g \<noteq> None" "spec_of pc ?m (fl_Name g) (fl_Version g) = fl_Spec g"
      using inv that by (auto simp: api_inv_def)
    then show ?thesis using free [of "fl_Name g"] specs [of "fl_Name g" "fl_Version g"] by auto
  qed
  have "distinct (map (\<lambda>f. (flow_id (fl_Name f), fl_Version f)) (as_acked s))" using inv by (simp add: api_inv_def)
  then show ?thesis using s'(2) wf' specs [of n nv] unfolding api_inv_def s'(1) nv_def
    by (auto simp: nv_def [symmetric] dest: old)
qed

context etcd_store
begin

lemma status_same_versions:
  assumes "marshal_status pc st = Inr b" "m' = m(statusKey n \<mapsto> b)"
  shows "same_versions pc m m'"
proof -
  have "\<exists>t'. aflow_of pc m' n' = (aflow_of pc m n')\<lparr>a_status := t'\<rparr>" for n'
    using same_versions_refl [of m m pc] unfolding assms(2) aflow_of_status [OF assms(1)] same_versions_def by auto
  then show ?thesis by (simp add: same_versions_def)
qed

lemma api_step_cases:
  assumes "api_step cli pc s a t"
  obtains (quiet) "kvs (as_world t) = kvs (as_world s)" "as_acked t = as_acked s"
      "\<And>i n v. as_check t i = Some (n, v) \<Longrightarrow> as_check s i = Some (n, v) \<or> kvs (as_world s) (versionSpecKey n v) \<noteq> None"
  | (status) n b st where "marshal_status pc st = Inr b" "kvs (as_world t) = (kvs (as_world s))(statusKey n \<mapsto> b)"
      "as_acked t = as_acked s" "as_check t = as_check s"
  | (commit) i n sp resp nv where "committed pc n sp resp nv (kvs (as_world s)) (kvs (as_world t))" "as_check t = as_check s"
      "as_acked t = as_acked s \<or> as_acked t = \<lparr>fl_Name = n, fl_Version = nv, fl_Spec = Some (sp\<lparr>fs_Version := nv\<rparr>), fl_Status = None\<rparr> # as_acked s"
      "as_read s i = Some (n, sp, resp)"
  | (rollback) i n v where "a = PutRollback" "as_check s i = Some (n, v)" "as_check t = (as_check s)(i := None)"
      "kvs (as_world t) = (kvs (as_world s))(activeKey n \<mapsto> FormatUint v)" "as_acked t = as_acked s"
  | (delete) n where "a = DeleteAll n" "kvs (as_world t) = delete_prefix (flowPrefix n) (kvs (as_world s))"
      "as_acked t = as_acked s" "as_check t = as_check s"
  using assms
proof cases
  case (begin_ok i sp n resp w')
  then show thesis using Get_law [OF begin_ok(5)] by (intro quiet) auto
next
  case (begin_failed n e w')
  then show thesis using Get_law [OF begin_failed(3)] by (intro quiet) auto
next
  case (commit_ok i n sp resp f w')
  from commitVersion_cases [OF commit_ok(4)] show thesis using commit_ok(2,3) by (elim disjE conjE exE) (auto intro: commit)
next
  case (commit_failed i n sp resp e w')
  from commitVersion_cases [OF commit_failed(4)] show thesis
  proof (elim disjE)
    assume "kvs w' = kvs (as_world s) \<and> (\<exists>e'. Inl e = Inl e')"
    then show thesis using commit_failed(2) by (intro quiet) auto
  qed (use commit_failed(2,3) in \<open>auto intro: commit\<close>)
next
  case (get n r w')
  then show thesis using GetFlow_pure [OF get(3)] by (intro quiet) auto
next
  case (reconcile_read n r w')
  then show thesis using GetActiveFlow_pure [OF reconcile_read(3)] by (intro quiet) auto
next
  case (status n st u w')
  from UpdateStatus_cases [OF status(3)] show thesis
  proof (elim disjE)
    assume "isl u \<and> kvs w' = kvs (as_world s)"
    then show thesis using status(2) by (intro quiet) auto
  qed (use status(2) in \<open>auto intro: that(2)\<close>)
next
  case (check_ok i n v u w')
  then show thesis using checkRollback_cases(1) [OF check_ok(4)] checkRollback_cases(2) [OF check_ok(4) refl]
    by (intro quiet) (auto split: if_splits)
next
  case (check_failed n v e w')
  then show thesis using checkRollback_cases(1) [OF check_failed(3)] by (intro quiet) auto
next
  case (rollback i n v p w')
  from putRollback_cases(1) [OF rollback(4)] show thesis
  proof
    assume "isl p \<and> kvs w' = kvs (as_world s)"
    then show thesis using rollback(2) by (intro quiet) (auto split: if_splits)
  qed (use rollback in \<open>auto intro: that(4)\<close>)
next
  case (delete n d w')
  from DeleteFlow_cases [OF delete(3)] show thesis
  proof (elim disjE)
    assume "(\<exists>e. d = Inl (ErrEtcd e)) \<and> kvs w' = kvs (as_world s)"
    then show thesis using delete(2) by (intro quiet) auto
  qed (use delete in \<open>auto intro: that(5)\<close>)
qed

text \<open>Without rollbacks and deletions a step keeps the shape of the versions.\<close>

lemma api_step_inv:
  assumes "api_step cli pc s a t" "a \<noteq> PutRollback" "\<not> is_delete a" "api_inv pc kvs k s" "k < 2 ^ 64 - 1"
  shows "api_inv pc kvs (Suc k) t"
  using assms(1)
proof (cases rule: api_step_cases)
  case quiet
  then show ?thesis by (intro api_inv_same [OF assms(4) same_versions_refl]) auto
next
  case (status n b st)
  then show ?thesis by (intro api_inv_same [OF assms(4) status_same_versions]) auto
next
  case (commit i n sp resp nv)
  show ?thesis
    using commit committed_next [OF commit(1)] by (intro api_inv_commit [OF assms(4,5) committed_refines [OF commit(1)]]) auto
qed (use assms(2,3) in auto)

lemma api_run_inv:
  "api_run cli pc s as t \<Longrightarrow> (\<forall>a\<in>set as. a \<noteq> PutRollback \<and> \<not> is_delete a) \<Longrightarrow> api_inv pc kvs 0 s \<Longrightarrow> length as \<le> 2 ^ 64 - 1
     \<Longrightarrow> api_inv pc kvs (length as) t"
  by (induction rule: api_run.induct) (auto intro: api_step_inv)

end

lemma empty_store_inv:
  assumes "kvs (as_world s) = (\<lambda>_. None)" "as_acked s = []"
  shows "api_inv pc kvs 0 s"
  using assms
  by (simp add: api_inv_def wf_flow_def top_version_def aflow_of_def active_of_def spec_of_def [abs_def])

section \<open>Pointers\<close>

text \<open>
  The shape of the raw keys that rollbacks keep: a spec key holds a spec with its version, an active pointer is the
  decimal form of a version that has a spec key, and so has every version that a rollback in progress has checked.
\<close>

definition pointer_inv :: "proto_codec \<Rightarrow> keyspace \<Rightarrow> (nat \<Rightarrow> (string \<times> u64) option) \<Rightarrow> bool" where
  "pointer_inv pc m chk \<longleftrightarrow>
     (\<forall>n v. m (versionSpecKey n v) \<noteq> None \<longrightarrow> (\<exists>sp. spec_of pc m n v = Some sp \<and> fs_Version sp = v))
     \<and> (\<forall>n b. m (activeKey n) = Some b \<longrightarrow> (\<exists>v. b = FormatUint v \<and> m (versionSpecKey n v) \<noteq> None))
     \<and> (\<forall>i n v. chk i = Some (n, v) \<longrightarrow> m (versionSpecKey n v) \<noteq> None)"

lemma pointer_invD:
  assumes "pointer_inv pc m chk"
  shows "m (versionSpecKey n v) \<noteq> None \<Longrightarrow> \<exists>sp. spec_of pc m n v = Some sp \<and> fs_Version sp = v"
    and "m (activeKey n) = Some b \<Longrightarrow> \<exists>v. b = FormatUint v \<and> m (versionSpecKey n v) \<noteq> None"
    and "chk i = Some (n, v) \<Longrightarrow> m (versionSpecKey n v) \<noteq> None"
  using assms unfolding pointer_inv_def by blast+

lemma pointer_inv_served:
  assumes "pointer_inv pc m chk" "active_of m n = Some v"
  shows "\<exists>sp. spec_of pc m n v = Some sp \<and> fs_Version sp = v"
proof -
  obtain b where b: "m (activeKey n) = Some b" "map_option of_nat (ParseUint b 64) = Some v"
    using assms(2) by (auto simp: active_of_def split: option.splits)
  then obtain v' where "b = FormatUint v'" "m (versionSpecKey n v') \<noteq> None" using pointer_invD(2) [OF assms(1)] by blast
  moreover from this b have "v' = v" by simp
  ultimately show ?thesis using pointer_invD(1) [OF assms(1)] by blast
qed

context etcd_store
begin

lemma pointer_inv_commit:
  assumes "pointer_inv pc m chk" "committed pc n sp resp nv m m'"
  shows "pointer_inv pc m' chk"
proof -
  obtain b where b: "marshal_spec pc (sp\<lparr>fs_Version := nv\<rparr>) = Inr b"
    and m': "m' = m(versionSpecKey n nv \<mapsto> b, activeKey n \<mapsto> FormatUint nv)" using assms(2) by (auto simp: committed_def)
  note u = spec_roundtrip [OF b]
  show ?thesis unfolding pointer_inv_def
  proof (intro conjI allI impI)
    fix n' v assume "m' (versionSpecKey n' v) \<noteq> None"
    then show "\<exists>sp. spec_of pc m' n' v = Some sp \<and> fs_Version sp = v"
      using pointer_invD(1) [OF assms(1), of n' v] u by (auto simp: m' spec_of_commit split: if_splits)
  next
    fix n' b' assume "m' (activeKey n') = Some b'"
    then show "\<exists>v. b' = FormatUint v \<and> m' (versionSpecKey n' v) \<noteq> None"
      using pointer_invD(2) [OF assms(1), of n' b'] by (fastforce simp: m' split: if_splits)
  next
    fix i n' v assume "chk i = Some (n', v)"
    then show "m' (versionSpecKey n' v) \<noteq> None" using pointer_invD(3) [OF assms(1)] by (simp add: m')
  qed
qed

lemma api_step_pointer_inv:
  assumes "api_step cli pc s a t" "\<not> is_delete a" "pointer_inv pc (kvs (as_world s)) (as_check s)"
  shows "pointer_inv pc (kvs (as_world t)) (as_check t)"
  using assms(1)
proof (cases rule: api_step_cases)
  case quiet
  then show ?thesis using assms(3) unfolding pointer_inv_def quiet(1) by blast
next
  case (status n b st)
  then show ?thesis using assms(3) by (auto simp: pointer_inv_def spec_of_def)
next
  case (commit i n sp resp nv)
  then show ?thesis using pointer_inv_commit [OF assms(3) commit(1)] by simp
next
  case (rollback i n v)
  let ?m = "kvs (as_world s)"
  have v: "?m (versionSpecKey n v) \<noteq> None" using pointer_invD(3) [OF assms(3) rollback(2)] .
  have ptr: "\<exists>v'. b = FormatUint v' \<and> ?m (versionSpecKey n' v') \<noteq> None" if "kvs (as_world t) (activeKey n') = Some b" for n' b
  proof (cases "flow_id n' = flow_id n")
    case True
    then have "b = FormatUint v" using that rollback(4) by simp
    then show ?thesis using v same_id_keys(2) [OF True, of v] by metis
  next
    case False
    then show ?thesis using that rollback(4) pointer_invD(2) [OF assms(3)] by simp
  qed
  have "spec_of pc (kvs (as_world t)) = spec_of pc ?m" by (simp add: fun_eq_iff spec_of_def rollback(4))
  moreover have "kvs (as_world t) (versionSpecKey n' v') = ?m (versionSpecKey n' v')" for n' v' by (simp add: rollback(4))
  moreover have "?m (versionSpecKey n' v') \<noteq> None" if "as_check t j = Some (n', v')" for j n' v'
    using that pointer_invD(3) [OF assms(3)] by (simp add: rollback(3) split: if_splits)
  ultimately show ?thesis using ptr pointer_invD(1) [OF assms(3)] unfolding pointer_inv_def by metis
qed (use assms(2) in auto)

lemma api_run_pointer_inv:
  "api_run cli pc s as t \<Longrightarrow> (\<forall>a\<in>set as. \<not> is_delete a) \<Longrightarrow> pointer_inv pc (kvs (as_world s)) (as_check s)
     \<Longrightarrow> pointer_inv pc (kvs (as_world t)) (as_check t)"
  by (induction rule: api_run.induct) (auto intro: api_step_pointer_inv)

end

section \<open>Versions under interleaving\<close>

lemma machine_versions:
  assumes "etcd_store cli kvs pc" "kvs (as_world s) = (\<lambda>_. None)" "as_acked s = []"
    and "api_run cli pc s as t" "\<forall>a\<in>set as. a \<noteq> PutRollback \<and> \<not> is_delete a" "length as < 2 ^ 64"
  shows "\<forall>n v. spec_of pc (kvs (as_world t)) n v \<noteq> None \<longleftrightarrow>
      (\<exists>newest. active_of (kvs (as_world t)) n = Some newest \<and> 1 \<le> v \<and> v \<le> newest)"
    and "\<forall>n v sp. spec_of pc (kvs (as_world t)) n v = Some sp \<longrightarrow> fs_Version sp = v"
    and "distinct (map (\<lambda>f. (flow_id (fl_Name f), fl_Version f)) (as_acked t))"
    and "\<forall>f\<in>set (as_acked t). fl_Spec f \<noteq> None \<and> spec_of pc (kvs (as_world t)) (fl_Name f) (fl_Version f) = fl_Spec f"
proof -
  have inv: "api_inv pc kvs (length as) t"
    using etcd_store.api_run_inv [OF assms(1,4,5) empty_store_inv [of kvs s pc]] assms by simp
  then have wf: "wf_flow (aflow_of pc (kvs (as_world t)) n)" for n by (simp add: api_inv_def)
  show "\<forall>n v. spec_of pc (kvs (as_world t)) n v \<noteq> None \<longleftrightarrow>
      (\<exists>newest. active_of (kvs (as_world t)) n = Some newest \<and> 1 \<le> v \<and> v \<le> newest)"
  proof (intro allI)
    fix n v
    show "spec_of pc (kvs (as_world t)) n v \<noteq> None \<longleftrightarrow>
      (\<exists>newest. active_of (kvs (as_world t)) n = Some newest \<and> 1 \<le> v \<and> v \<le> newest)"
      using wf [of n] by (cases "active_of (kvs (as_world t)) n") (simp_all add: wf_flow_def aflow_of_def)
  qed
  show "\<forall>n v sp. spec_of pc (kvs (as_world t)) n v = Some sp \<longrightarrow> fs_Version sp = v"
    using wf by (auto simp: wf_flow_def aflow_of_def)
  show "distinct (map (\<lambda>f. (flow_id (fl_Name f), fl_Version f)) (as_acked t))" using inv by (simp add: api_inv_def)
  show "\<forall>f\<in>set (as_acked t). fl_Spec f \<noteq> None \<and> spec_of pc (kvs (as_world t)) (fl_Name f) (fl_Version f) = fl_Spec f"
    using inv by (simp add: api_inv_def)
qed

text \<open>
  C2: From an empty store, whatever the interleaving of the reads and commits of concurrent create and update requests with
  other reads and with the controller's status updates, and whatever calls fail on the way, as long as there are fewer steps
  than version numbers: the stored versions of every flow are exactly the numbers from 1 to its active version, each
  holding a spec with that number; no two acknowledged requests got the same version of a flow; and what each of
  them was told is stored is still stored under that version.
\<close>

theorem versions_stay_consecutive:
  assumes "etcd_store cli kvs pc" "kvs (as_world s) = (\<lambda>_. None)" "as_acked s = []"
    and "api_run cli pc s as t" "\<forall>a\<in>set as. a \<noteq> PutRollback \<and> \<not> is_delete a" "length as < 2 ^ 64"
  shows "(\<forall>n v. spec_of pc (kvs (as_world t)) n v \<noteq> None \<longleftrightarrow>
        (\<exists>newest. active_of (kvs (as_world t)) n = Some newest \<and> 1 \<le> v \<and> v \<le> newest))
    \<and> (\<forall>n v sp. spec_of pc (kvs (as_world t)) n v = Some sp \<longrightarrow> fs_Version sp = v)
    \<and> distinct (map (\<lambda>f. (flow_id (fl_Name f), fl_Version f)) (as_acked t))
    \<and> (\<forall>f\<in>set (as_acked t). fl_Spec f \<noteq> None \<and> spec_of pc (kvs (as_world t)) (fl_Name f) (fl_Version f) = fl_Spec f)"
  using machine_versions [OF assms] by blast

text \<open>Two requests race for version 1 of a flow: both read an empty pointer, the first commit wins, the second is refused.\<close>

definition race0 :: "etcd_mem api_state" where
  "race0 = \<lparr>as_world = mem0, as_read = (\<lambda>_. None), as_check = (\<lambda>_. None), as_acked = []\<rparr>"

definition race_won :: "(store_error + Flow) \<times> etcd_mem" where
  "race_won = commitVersion mem_client mini_codec ''foo'' foo_spec [] mem0"

definition race_lost :: "(store_error + Flow) \<times> etcd_mem" where
  "race_lost = commitVersion mem_client mini_codec ''foo'' (demo_spec\<lparr>fs_Name := ''foo''\<rparr>) [] (snd race_won)"

definition race4 :: "etcd_mem api_state" where
  "race4 = \<lparr>as_world = snd race_lost, as_read = (\<lambda>_. None), as_check = (\<lambda>_. None), as_acked = [projr (fst race_won)]\<rparr>"

lemma race_runs: "api_run mem_client mini_codec race0 [BeginCreate ''foo'', BeginCreate ''foo'', CommitCreate, CommitCreate] race4"
proof -
  let ?a = "(''foo'', foo_spec, [])" and ?b = "(''foo'', demo_spec\<lparr>fs_Name := ''foo''\<rparr>, [])"
  define s1 where "s1 = race0\<lparr>as_world := mem0, as_read := (as_read race0)(0 \<mapsto> ?a)\<rparr>"
  define s2 where "s2 = s1\<lparr>as_world := mem0, as_read := (as_read s1)(1 \<mapsto> ?b)\<rparr>"
  define s3 where "s3 = s2\<lparr>as_world := snd race_won, as_read := (as_read s2)(0 := None),
    as_acked := projr (fst race_won) # as_acked s2\<rparr>"
  define s4 where "s4 = s3\<lparr>as_world := snd race_lost, as_read := (as_read s3)(1 := None)\<rparr>"
  have read: "cli_Get mem_client (activeKey ''foo'') mem0 = (Inr [], mem0)"
    and won: "\<not> isl (fst race_won)" and lost: "isl (fst race_lost)" by code_simp+
  have "api_step mem_client mini_codec race0 (BeginCreate ''foo'') s1"
    unfolding s1_def using read by (intro begin_ok) (simp_all add: race0_def foo_spec_def)
  moreover have "api_step mem_client mini_codec s1 (BeginCreate ''foo'') s2"
    unfolding s2_def using read by (intro begin_ok) (simp_all add: s1_def race0_def)
  moreover have "api_step mem_client mini_codec s2 CommitCreate s3"
    unfolding s3_def using won
    by (intro commit_ok [of _ 0 "''foo''" foo_spec "[]"]) (simp_all add: s2_def s1_def race_won_def prod_eq_iff sum.expand)
  moreover have "api_step mem_client mini_codec s3 CommitCreate s4"
    unfolding s4_def using lost
    by (intro commit_failed [of _ 1 "''foo''" "demo_spec\<lparr>fs_Name := ''foo''\<rparr>" "[]" _ _ "projl (fst race_lost)"])
       (simp_all add: s3_def s2_def s1_def race_lost_def prod_eq_iff sum.expand)
  ultimately have "api_run mem_client mini_codec race0 [BeginCreate ''foo'', BeginCreate ''foo'', CommitCreate, CommitCreate] s4"
    by (blast intro: run_Cons run_none)
  moreover have "s4 = race4" by (simp add: s4_def s3_def s2_def s1_def race0_def race4_def fun_eq_iff)
  ultimately show ?thesis by simp
qed

theorem versions_stay_consecutive_witness:
  "(\<forall>v. spec_of mini_codec (mem_view (as_world race4)) ''foo'' v \<noteq> None \<longleftrightarrow> v = 1)
   \<and> map fl_Version (as_acked race4) = [1]"
proof -
  have "active_of (mem_view (as_world race4)) ''foo'' = Some 1" "map fl_Version (as_acked race4) = [1]" by code_simp+
  moreover have "mem_view (as_world race0) = (\<lambda>_. None)" by (simp add: race0_def mem0_def mem_view_def)
  ultimately show ?thesis
    using conjunct1 [OF versions_stay_consecutive, OF memstore.etcd_store_axioms _ _ race_runs] by (auto simp: race0_def)
qed

text \<open>
  C3: from an empty store, as long as nothing is deleted, whatever the interleaving of creates, updates, rollbacks and status
  updates and whatever calls fail: every active pointer names a version whose spec is stored, readable and carries that
  version. So the only errors a read of a flow can return are those of etcd and that the flow does not exist.
\<close>

theorem pointer_never_dangles:
  assumes "etcd_store cli kvs pc" "kvs (as_world s) = (\<lambda>_. None)" "as_check s = (\<lambda>_. None)"
    and "api_run cli pc s as t" "\<forall>a\<in>set as. \<not> is_delete a"
  shows "(\<forall>n v. active_of (kvs (as_world t)) n = Some v \<longrightarrow> (\<exists>sp. spec_of pc (kvs (as_world t)) n v = Some sp \<and> fs_Version sp = v))
    \<and> (\<forall>n e w'. GetFlow cli pc n (as_world t) = (Inl e, w') \<longrightarrow>
         (\<exists>x. e = ErrEtcd x) \<or> e = ErrFlowNotFound n \<and> kvs (as_world t) (activeKey n) = None)"
proof -
  let ?m = "kvs (as_world t)"
  have inv: "pointer_inv pc ?m (as_check t)"
    using etcd_store.api_run_pointer_inv [OF assms(1,4,5)] assms(2,3) by (simp add: pointer_inv_def)
  have "e = ErrFlowNotFound n \<and> ?m (activeKey n) = None \<or> (\<exists>x. e = ErrEtcd x)"
    if g: "GetFlow cli pc n (as_world t) = (Inl e, w')" for n e w'
  proof -
    have "active_of ?m n \<noteq> None" if "?m (activeKey n) \<noteq> None"
      using that pointer_invD(2) [OF inv] by (fastforce simp: active_of_def)
    then show ?thesis using etcd_store.GetFlow_err [OF assms(1) g] pointer_inv_served [OF inv, of n] by fastforce
  qed
  then show ?thesis using pointer_inv_served [OF inv] by blast
qed

text \<open>Two versions of a flow are created, and the flow is rolled back to the first.\<close>

definition back_world :: "nat \<Rightarrow> etcd_mem" where
  "back_world k =
     (let w1 = snd (commitVersion mem_client mini_codec ''foo'' foo_spec [] mem0);
          w2 = snd (createNewVersion mem_client mini_codec ''foo'' foo_spec w1)
      in if k = 0 then mem0 else if k = 1 then w1 else if k = 2 then w2
         else snd (RollbackFlow mem_client mini_codec ''foo'' 1 w2))"

lemma back_runs:
  "\<exists>as t. api_run mem_client mini_codec race0 as t \<and> (\<forall>a\<in>set as. \<not> is_delete a) \<and> as_world t = back_world 3"
proof -
  define s1 where "s1 = race0\<lparr>as_world := mem0, as_read := [0 \<mapsto> (''foo'', foo_spec, [])]\<rparr>"
  have read: "cli_Get mem_client (activeKey ''foo'') mem0 = (Inr [], mem0)"
    and won: "\<not> isl (fst (commitVersion mem_client mini_codec ''foo'' foo_spec [] mem0))" by code_simp+
  have a: "api_step mem_client mini_codec race0 (BeginCreate ''foo'') s1"
    unfolding s1_def using begin_ok [of race0 0 foo_spec "''foo''" mem_client "[]" mem0] read by (simp add: race0_def foo_spec_def)
  obtain f where c: "commitVersion mem_client mini_codec ''foo'' foo_spec [] mem0 = (Inr f, back_world 1)"
    using won by (cases "commitVersion mem_client mini_codec ''foo'' foo_spec [] mem0"; cases "fst (commitVersion mem_client mini_codec ''foo'' foo_spec [] mem0)")
      (auto simp: back_world_def)
  define s2 where "s2 = s1\<lparr>as_world := back_world 1, as_read := (as_read s1)(0 := None), as_acked := [f]\<rparr>"
  have b: "api_step mem_client mini_codec s1 CommitCreate s2"
    using commit_ok [of s1 0 "''foo''" foo_spec "[]" mem_client mini_codec f "back_world 1"] c by (simp add: s2_def s1_def race0_def)
  have w: "as_world s2 = back_world 1" "as_read s2 5 = None" "as_check s2 = (\<lambda>_. None)" "fs_Name foo_spec = ''foo''" by (simp_all add: s2_def s1_def race0_def foo_spec_def)
  obtain as3 s3 where r3: "api_run mem_client mini_codec s2 as3 s3" "as_world s3 = back_world 2"
    "set as3 \<subseteq> {BeginCreate ''foo'', CommitCreate}" "as_check s3 = as_check s2"
    using createNewVersion_run [of mem_client mini_codec "''foo''" foo_spec s2 "fst (createNewVersion mem_client mini_codec ''foo'' foo_spec (back_world 1))" "back_world 2" 5] w
    by (auto simp:  back_world_def Let_def)
  obtain as4 s4 where r4: "api_run mem_client mini_codec s3 as4 s4" "as_world s4 = back_world 3"
    "set as4 \<subseteq> {CheckRollback ''foo'', PutRollback, ReadStore}"
    using RollbackFlow_run [of mem_client mini_codec "''foo''" 1 s3 "fst (RollbackFlow mem_client mini_codec ''foo'' 1 (back_world 2))" "back_world 3" 0] r3 w
    by (auto simp: back_world_def Let_def)
  have "api_run mem_client mini_codec race0 (BeginCreate ''foo'' # CommitCreate # as3 @ as4) s4"
    using run_Cons [OF a run_Cons [OF b run_append [OF r4(1) r3(1)]]] .
  then show ?thesis using r3(3) r4(2,3) by (intro exI [of _ "BeginCreate ''foo'' # CommitCreate # as3 @ as4"] exI [of _ s4]) auto
qed

theorem pointer_never_dangles_witness:
  "active_of (mem_view (back_world 3)) ''foo'' = Some 1
   \<and> (\<exists>sp. spec_of mini_codec (mem_view (back_world 3)) ''foo'' 1 = Some sp \<and> fs_Version sp = 1)"
proof -
  obtain as t where r: "api_run mem_client mini_codec race0 as t" "\<forall>a\<in>set as. \<not> is_delete a" "as_world t = back_world 3"
    using back_runs by blast
  have "active_of (mem_view (back_world 3)) ''foo'' = Some 1" by code_simp
  moreover have "mem_view (as_world race0) = (\<lambda>_. None)" "as_check race0 = (\<lambda>_. None)" by (simp_all add: race0_def mem0_def mem_view_def)
  ultimately show ?thesis using pointer_never_dangles [OF memstore.etcd_store_axioms _ _ r(1,2)] r(3) by auto
qed

text \<open>
  C18: a rollback that races a deletion leaves a pointer to nothing. \<^verbatim>\<open>RollbackFlow\<close> runs on a client where a \<^verbatim>\<open>DeleteFlow\<close> of the
  same flow comes in between, right before the rollback's first write. When the rollback has found the spec of its
  version and the deletion succeeds, the rollback never succeeds: it returns an error of etcd, or that the
  spec is missing, and in the second case the store keeps a pointer that names a version without a spec, and
  every later read of the flow returns that error again, or one of etcd.
\<close>

definition before_write :: "('w \<Rightarrow> 'w) \<Rightarrow> 'w etcd_client \<Rightarrow> 'w etcd_client" where
  "before_write other cli = cli\<lparr>cli_Put := (\<lambda>k b w. cli_Put cli k b (other w)), cli_Txn := (\<lambda>cs os w. cli_Txn cli cs os (other w))\<rparr>"

lemma before_write_reads [simp]:
  "cli_Get (before_write other cli) = cli_Get cli" "checkRollback (before_write other cli) = checkRollback cli"
  "GetFlow (before_write other cli) = GetFlow cli"
proof -
  show get: "cli_Get (before_write other cli) = cli_Get cli" by (simp add: before_write_def)
  show "checkRollback (before_write other cli) = checkRollback cli" by (intro ext) (simp add: checkRollback_def get)
  have status: "GetFlowStatus (before_write other cli) = GetFlowStatus cli" by (intro ext) (simp add: GetFlowStatus_def get)
  show "GetFlow (before_write other cli) = GetFlow cli" by (intro ext) (unfold GetFlow_def get status, rule refl)
qed

lemma before_write_put: "putRollback (before_write other cli) n v w = putRollback cli n v (other w)"
  by (simp add: putRollback_def before_write_def)

lemma dangling_read:
  assumes "etcd_store cli kvs pc" "GetFlow cli pc n w = (r, w')" "active_of (kvs w) n = Some v" "kvs w (versionSpecKey n v) = None"
  shows "r = Inl (ErrSpecMissing n v) \<or> (\<exists>x. r = Inl (ErrEtcd x))"
proof -
  have s: "kvs w (activeKey n) \<noteq> None" "spec_of pc (kvs w) n v = None"
    using assms(3,4) by (auto simp: active_of_def spec_of_def split: option.splits)
  show ?thesis
  proof (cases r)
    case (Inl e)
    then show ?thesis using etcd_store.GetFlow_err [OF assms(1) assms(2) [unfolded Inl]] assms(3,4) s by auto
  next
    case (Inr f)
    then show ?thesis using etcd_store.GetFlow_ok [OF assms(1) assms(2) [unfolded Inr]] assms(3) s by auto
  qed
qed

theorem rollback_races_delete:
  assumes "etcd_store cli kvs pc" "plain n"
    and "RollbackFlow (before_write (\<lambda>w. snd (DeleteFlow cli n w)) cli) pc n v w = (r, w')"
    and "checkRollback cli n v w = (Inr (), w1)" "DeleteFlow cli n w1 = (Inr (), w2)"
  shows "(r = Inl (ErrSpecMissing n v) \<or> (\<exists>x. r = Inl (ErrEtcd x)))
    \<and> (r = Inl (ErrSpecMissing n v) \<longrightarrow> active_of (kvs w') n = Some v \<and> spec_of pc (kvs w') n v = None
         \<and> (\<forall>w3 r' w4. kvs w3 = kvs w' \<and> GetFlow cli pc n w3 = (r', w4) \<longrightarrow>
              r' = Inl (ErrSpecMissing n v) \<or> (\<exists>x. r' = Inl (ErrEtcd x))))"
proof -
  obtain p w3 where p: "putRollback cli n v w2 = (p, w3)" by fastforce
  have del: "kvs w2 = delete_prefix (flowPrefix n) (kvs w1)" using etcd_store.DeleteFlow_cases [OF assms(1,5)] by auto
  have "prefix (flowPrefix n) (versionSpecKey n v)" using flow_keys_prefix(2) [OF assms(2,2)] by simp
  then have gone: "kvs w2 (versionSpecKey n v) = None" by (simp add: del delete_prefix_def)
  show ?thesis
  proof (cases p)
    case (Inl e)
    then have "r = Inl e" using assms(3-5) p by (simp add: RollbackFlow_def before_write_put)
    then show ?thesis using etcd_store.putRollback_cases(2) [OF assms(1) p Inl] by auto
  next
    case (Inr u)
    then have f: "GetFlow cli pc n w3 = (r, w')" using assms(3-5) p by (simp add: RollbackFlow_def before_write_put)
    have "kvs w3 = (kvs w2)(activeKey n \<mapsto> FormatUint v)" using etcd_store.putRollback_cases(1) [OF assms(1) p] Inr by simp
    then have a: "active_of (kvs w3) n = Some v" "kvs w3 (versionSpecKey n v) = None"
      using gone by (simp_all add: active_of_def)
    have k: "kvs w' = kvs w3" by (rule etcd_store.GetFlow_pure [OF assms(1) f])
    have later: "r' = Inl (ErrSpecMissing n v) \<or> (\<exists>x. r' = Inl (ErrEtcd x))"
      if "kvs w5 = kvs w'" "GetFlow cli pc n w5 = (r', w4)" for w5 r' w4
      by (rule dangling_read [OF assms(1) that(2)]) (simp_all add: that(1) k a)
    show ?thesis using dangling_read [OF assms(1) f a] later a k by (auto simp: spec_of_def)
  qed
qed

theorem rollback_races_delete_witness:
  "fst (RollbackFlow (before_write (\<lambda>w. snd (DeleteFlow mem_client ''foo'' w)) mem_client) mini_codec ''foo'' 1 mem2) = Inl (ErrSpecMissing ''foo'' 1)
   \<and> active_of (mem_view (snd (RollbackFlow (before_write (\<lambda>w. snd (DeleteFlow mem_client ''foo'' w)) mem_client) mini_codec ''foo'' 1 mem2))) ''foo'' = Some 1"
proof -
  let ?r = "RollbackFlow (before_write (\<lambda>w. snd (DeleteFlow mem_client ''foo'' w)) mem_client) mini_codec ''foo'' 1 mem2"
  have c: "fst (checkRollback mem_client ''foo'' 1 mem2) = Inr ()"
    and d: "fst (DeleteFlow mem_client ''foo'' (snd (checkRollback mem_client ''foo'' 1 mem2))) = Inr ()"
    and r: "fst ?r = Inl (ErrSpecMissing ''foo'' 1)" by code_simp+
  have "plain ''foo''" by (simp add: plain_def)
  from rollback_races_delete [OF memstore.etcd_store_axioms this, of 1 mem2 "fst ?r" "snd ?r"
      "snd (checkRollback mem_client ''foo'' 1 mem2)" "snd (DeleteFlow mem_client ''foo'' (snd (checkRollback mem_client ''foo'' 1 mem2)))"] c d r
  show ?thesis by (simp add: prod_eq_iff)
qed

end
