(* ===== verification/Ctl_Machine.thy ===== *)
theory Ctl_Machine
  imports Ctl_Reconcile Store_Machine
begin

text \<open>
  The API and the controller together, as one transition system: API requests interleave at the level of
  their etcd calls (\<open>Store_Machine\<close>), etcd reports the changes below the watched prefix as a stream of events, the watch
  loop turns an event into a key of the queue, and any number of workers take keys, read the store, and bring
  the cluster to what they have read. A turn of a worker is four steps: taking the key, reading the pointer, reading the spec, and the
  rest of \<^verbatim>\<open>reconcile\<close> with the end of the turn; the store may change between any two of them. The calls to the cluster of one reconcile are one
  step: no two workers hold the same flow, and no worker touches the objects of another. Every turn of \<open>worker_step\<close> is a run of this machine (\<open>worker_turn_runs\<close>).

  The theory shows that the controller converges, as far as the watch loop has not dropped a change for good, and that it
  comes to rest when it is left alone.
\<close>

section \<open>What a reconcile leaves in the cluster\<close>

abbreviation job_key :: "'w Controller \<Rightarrow> string \<Rightarrow> kkey" where
  "job_key c n \<equiv> (JobKind, c_runtimeNamespace c, n)"

text \<open>An object that runs a spec, as the controller makes it when there is none.\<close>

definition made_for ::
  "(DeploymentSpec \<Rightarrow> DeploymentSpec \<Rightarrow> bool) \<Rightarrow> (DaemonSetSpec \<Rightarrow> DaemonSetSpec \<Rightarrow> bool) \<Rightarrow> (JobSpec \<Rightarrow> JobSpec \<Rightarrow> bool)
     \<Rightarrow> (CronJobSpec \<Rightarrow> CronJobSpec \<Rightarrow> bool) \<Rightarrow> 'w Controller \<Rightarrow> FlowSpec \<Rightarrow> kobj \<Rightarrow> bool" where
  "made_for fill_dp fill_ds fill_jb fill_cj c sp ob \<longleftrightarrow>
     (\<exists>yaml. config_yaml (c_cc c) sp = Some yaml
        \<and> runs fill_dp fill_ds fill_jb fill_cj sp
            (workload_pods sp (pullPolicyFromSpec (Some sp)) (EncodeToString (cc_Sum256 (c_cc c) yaml))
               (c_observabilityEnabled c) (c_otelEndpoint c)) None ob)"

text \<open>
  Flow \<open>n\<close> is deployed for what was read: nothing of it is there when there is no spec; otherwise its configuration is in the config
  map and its workload runs the spec. A job is never replaced: for a spec that runs as a job the workload may instead be one of the
  jobs that \<open>kept\<close> tells.
\<close>

definition deployed ::
  "(DeploymentSpec \<Rightarrow> DeploymentSpec \<Rightarrow> bool) \<Rightarrow> (DaemonSetSpec \<Rightarrow> DaemonSetSpec \<Rightarrow> bool) \<Rightarrow> (JobSpec \<Rightarrow> JobSpec \<Rightarrow> bool)
     \<Rightarrow> (CronJobSpec \<Rightarrow> CronJobSpec \<Rightarrow> bool) \<Rightarrow> 'w Controller \<Rightarrow> (kobj \<Rightarrow> bool) \<Rightarrow> string \<Rightarrow> FlowSpec option \<Rightarrow> cluster \<Rightarrow> bool" where
  "deployed fill_dp fill_ds fill_jb fill_cj c kept n so cl \<longleftrightarrow>
     (case so of
        None \<Rightarrow> \<forall>k\<in>runtime_keys (c_runtimeNamespace c) n. cl k = None
      | Some sp \<Rightarrow>
          (\<exists>yaml cm. config_yaml (c_cc c) sp = Some yaml
             \<and> cl (cm_key (c_runtimeNamespace c) n) = Some (KConfigMap cm) \<and> ob_Spec cm = [(runtimeConfigKey, yaml)])
          \<and> (\<exists>ob. cl (wl_key (c_runtimeNamespace c) sp) = Some ob
               \<and> (made_for fill_dp fill_ds fill_jb fill_cj c sp ob \<or> workload_kind sp = JobKind \<and> kept ob)))"

lemma deployed_cong:
  assumes "\<And>k. k \<in> runtime_keys (c_runtimeNamespace c) n \<Longrightarrow> cl' k = cl k" "\<And>sp. so = Some sp \<Longrightarrow> fs_Name sp = n"
  shows "deployed fill_dp fill_ds fill_jb fill_cj c kept n so cl' = deployed fill_dp fill_ds fill_jb fill_cj c kept n so cl"
proof (cases so)
  case (Some sp)
  have "cl' (wl_key (c_runtimeNamespace c) sp) = cl (wl_key (c_runtimeNamespace c) sp)"
    "cl' (cm_key (c_runtimeNamespace c) n) = cl (cm_key (c_runtimeNamespace c) n)"
    using wl_key_in [of "c_runtimeNamespace c"] assms Some by metis+
  then show ?thesis by (simp add: deployed_def Some)
qed (use assms(1) in \<open>simp add: deployed_def\<close>)

lemma deployed_mono:
  assumes "deployed fill_dp fill_ds fill_jb fill_cj c kept n so cl"
    and "\<And>sp ob. so = Some sp \<Longrightarrow> cl (wl_key (c_runtimeNamespace c) sp) = Some ob \<Longrightarrow> kept ob \<Longrightarrow> kept' ob"
  shows "deployed fill_dp fill_ds fill_jb fill_cj c kept' n so cl"
  using assms unfolding deployed_def by (auto split: option.splits)

lemma wl_key_job: "workload_kind sp = JobKind \<Longrightarrow> wl_key (c_runtimeNamespace c) sp = job_key c (fs_Name sp)"
  by (auto simp: wl_key_def workload_name_def workload_kind_def split: if_splits)

lemma runs_again:
  assumes "runs fill_dp fill_ds fill_jb fill_cj sp t old new"
  shows "runs fill_dp fill_ds fill_jb fill_cj sp t None new \<or> workload_kind sp = JobKind \<and> old = Some new"
  using assms by (auto simp: runs_def split: kind.splits)

context control_plane
begin

lemma ensureRuntime_job:
  assumes "ensureRuntime (c_cc c) (Some kc) (c_runtimeNamespace c) (Some sp) (pullPolicyFromSpec (Some sp))
      (c_observabilityEnabled c) (c_otelEndpoint c) w = ((wl, x), w')" "view w' (job_key c (fs_Name sp)) = Some ob"
  shows "view w (job_key c (fs_Name sp)) = Some ob
    \<or> workload_kind sp = JobKind \<and> made_for fill_dp fill_ds fill_jb fill_cj c sp ob"
proof (cases "workload_kind sp = JobKind")
  case True
  note key = wl_key_job [OF True, of c]
  from ensureRuntime_cases [OF assms(1)] have "view w' (job_key c (fs_Name sp)) = view w (job_key c (fs_Name sp))
      \<or> (\<exists>yaml. config_yaml (c_cc c) sp = Some yaml \<and> runs fill_dp fill_ds fill_jb fill_cj sp
           (workload_pods sp (pullPolicyFromSpec (Some sp)) (EncodeToString (cc_Sum256 (c_cc c) yaml))
              (c_observabilityEnabled c) (c_otelEndpoint c)) (view w (job_key c (fs_Name sp))) ob)"
    unfolding key using assms(2) by (elim conjE disjE exE) simp_all
  then show ?thesis using assms(2) True runs_again unfolding made_for_def by metis
next
  case False
  then have "job_key c (fs_Name sp) \<noteq> wl_key (c_runtimeNamespace c) sp" "job_key c (fs_Name sp) \<noteq> cm_key (c_runtimeNamespace c) (fs_Name sp)"
    by (auto simp: wl_key_def cm_key_def)
  then show ?thesis using ensureRuntime_cases [OF assms(1)] assms(2) by metis
qed

lemma ensureRuntime_deployed:
  assumes "ensureRuntime (c_cc c) (Some kc) (c_runtimeNamespace c) (Some sp) (pullPolicyFromSpec (Some sp))
      (c_observabilityEnabled c) (c_otelEndpoint c) w = ((wl, None), w')"
  shows "deployed fill_dp fill_ds fill_jb fill_cj c (\<lambda>ob. view w (job_key c (fs_Name sp)) = Some ob) (fs_Name sp) (Some sp) (view w')"
proof -
  obtain yaml cm new where r: "config_yaml (c_cc c) sp = Some yaml"
    "view w' (cm_key (c_runtimeNamespace c) (fs_Name sp)) = Some (KConfigMap cm)" "ob_Spec cm = [(runtimeConfigKey, yaml)]"
    "view w' (wl_key (c_runtimeNamespace c) sp) = Some new"
    "runs fill_dp fill_ds fill_jb fill_cj sp
       (workload_pods sp (pullPolicyFromSpec (Some sp)) (EncodeToString (cc_Sum256 (c_cc c) yaml))
          (c_observabilityEnabled c) (c_otelEndpoint c)) (view w (wl_key (c_runtimeNamespace c) sp)) new"
    using ensureRuntime_cases [OF assms] by (auto simp: runtime_ready_def)
  from runs_again [OF r(5)] have "made_for fill_dp fill_ds fill_jb fill_cj c sp new
      \<or> workload_kind sp = JobKind \<and> view w (job_key c (fs_Name sp)) = Some new"
    using r(1) wl_key_job [of sp c] by (auto simp: made_for_def)
  then show ?thesis using r(1-4) by (auto simp: deployed_def)
qed

lemma reconcile_rest_cases:
  assumes r: "reconcile_rest c now n a w = (e, w')" and c: "runs_on c cli pc kc" and n: "n \<noteq> []"
    and nm: "\<And>sp. fst a = Some sp \<Longrightarrow> fs_Name sp = n"
  shows "(\<forall>k. k \<notin> runtime_keys (c_runtimeNamespace c) n \<longrightarrow> view w' k = view w k)
    \<and> (kvs w' = kvs w \<or> (\<exists>b. kvs w' = (kvs w)(statusKey n \<mapsto> b)))
    \<and> (e = None \<longrightarrow> deployed fill_dp fill_ds fill_jb fill_cj c (\<lambda>ob. view w (job_key c n) = Some ob) n (fst a) (view w'))
    \<and> (\<forall>ob. view w' (job_key c n) = Some ob \<longrightarrow> view w (job_key c n) = Some ob
         \<or> (\<exists>sp. fst a = Some sp \<and> workload_kind sp = JobKind \<and> made_for fill_dp fill_ds fill_jb fill_cj c sp ob))"
proof -
  note c = c [unfolded runs_on_def]
  obtain so v where a: "a = (so, v)" by fastforce
  show ?thesis
  proof (cases so)
    case None
    obtain x where d: "deleteRuntimeResources (Some kc) (c_runtimeNamespace c) n w = (x, w')" "e = map_option RecRuntime x"
      using r c a None by (auto simp: reconcile_rest_def split: prod.splits option.splits)
    note dc = deleteRuntimeResources_cases [OF d(1) n]
    have "\<forall>ob. view w' (job_key c n) = Some ob \<longrightarrow> view w (job_key c n) = Some ob" using dc by (metis option.distinct(1))
    then show ?thesis using dc deleteRuntimeResources_keeps [OF d(1)] d(2) by (auto simp: a None deployed_def split: option.splits)
  next
    case (Some sp)
    have f: "fs_Name sp = n" using nm a Some by simp
    obtain wl x w2 where en: "ensureRuntime (c_cc c) (Some kc) (c_runtimeNamespace c) (Some sp) (pullPolicyFromSpec (Some sp))
        (c_observabilityEnabled c) (c_otelEndpoint c) w = ((wl, x), w2)" by (metis prod.collapse)
    have frame: "\<forall>k. k \<notin> runtime_keys (c_runtimeNamespace c) n \<longrightarrow> view w2 k = view w k"
      using ensureRuntime_cases [OF en] wl_key_in [of "c_runtimeNamespace c"] f by metis
    note k2 = ensureRuntime_keeps [OF en] and job = ensureRuntime_job [OF en, unfolded f]
    show ?thesis
    proof (cases x)
      case (Some y)
      then have "w' = w2" "e = Some (RecRuntime y)" using r c a \<open>so = Some sp\<close> en by (auto simp: reconcile_rest_def)
      then show ?thesis using frame k2 job by (simp add: a \<open>so = Some sp\<close>)
    next
      case None
      obtain u where up: "UpdateStatus cli pc n (Some (deploying_status now v wl)) w2 = (u, w')"
        using r c a \<open>so = Some sp\<close> en None by (auto simp: reconcile_rest_def split: prod.splits sum.splits)
      have "deployed fill_dp fill_ds fill_jb fill_cj c (\<lambda>ob. view w (job_key c n) = Some ob) n so (view w2)"
        using ensureRuntime_deployed [OF en [unfolded None]] f \<open>so = Some sp\<close> by simp
      then show ?thesis
        using frame k2 job UpdateStatus_cases [OF up] UpdateStatus_keeps [OF up] by (auto simp: a \<open>so = Some sp\<close>)
    qed
  qed
qed

end

section \<open>The system\<close>

text \<open>
  etcd reports every change below the watched prefix, one event for each key that was written, and only keys that exist or
  existed. The events of a step are appended to the stream in some order; the order does not matter, because the controller
  reads the store anew.
\<close>

definition ev_key :: "etcd_event \<Rightarrow> string option" where
  "ev_key ev = map_option kv_Key (ee_Kv ev)"

definition reports :: "etcd_event list \<Rightarrow> keyspace \<Rightarrow> keyspace \<Rightarrow> bool" where
  "reports evs m m' \<longleftrightarrow>
     (\<forall>k. prefix (ctl_rootPrefix @ ''/'') k \<and> m' k \<noteq> m k \<longrightarrow> (\<exists>ev\<in>set evs. ev_key ev = Some k \<and> eventType_of ev \<noteq> None))
     \<and> (\<forall>ev\<in>set evs. \<exists>k. ev_key ev = Some k \<and> prefix (ctl_rootPrefix @ ''/'') k \<and> (m k \<noteq> None \<or> m' k \<noteq> None))
     \<and> distinct (map ev_key evs)"

definition put_event :: "string \<Rightarrow> etcd_event" where
  "put_event k = \<lparr>ee_Type = EventTypePut, ee_Kv = Some \<lparr>kv_Key = k, kv_Value = ''''\<rparr>, ee_IsCreate = True\<rparr>"

text \<open>
  How far a worker has come with the key it holds: it has taken it, it has read the pointer (\<open>readActive\<close>), or it holds what it will
  bring the cluster to (\<open>readSpec\<close>).
\<close>

datatype progress = Taken | Pointed u64 | Held "FlowSpec option \<times> u64"

record ('q, 'w) sys =
  sy_api :: "'w api_state"
  sy_queue :: "'q MemoryQueue"
  sy_stream :: "etcd_event list"
  sy_busy :: "nat \<Rightarrow> (string \<times> progress) option"

abbreviation sy_world :: "('q, 'w) sys \<Rightarrow> 'w" where
  "sy_world s \<equiv> as_world (sy_api s)"

definition set_world :: "'w \<Rightarrow> ('q, 'w) sys \<Rightarrow> ('q, 'w) sys" where
  "set_world w s = s\<lparr>sy_api := (sy_api s)\<lparr>as_world := w\<rparr>\<rparr>"

datatype sys_action = Api api_action | Deliver etcd_event | Skip etcd_event | Take | Look | Finish | Fail

text \<open>
  A worker's turn is \<open>worker_step\<close> cut at its calls to the queue and to etcd: it takes a key, reads the pointer, reads the
  spec, and does the rest of the reconcile, which calls the cluster and writes the status, in one step. A worker that holds a
  key is the only one that touches the objects of that flow, and the rest of a reconcile reads nothing from etcd.
\<close>

inductive sys_step ::
  "'q wq_ops \<Rightarrow> 'w Controller \<Rightarrow> ('w \<Rightarrow> keyspace) \<Rightarrow> ('q, 'w) sys \<Rightarrow> sys_action \<Rightarrow> ('q, 'w) sys \<Rightarrow> bool" for ops c kvs where
  sys_api: "api_step (c_cli c) (c_pc c) (sy_api s) a t \<Longrightarrow> reports evs (kvs (sy_world s)) (kvs (as_world t)) \<Longrightarrow>
    sys_step ops c kvs s (Api a) (s\<lparr>sy_api := t, sy_stream := sy_stream s @ evs\<rparr>)"
| deliver: "sy_stream s = ev # rest \<Longrightarrow> buildWatchEvent (GetActiveFlow (c_cli c) (c_pc c)) (Some ev) (sy_world s) = (Some e, w') \<Longrightarrow>
    sys_step ops c kvs s (Deliver ev) (set_world w' s\<lparr>sy_queue := runWatch ops now [e] (sy_queue s), sy_stream := rest\<rparr>)"
| skip: "sy_stream s = ev # rest \<Longrightarrow> buildWatchEvent (GetActiveFlow (c_cli c) (c_pc c)) (Some ev) (sy_world s) = (None, w') \<Longrightarrow>
    sys_step ops c kvs s (Skip ev) (set_world w' s\<lparr>sy_stream := rest\<rparr>)"
| take: "sy_busy s i = None \<Longrightarrow> MQ_Get ops now (sy_queue s) = (Some (k, lag, True), m) \<Longrightarrow>
    sys_step ops c kvs s Take (s\<lparr>sy_queue := m, sy_busy := (sy_busy s)(i \<mapsto> (k, Taken))\<rparr>)"
| point: "sy_busy s i = Some (k, Taken) \<Longrightarrow> readActive (c_cli c) k (sy_world s) = (Inr (Some v), w') \<Longrightarrow>
    sys_step ops c kvs s Look (set_world w' s\<lparr>sy_busy := (sy_busy s)(i \<mapsto> (k, Pointed v))\<rparr>)"
| no_pointer: "sy_busy s i = Some (k, Taken) \<Longrightarrow> readActive (c_cli c) k (sy_world s) = (Inr None, w') \<Longrightarrow>
    sys_step ops c kvs s Look (set_world w' s\<lparr>sy_busy := (sy_busy s)(i \<mapsto> (k, Held (None, 0)))\<rparr>)"
| point_failed: "sy_busy s i = Some (k, Taken) \<Longrightarrow> readActive (c_cli c) k (sy_world s) = (Inl e, w') \<Longrightarrow>
    sys_step ops c kvs s Fail (set_world w' s\<lparr>sy_queue := finish_turn ops now k (Some (RecStore e)) (sy_queue s),
      sy_busy := (sy_busy s)(i := None)\<rparr>)"
| fetch: "sy_busy s i = Some (k, Pointed v) \<Longrightarrow> readSpec (c_cli c) (c_pc c) k v (sy_world s) = (Inr a, w') \<Longrightarrow>
    sys_step ops c kvs s Look (set_world w' s\<lparr>sy_busy := (sy_busy s)(i \<mapsto> (k, Held a))\<rparr>)"
| fetch_failed: "sy_busy s i = Some (k, Pointed v) \<Longrightarrow> readSpec (c_cli c) (c_pc c) k v (sy_world s) = (Inl e, w') \<Longrightarrow>
    sys_step ops c kvs s Fail (set_world w' s\<lparr>sy_queue := finish_turn ops now k (Some (RecStore e)) (sy_queue s),
      sy_busy := (sy_busy s)(i := None)\<rparr>)"
| finish: "sy_busy s i = Some (k, Held a) \<Longrightarrow> reconcile_rest c now k a (sy_world s) = (e, w') \<Longrightarrow>
    reports evs (kvs (sy_world s)) (kvs w') \<Longrightarrow> \<forall>ev\<in>set evs. ev_key ev = Some (statusKey k) \<Longrightarrow>
    sys_step ops c kvs s (if e = None then Finish else Fail) (set_world w' s\<lparr>sy_queue := finish_turn ops now k e (sy_queue s),
      sy_busy := (sy_busy s)(i := None), sy_stream := sy_stream s @ evs\<rparr>)"

inductive sys_run ::
  "'q wq_ops \<Rightarrow> 'w Controller \<Rightarrow> ('w \<Rightarrow> keyspace) \<Rightarrow> ('q, 'w) sys \<Rightarrow> sys_action list \<Rightarrow> ('q, 'w) sys \<Rightarrow> bool" for ops c kvs where
  sys_none: "sys_run ops c kvs s [] s"
| sys_more: "sys_run ops c kvs s as t \<Longrightarrow> sys_step ops c kvs t a u \<Longrightarrow> sys_run ops c kvs s (as @ [a]) u"

lemma sys_run_append:
  "sys_run ops c kvs t bs u \<Longrightarrow> sys_run ops c kvs s as t \<Longrightarrow> sys_run ops c kvs s (as @ bs) u"
  by (induction rule: sys_run.induct) (auto intro: sys_more simp flip: append_assoc)

lemma sys_run_one: "sys_step ops c kvs s a t \<Longrightarrow> sys_run ops c kvs s [a] t"
  using sys_more [OF sys_none] by fastforce

section \<open>What a step does to the store\<close>

text \<open>
  The names of the flows are plain: the names in the requests, and so the names of all pointers; and every
  spec carries the name of its flow.
\<close>

fun action_plain :: "api_action \<Rightarrow> bool" where
  "action_plain (BeginCreate n) = plain n"
| "action_plain (CheckRollback n) = plain n"
| "action_plain (WriteStatus n) = plain n"
| "action_plain (DeleteAll n) = plain n"
| "action_plain _ = True"

text \<open>
  A failed read of the watch loop drops the event of a pointer. The change is lost unless a later event of the same pointer gets
  through.
\<close>

definition loses :: "string \<Rightarrow> sys_action \<Rightarrow> bool" where
  "loses n a \<longleftrightarrow> (\<exists>ev. a = Skip ev \<and> ev_key ev = Some (activeKey n) \<and> eventType_of ev \<noteq> None)"

definition delivers :: "string \<Rightarrow> sys_action \<Rightarrow> bool" where
  "delivers n a \<longleftrightarrow> (\<exists>ev. a = Deliver ev \<and> ev_key ev = Some (activeKey n))"

definition lost :: "string \<Rightarrow> sys_action list \<Rightarrow> bool" where
  "lost n as \<longleftrightarrow> (\<exists>bs a cs. as = bs @ a # cs \<and> loses n a \<and> (\<forall>b\<in>set cs. \<not> delivers n b))"

lemma lost_snoc: "lost n (as @ [a]) \<longleftrightarrow> loses n a \<or> lost n as \<and> \<not> delivers n a"
proof
  assume "lost n (as @ [a])"
  then obtain bs b cs where b: "as @ [a] = bs @ b # cs" "loses n b" "\<forall>x\<in>set cs. \<not> delivers n x" by (auto simp: lost_def)
  show "loses n a \<or> lost n as \<and> \<not> delivers n a"
  proof (cases cs rule: rev_cases)
    case Nil
    then show ?thesis using b by simp
  next
    case (snoc ds d)
    then have "as = bs @ b # ds" "a = d" using b(1) by simp_all
    then show ?thesis using b snoc unfolding lost_def by auto
  qed
next
  assume "loses n a \<or> lost n as \<and> \<not> delivers n a"
  then show "lost n (as @ [a])"
  proof
    assume "lost n as \<and> \<not> delivers n a"
    then obtain bs b cs where "as = bs @ b # cs" "loses n b" "\<forall>x\<in>set cs. \<not> delivers n x" "\<not> delivers n a" by (auto simp: lost_def)
    then show ?thesis unfolding lost_def by (intro exI [of _ bs] exI [of _ b] exI [of _ "cs @ [a]"]) auto
  qed (unfold lost_def, intro exI [of _ as] exI [of _ a] exI [of _ "[]"], simp)
qed

text \<open>A spec that was stored under the name of a flow at some point of a run.\<close>

definition once_stored ::
  "'q wq_ops \<Rightarrow> 'w Controller \<Rightarrow> ('w \<Rightarrow> keyspace) \<Rightarrow> ('q, 'w) sys \<Rightarrow> ('q, 'w) sys \<Rightarrow> string \<Rightarrow> FlowSpec \<Rightarrow> bool" where
  "once_stored ops c kvs s t n sp \<longleftrightarrow>
     (\<exists>bs u cs v. sys_run ops c kvs s bs u \<and> sys_run ops c kvs u cs t \<and> spec_of (c_pc c) (kvs (sy_world u)) n v = Some sp)"

lemma once_stored_now: "sys_run ops c kvs s as t \<Longrightarrow> spec_of (c_pc c) (kvs (sy_world t)) n v = Some sp \<Longrightarrow> once_stored ops c kvs s t n sp"
  unfolding once_stored_def using sys_none by blast

lemma once_stored_step: "once_stored ops c kvs s t n sp \<Longrightarrow> sys_step ops c kvs t a u \<Longrightarrow> once_stored ops c kvs s u n sp"
  unfolding once_stored_def using sys_more by blast

definition named :: "proto_codec \<Rightarrow> keyspace \<Rightarrow> bool" where
  "named pc m \<longleftrightarrow> (\<forall>n v sp. plain n \<and> spec_of pc m n v = Some sp \<longrightarrow> fs_Name sp = n)"

definition store_inv :: "proto_codec \<Rightarrow> ('w \<Rightarrow> keyspace) \<Rightarrow> 'w api_state \<Rightarrow> bool" where
  "store_inv pc kvs s \<longleftrightarrow> named pc (kvs (as_world s)) \<and> plain_pointers (kvs (as_world s))
     \<and> (\<forall>i n sp resp. as_read s i = Some (n, sp, resp) \<longrightarrow> plain n \<and> fs_Name sp = n)
     \<and> (\<forall>i n v. as_check s i = Some (n, v) \<longrightarrow> plain n)"

text \<open>The active view of a flow changes only together with its pointer.\<close>

definition announced :: "proto_codec \<Rightarrow> keyspace \<Rightarrow> keyspace \<Rightarrow> bool" where
  "announced pc m m' \<longleftrightarrow>
     (\<forall>n a. plain n \<and> m' (activeKey n) = m (activeKey n) \<longrightarrow> active_view pc m' n a = active_view pc m n a)"

lemma announcedD: "announced pc m m' \<Longrightarrow> plain n \<Longrightarrow> m' (activeKey n) = m (activeKey n) \<Longrightarrow> active_view pc m' n a = active_view pc m n a"
  unfolding announced_def by blast

lemma announcedI:
  assumes "\<And>n v. plain n \<Longrightarrow> m' (activeKey n) = m (activeKey n) \<Longrightarrow> active_of m n = Some v \<Longrightarrow> m' (versionSpecKey n v) = m (versionSpecKey n v)"
  shows "announced pc m m'"
proof -
  have "active_view pc m' n a = active_view pc m n a" if n: "plain n" "m' (activeKey n) = m (activeKey n)" for n a
  proof -
    have "active_of m' n = active_of m n" using n(2) by (simp add: active_of_def)
    then show ?thesis using assms [OF n] n(2) by (cases "active_of m n") (auto simp: active_view_def spec_of_def split: option.splits)
  qed
  then show ?thesis unfolding announced_def by blast
qed

lemma announced_same: "m' = m \<or> m' = m(statusKey n \<mapsto> b) \<Longrightarrow> announced pc m m'"
  by (rule announcedI) auto

lemma statusKey_root: "plain n \<Longrightarrow> prefix (rootPrefix @ ''/'') (statusKey n)"
  by (simp add: flow_keys rootPrefix_def)

lemma activeKey_root: "plain n \<Longrightarrow> prefix (rootPrefix @ ''/'') (activeKey n)"
  by (simp add: flow_keys rootPrefix_def)

locale control_system = control_plane cli kvs pc kc view fill_dp fill_ds fill_jb fill_cj + work_queue ops queued delayed processing down
  for cli :: "'w etcd_client" and kvs :: "'w \<Rightarrow> keyspace" and pc :: proto_codec
    and kc :: "'w kube_client" and view :: "'w \<Rightarrow> cluster"
    and fill_dp :: "DeploymentSpec \<Rightarrow> DeploymentSpec \<Rightarrow> bool" and fill_ds :: "DaemonSetSpec \<Rightarrow> DaemonSetSpec \<Rightarrow> bool"
    and fill_jb :: "JobSpec \<Rightarrow> JobSpec \<Rightarrow> bool" and fill_cj :: "CronJobSpec \<Rightarrow> CronJobSpec \<Rightarrow> bool"
    and ops :: "'q wq_ops" and queued :: "'q \<Rightarrow> string set" and delayed :: "'q \<Rightarrow> string set"
    and processing :: "'q \<Rightarrow> string set" and down :: "'q \<Rightarrow> bool" +
  fixes c :: "'w Controller"
  assumes runs: "runs_on c cli pc kc"
    and Txn_keeps: "cli_Txn cli cs os w = (r, w') \<Longrightarrow> view w' = view w"
    and DeletePrefix_keeps: "cli_DeletePrefix cli p w = (u, w') \<Longrightarrow> view w' = view w"
begin

lemma GetFlowStatus_keeps: "GetFlowStatus cli pc n w = (r, w') \<Longrightarrow> view w' = view w"
  by (auto simp: GetFlowStatus_def split: prod.splits sum.splits list.splits dest!: Get_keeps)

lemma api_step_view: "api_step cli pc s a t \<Longrightarrow> view (as_world t) = view (as_world s)"
  by (erule api_step.cases)
     (auto simp: commitVersion_def GetFlow_def DeleteFlow_def checkRollback_def putRollback_def Let_def
        split: prod.splits sum.splits list.splits option.splits if_splits
        dest!: Get_keeps Put_keeps Txn_keeps DeletePrefix_keeps GetActiveFlow_keeps UpdateStatus_keeps GetFlowStatus_keeps)

lemma requests_plain:
  assumes "api_step cli pc s a t" "action_plain a"
    and "\<And>i n sp resp. as_read s i = Some (n, sp, resp) \<Longrightarrow> plain n \<and> fs_Name sp = n" "\<And>i n v. as_check s i = Some (n, v) \<Longrightarrow> plain n"
  shows "(\<forall>i n sp resp. as_read t i = Some (n, sp, resp) \<longrightarrow> plain n \<and> fs_Name sp = n) \<and> (\<forall>i n v. as_check t i = Some (n, v) \<longrightarrow> plain n)"
  using assms by (cases rule: api_step.cases) (auto split: if_splits)


lemma commit_announced:
  assumes "committed pc n sp resp nv m m'"
  shows "announced pc m m'"
proof (rule announcedI)
  fix n' v assume a: "m' (activeKey n') = m (activeKey n')" "active_of m n' = Some v"
  obtain b where m': "m' = m(versionSpecKey n nv \<mapsto> b, activeKey n \<mapsto> FormatUint nv)" using assms by (auto simp: committed_def)
  have "flow_id n' \<noteq> flow_id n"
  proof
    assume id: "flow_id n' = flow_id n"
    then have "m (activeKey n') = Some (FormatUint nv)" using a(1) by (simp add: m')
    then have "active_of m n' = Some nv" by (simp add: active_of_def)
    then have "a_active (aflow_of pc m n) = Some nv" using aflow_of_same_id [OF id, of pc m] by (metis aflow_of_sels(1))
    then have "a_next (aflow_of pc m n) = nv + 1" by (simp add: a_next_def)
    then show False using committed_next [OF assms] by simp
  qed
  then show "m' (versionSpecKey n' v) = m (versionSpecKey n' v)" by (simp add: m')
qed

lemma delete_announced: "plain n \<Longrightarrow> announced pc m (delete_prefix (flowPrefix n) m)"
  by (rule announcedI) (auto simp: flow_keys_prefix delete_prefix_def active_of_def split: if_splits)

lemma api_step_announced:
  assumes "api_step cli pc s a t" "action_plain a"
  shows "announced pc (kvs (as_world s)) (kvs (as_world t))"
  using assms(1)
proof (cases rule: api_step_cases)
  case (rollback i n v)
  then show ?thesis by (intro announcedI) simp
next
  case (status n b st)
  then show ?thesis using announced_same by blast
qed (use assms(2) commit_announced delete_announced announced_same in auto)

lemma commit_named:
  assumes "committed pc n sp resp nv m m'" "named pc m" "plain_pointers m" "plain n" "fs_Name sp = n"
  shows "named pc m' \<and> plain_pointers m'"
proof -
  obtain b where b: "marshal_spec pc (sp\<lparr>fs_Version := nv\<rparr>) = Inr b"
    and m': "m' = m(versionSpecKey n nv \<mapsto> b, activeKey n \<mapsto> FormatUint nv)" using assms(1) by (auto simp: committed_def)
  have "fs_Name sp' = n'" if "plain n'" "spec_of pc m' n' v = Some sp'" for n' v sp'
    using that assms(2,4,5) spec_roundtrip [OF b] by (auto simp: m' spec_of_commit named_def split: if_splits)
  moreover have "\<exists>n. plain n \<and> k = activeKey n" if "prefix rootPrefix k" "HasSuffix k ''/active''" "m' k \<noteq> None" for k
    using that assms(3,4) by (auto simp: m' plain_pointers_def split: if_splits)
  ultimately show ?thesis by (auto simp: named_def plain_pointers_def)
qed

lemma api_step_store_inv:
  assumes "api_step cli pc s a t" "action_plain a" "store_inv pc kvs s"
  shows "store_inv pc kvs t"
proof -
  let ?m = "kvs (as_world s)" and ?m' = "kvs (as_world t)"
  have p: "named pc ?m" "plain_pointers ?m" and
    r: "\<And>i n sp resp. as_read s i = Some (n, sp, resp) \<Longrightarrow> plain n \<and> fs_Name sp = n" "\<And>i n v. as_check s i = Some (n, v) \<Longrightarrow> plain n"
    using assms(3) unfolding store_inv_def by blast+
  from assms(1) have "named pc ?m' \<and> plain_pointers ?m'"
  proof (cases rule: api_step_cases)
    case (status n b st)
    then show ?thesis using p by (auto simp: named_def plain_pointers_def spec_of_def)
  next
    case (commit i n sp resp nv)
    then show ?thesis using commit_named [OF commit(1) p] r(1) [OF commit(4)] by simp
  next
    case (rollback i n v)
    then show ?thesis using p r(2) [OF rollback(2)] by (auto simp: named_def plain_pointers_def spec_of_def)
  next
    case (delete n)
    then show ?thesis using p by (auto simp: named_def plain_pointers_def spec_of_def delete_prefix_def split: option.splits if_splits)
  qed (use p in auto)
  then show ?thesis using requests_plain [OF assms(1,2) r] by (simp add: store_inv_def)
qed

end

section \<open>The invariant\<close>

text \<open>
  A flow is waiting when something in the system will still lead to a read of its active spec: it waits in the queue, an event of its
  pointer is on its way, a worker has taken it and has not read its pointer yet, or a worker has read what is still its pointer, or
  what is still its active spec. A flow is settled when the cluster has what its active spec asks for.
\<close>

definition waiting :: "proto_codec \<Rightarrow> ('w \<Rightarrow> keyspace) \<Rightarrow> ('q \<Rightarrow> string set) \<Rightarrow> ('q, 'w) sys \<Rightarrow> string \<Rightarrow> bool" where
  "waiting pc kvs pend s n \<longleftrightarrow> n \<in> pend (mq_q (sy_queue s))
     \<or> (\<exists>ev\<in>set (sy_stream s). ev_key ev = Some (activeKey n) \<and> eventType_of ev \<noteq> None)
     \<or> (\<exists>i. sy_busy s i = Some (n, Taken))
     \<or> (\<exists>i v. sy_busy s i = Some (n, Pointed v) \<and> active_of (kvs (sy_world s)) n = Some v)
     \<or> (\<exists>i a. sy_busy s i = Some (n, Held a) \<and> active_view pc (kvs (sy_world s)) n a)"

definition idle :: "('q, 'w) sys \<Rightarrow> string \<Rightarrow> bool" where
  "idle s n \<longleftrightarrow> (\<forall>i x. sy_busy s i \<noteq> Some (n, x))"

text \<open>The queue and the workers of the system are the machine of \<open>Ctl_Queue\<close>.\<close>

definition held :: "(nat \<Rightarrow> (string \<times> 'a) option) \<Rightarrow> nat \<Rightarrow> string option" where
  "held b i = map_option fst (b i)"

definition workers_of :: "('q \<Rightarrow> string set) \<Rightarrow> ('q, 'w) sys \<Rightarrow> 'q workers" where
  "workers_of pend s = \<lparr>wk_queue = sy_queue s, wk_holds = held (sy_busy s), wk_owed = pend (mq_q (sy_queue s))\<rparr>"

lemma sys_world_simps [simp]:
  "sy_world (set_world w s) = w" "sy_queue (set_world w s) = sy_queue s" "sy_stream (set_world w s) = sy_stream s"
  "sy_busy (set_world w s) = sy_busy s" "sy_api (set_world w s) = (sy_api s)\<lparr>as_world := w\<rparr>"
  "sy_world (s\<lparr>sy_queue := q\<rparr>) = sy_world s" "sy_world (s\<lparr>sy_stream := evs\<rparr>) = sy_world s"
  "sy_world (s\<lparr>sy_busy := b\<rparr>) = sy_world s"
  by (simp_all add: set_world_def)

lemma held_upd [simp]: "held (b(i := None)) = (held b)(i := None)" "held (b(i \<mapsto> (k, x))) = (held b)(i \<mapsto> k)"
  by (auto simp: held_def)

lemma held_same [simp]: "b i = Some (k, y) \<Longrightarrow> (held b)(i \<mapsto> k) = held b"
  by (auto simp: held_def)

lemma held_iff: "held b i = Some k \<longleftrightarrow> (\<exists>x. b i = Some (k, x))" "held b i = None \<longleftrightarrow> b i = None"
  by (auto simp: held_def)

lemma queue_inv_owed:
  "queue_inv pend processing down ((workers_of pend s)\<lparr>wk_owed := x\<rparr>) \<Longrightarrow> queue_inv pend processing down (workers_of pend s)"
  by (simp add: queue_inv_def workers_of_def)

context control_system
begin

text \<open>Every step of the system is a step of the queue machine, or leaves it alone.\<close>

lemma queue_finish:
  assumes "sy_busy s i = Some (k, x)" "sy_queue t = finish_turn ops now k e (sy_queue s)" "sy_busy t = (sy_busy s)(i := None)"
  shows "\<exists>x. queue_step ops (workers_of pending s) ((workers_of pending t)\<lparr>wk_owed := x\<rparr>)"
proof (cases e)
  case None
  have "queue_step ops (workers_of pending s) ((workers_of pending s)\<lparr>wk_queue := MQ_Forget ops k (wk_queue (workers_of pending s)),
      wk_holds := (wk_holds (workers_of pending s))(i := None)\<rparr>)"
    by (rule queue_step.succeed) (use assms(1) in \<open>simp_all add: workers_of_def held_iff\<close>)
  then show ?thesis using assms(2,3) None by (auto simp: workers_of_def finish_turn_def)
next
  case (Some y)
  have "queue_step ops (workers_of pending s) ((workers_of pending s)\<lparr>wk_queue := MQ_Retry ops now k (wk_queue (workers_of pending s)),
      wk_holds := (wk_holds (workers_of pending s))(i := None), wk_owed := insert k (wk_owed (workers_of pending s))\<rparr>)"
    by (rule queue_step.fail) (use assms(1) in \<open>simp_all add: workers_of_def held_iff\<close>)
  then show ?thesis using assms(2,3) Some by (auto simp: workers_of_def finish_turn_def)
qed

lemma sys_step_queue:
  assumes "sys_step ops c kvs s a t"
  shows "workers_of pending t = workers_of pending s \<or> (\<exists>x. queue_step ops (workers_of pending s) ((workers_of pending t)\<lparr>wk_owed := x\<rparr>))"
  using assms
proof (cases rule: sys_step.cases)
  case (deliver ev rest e w' now)
  show ?thesis
  proof (cases "we_Flow e")
    case (Some f)
    then have q: "sy_queue t = MQ_Add ops now (fl_Name f) (sy_queue s)" using deliver(2) by (simp split: WatchEventType.splits)
    have "queue_step ops (workers_of pending s) ((workers_of pending s)\<lparr>wk_queue := MQ_Add ops now (fl_Name f) (wk_queue (workers_of pending s)),
        wk_owed := insert (fl_Name f) (wk_owed (workers_of pending s))\<rparr>)" by (rule queue_step.announce)
    then show ?thesis using q deliver(2) by (auto simp: workers_of_def)
  qed (use deliver(2) in \<open>simp add: workers_of_def\<close>)
next
  case (take i now k lag m)
  have "queue_step ops (workers_of pending s) ((workers_of pending s)\<lparr>wk_queue := m,
      wk_holds := (wk_holds (workers_of pending s))(i \<mapsto> k), wk_owed := wk_owed (workers_of pending s) - {k}\<rparr>)"
    by (rule queue_step.take) (use take in \<open>simp_all add: workers_of_def held_iff\<close>)
  then show ?thesis using take(2) by (auto simp: workers_of_def)
next
  case (point_failed i k e w' now)
  then show ?thesis using queue_finish [OF point_failed(3), of t now "Some (RecStore e)"] by simp
next
  case (fetch_failed i k v e w' now)
  then show ?thesis using queue_finish [OF fetch_failed(3), of t now "Some (RecStore e)"] by simp
next
  case (finish i k a now e w' evs)
  then show ?thesis using queue_finish [OF finish(3), of t now e] by simp
qed (auto simp: workers_of_def)

text \<open>The shape of the system that the argument rests on: who holds which key, and whose names they are.\<close>

definition shape :: "('q, 'w) sys \<Rightarrow> bool" where
  "shape s \<longleftrightarrow> queue_inv pending processing down (workers_of pending s) \<and> store_inv pc kvs (sy_api s)
     \<and> (\<forall>n\<in>pending (mq_q (sy_queue s)). plain n)
     \<and> (\<forall>ev\<in>set (sy_stream s). \<forall>k. ev_key ev = Some k \<and> HasSuffix k ''/active'' \<longrightarrow> (\<exists>n. plain n \<and> k = activeKey n))
     \<and> (\<forall>i k x. sy_busy s i = Some (k, x) \<longrightarrow> plain k \<and> (\<forall>sp v. x = Held (Some sp, v) \<longrightarrow> fs_Name sp = k))"

lemma shapeD:
  assumes "shape s"
  shows "queue_inv pending processing down (workers_of pending s)" "store_inv pc kvs (sy_api s)" "\<not> down (mq_q (sy_queue s))"
    "named pc (kvs (sy_world s))" "plain_pointers (kvs (sy_world s))"
    "n \<in> pending (mq_q (sy_queue s)) \<Longrightarrow> plain n"
    "ev \<in> set (sy_stream s) \<Longrightarrow> ev_key ev = Some k \<Longrightarrow> HasSuffix k ''/active'' \<Longrightarrow> \<exists>n. plain n \<and> k = activeKey n"
    "sy_busy s i = Some (k', x) \<Longrightarrow> plain k'"
    "sy_busy s i = Some (k', Held (Some sp, v)) \<Longrightarrow> fs_Name sp = k'"
    "sy_busy s i = Some (k', x) \<Longrightarrow> sy_busy s j = Some (k', y) \<Longrightarrow> i = j"
  using assms unfolding shape_def store_inv_def queue_inv_def workers_of_def by (auto simp: held_iff)

lemma active_view_name:
  assumes "named pc m" "plain n" "active_view pc m n a" "fst a = Some sp"
  shows "fs_Name sp = n"
  using assms by (cases a) (auto simp: active_view_def named_def split: option.splits)

lemma reports_pointer:
  assumes "reports evs m m'" "plain_pointers m" "plain_pointers m'" "ev \<in> set evs" "ev_key ev = Some k" "HasSuffix k ''/active''"
  shows "\<exists>n. plain n \<and> k = activeKey n"
proof -
  have "prefix rootPrefix k" "m k \<noteq> None \<or> m' k \<noteq> None"
    using assms(1,4,5) by (auto simp: reports_def dest!: bspec append_prefixD)
  then show ?thesis using assms(2,3,6) by (auto simp: plain_pointers_def)
qed

lemma watch_event:
  assumes "buildWatchEvent (GetActiveFlow cli pc) (Some ev) w = (r, w')"
  shows "kvs w' = kvs w \<and> view w' = view w
    \<and> (\<forall>e. r = Some e \<longrightarrow> (\<exists>k f. ev_key ev = Some k \<and> HasSuffix k ''/active'' \<and> we_Flow e = Some f \<and> fl_Name f = path_Base (path_Dir k)))"
  using assms
  by (auto simp: buildWatchEvent_def Let_def ev_key_def split: option.splits if_splits prod.splits sum.splits
      dest: GetActiveFlow_pure GetActiveFlow_keeps)

lemma store_inv_world:
  assumes "store_inv pc kvs r" "kvs w' = kvs (as_world r) \<or> (\<exists>b. kvs w' = (kvs (as_world r))(statusKey n \<mapsto> b))"
  shows "store_inv pc kvs (r\<lparr>as_world := w'\<rparr>)"
  using assms by (auto simp: store_inv_def named_def plain_pointers_def spec_of_def split: if_splits)

text \<open>What the steps of the controller change: the half of the world they do not own stays, and so do the other flows.\<close>

lemma runs_sels [simp]: "c_cli c = cli" "c_pc c = pc"
  using runs by (simp_all add: runs_on_def)

lemma reads_keep: "readActive cli n w = (p, w') \<Longrightarrow> view w' = view w" "readSpec cli pc n v w = (r, w') \<Longrightarrow> view w' = view w"
  by (auto simp: readActive_def readSpec_def split: prod.splits sum.splits list.splits option.splits dest!: Get_keeps)

lemma rest_effect:
  assumes "shape s" "sy_busy s i = Some (k, Held a)" "reconcile_rest c now k a (sy_world s) = (e, w')"
  shows "\<And>n. n \<noteq> k \<Longrightarrow> x \<in> runtime_keys (c_runtimeNamespace c) n \<Longrightarrow> view w' x = view (sy_world s) x"
    and "kvs w' = kvs (sy_world s) \<or> (\<exists>b. kvs w' = (kvs (sy_world s))(statusKey k \<mapsto> b))"
    and "e = None \<Longrightarrow> deployed fill_dp fill_ds fill_jb fill_cj c (\<lambda>ob. view (sy_world s) (job_key c k) = Some ob) k (fst a) (view w')"
    and "view w' (job_key c k) = Some ob \<Longrightarrow> view (sy_world s) (job_key c k) = Some ob
      \<or> (\<exists>sp. fst a = Some sp \<and> workload_kind sp = JobKind \<and> made_for fill_dp fill_ds fill_jb fill_cj c sp ob)"
proof -
  have k: "k \<noteq> []" using shapeD(8) [OF assms(1,2)] by (auto simp: plain_def)
  have nm: "fs_Name sp = k" if "fst a = Some sp" for sp using that assms(2) shapeD(9) [OF assms(1)] by (cases a) auto
  note r = reconcile_rest_cases [OF assms(3) runs k nm]
  show "\<And>n. n \<noteq> k \<Longrightarrow> x \<in> runtime_keys (c_runtimeNamespace c) n \<Longrightarrow> view w' x = view (sy_world s) x"
    using r runtime_keys_disjoint [of _ k "c_runtimeNamespace c"] by blast
  show "kvs w' = kvs (sy_world s) \<or> (\<exists>b. kvs w' = (kvs (sy_world s))(statusKey k \<mapsto> b))"
    and "e = None \<Longrightarrow> deployed fill_dp fill_ds fill_jb fill_cj c (\<lambda>ob. view (sy_world s) (job_key c k) = Some ob) k (fst a) (view w')"
    and "view w' (job_key c k) = Some ob \<Longrightarrow> view (sy_world s) (job_key c k) = Some ob
      \<or> (\<exists>sp. fst a = Some sp \<and> workload_kind sp = JobKind \<and> made_for fill_dp fill_ds fill_jb fill_cj c sp ob)" using r by blast+
qed

lemma sys_step_pending:
  assumes "sys_step ops c kvs s a t" "shape s" "n \<in> pending (mq_q (sy_queue t))"
  shows "plain n"
  using assms(1)
proof (cases rule: sys_step.cases)
  case (deliver ev rest e w' now)
  obtain k f where k: "ev_key ev = Some k" "HasSuffix k ''/active''" "we_Flow e = Some f" "fl_Name f = path_Base (path_Dir k)"
    using watch_event [of ev "sy_world s" "Some e" w'] deliver(4) by auto
  then obtain n' where "plain n'" "k = activeKey n'" using shapeD(7) [OF assms(2), of ev k] deliver(3) by auto
  then show ?thesis
    using assms(3) deliver(2) k(3,4) shapeD(3,6) [OF assms(2)] runWatch_view [of now "[e]" "sy_queue s"] by auto
next
  case (take i now k lag m)
  then show ?thesis using assms(3) MQ_Get_key(4) [OF take(4)] shapeD(6) [OF assms(2)] by auto
next
  case (point_failed i k e w' now)
  then show ?thesis using assms(3) shapeD(3,6,8) [OF assms(2)] finish_turn_view(1) [of now k "Some (RecStore e)" "sy_queue s"] by auto
next
  case (fetch_failed i k v e w' now)
  then show ?thesis using assms(3) shapeD(3,6,8) [OF assms(2)] finish_turn_view(1) [of now k "Some (RecStore e)" "sy_queue s"] by auto
next
  case (finish i k a now e w' evs)
  then show ?thesis using assms(3) shapeD(3,6,8) [OF assms(2)] finish_turn_view(1) [of now k e "sy_queue s"] by (auto split: if_splits)
qed (use assms(3) shapeD(6) [OF assms(2)] in auto)

lemma sys_step_busy:
  assumes "sys_step ops c kvs s a t" "shape s" "sy_busy t i = Some (k, x)"
  shows "plain k \<and> (\<forall>sp v. x = Held (Some sp, v) \<longrightarrow> fs_Name sp = k)"
  using assms(1)
proof (cases rule: sys_step.cases)
  case (take j now k' lag m)
  then show ?thesis using assms(3) MQ_Get_key(1) [OF take(4)] shapeD(6,8,9) [OF assms(2)] by (auto split: if_splits)
next
  case (fetch j k' v a w')
  then have g: "readSpec cli pc k' v (sy_world s) = (Inr (fst a, snd a), w')" by simp
  have "fs_Name sp = k'" if "fst a = Some sp" for sp
    using readSpec_view [OF g] that shapeD(4,8) [OF assms(2)] fetch(3) by (auto simp: named_def)
  then show ?thesis using assms(3) fetch(2,3) shapeD(8,9) [OF assms(2)] by (auto split: if_splits)
qed (use assms(3) shapeD(8,9) [OF assms(2)] in \<open>auto split: if_splits\<close>)

lemma sys_step_shape:
  assumes "sys_step ops c kvs s a t" "shape s" "\<And>x. a = Api x \<Longrightarrow> action_plain x"
  shows "shape t"
proof -
  note sh = shapeD [OF assms(2)]
  have q: "queue_inv pending processing down (workers_of pending t)"
    using sys_step_queue [OF assms(1)]
  proof (elim disjE exE)
    fix x assume "queue_step ops (workers_of pending s) ((workers_of pending t)\<lparr>wk_owed := x\<rparr>)"
    then show ?thesis by (rule queue_inv_owed [OF queue_step_inv [OF _ sh(1)]])
  qed (simp only: sh(1))
  have st: "store_inv pc kvs (sy_api t)"
    using assms(1)
  proof (cases rule: sys_step.cases)
    case (sys_api a' r evs)
    then show ?thesis using api_step_store_inv [OF _ _ sh(2)] assms(3) by simp
  next
    case (finish i k a' now e w' evs)
    then show ?thesis using store_inv_world [OF sh(2) rest_effect(2) [OF assms(2) finish(3,4)]] by simp
  qed (use sh(2) watch_event readActive_pure readSpec_pure in \<open>auto intro!: store_inv_world\<close>)
  have pp: "plain_pointers (kvs (sy_world t))" using st by (simp add: store_inv_def)
  have "\<exists>n. plain n \<and> k = activeKey n" if "ev \<in> set (sy_stream t)" "ev_key ev = Some k" "HasSuffix k ''/active''" for ev k
    using assms(1) that sh(7) reports_pointer [OF _ sh(5) pp] by (cases rule: sys_step.cases) auto
  then show ?thesis unfolding shape_def using q st sys_step_pending [OF assms(1,2)] sys_step_busy [OF assms(1,2)] by blast
qed

lemma sys_run_shape:
  assumes "sys_run ops c kvs s as t" "shape s" "\<forall>a\<in>set as. \<forall>x. a = Api x \<longrightarrow> action_plain x"
  shows "shape t"
  using assms
proof (induction rule: sys_run.induct)
  case (sys_more s as t a u)
  then have "shape t" "\<And>x. a = Api x \<Longrightarrow> action_plain x" by auto
  then show ?case by (rule sys_step_shape [OF sys_more.hyps(2)])
qed simp

end

section \<open>Who cares for a flow\<close>

text \<open>
  The jobs a flow may be left with: the one that was there at first, and those made for a spec that \<open>had\<close> tells the flow has had.
\<close>

definition kept_job ::
  "(DeploymentSpec \<Rightarrow> DeploymentSpec \<Rightarrow> bool) \<Rightarrow> (DaemonSetSpec \<Rightarrow> DaemonSetSpec \<Rightarrow> bool) \<Rightarrow> (JobSpec \<Rightarrow> JobSpec \<Rightarrow> bool)
     \<Rightarrow> (CronJobSpec \<Rightarrow> CronJobSpec \<Rightarrow> bool) \<Rightarrow> 'w Controller \<Rightarrow> (string \<Rightarrow> FlowSpec \<Rightarrow> bool) \<Rightarrow> cluster \<Rightarrow> string \<Rightarrow> kobj \<Rightarrow> bool" where
  "kept_job fill_dp fill_ds fill_jb fill_cj c had first n ob \<longleftrightarrow> first (job_key c n) = Some ob
     \<or> (\<exists>sp. had n sp \<and> workload_kind sp = JobKind \<and> made_for fill_dp fill_ds fill_jb fill_cj c sp ob)"

context control_system
begin

abbreviation keeps :: "(string \<Rightarrow> FlowSpec \<Rightarrow> bool) \<Rightarrow> cluster \<Rightarrow> string \<Rightarrow> kobj \<Rightarrow> bool" where
  "keeps had first \<equiv> kept_job fill_dp fill_ds fill_jb fill_cj c had first"

abbreviation deploys :: "(kobj \<Rightarrow> bool) \<Rightarrow> string \<Rightarrow> FlowSpec option \<Rightarrow> cluster \<Rightarrow> bool" where
  "deploys \<equiv> deployed fill_dp fill_ds fill_jb fill_cj c"

definition jobs_inv :: "(string \<Rightarrow> FlowSpec \<Rightarrow> bool) \<Rightarrow> cluster \<Rightarrow> ('q, 'w) sys \<Rightarrow> bool" where
  "jobs_inv had first s \<longleftrightarrow> (\<forall>n ob. plain n \<and> view (sy_world s) (job_key c n) = Some ob \<longrightarrow> keeps had first n ob)
     \<and> (\<forall>i n sp v. sy_busy s i = Some (n, Held (Some sp, v)) \<longrightarrow> had n sp)"

lemma jobs_invD:
  assumes "jobs_inv had first s"
  shows "plain n \<Longrightarrow> view (sy_world s) (job_key c n) = Some ob \<Longrightarrow> keeps had first n ob"
    and "sy_busy s i = Some (n, Held a) \<Longrightarrow> fst a = Some sp \<Longrightarrow> had n sp"
  using assms unfolding jobs_inv_def by (blast, metis prod.collapse)

definition settled :: "(string \<Rightarrow> FlowSpec \<Rightarrow> bool) \<Rightarrow> cluster \<Rightarrow> ('q, 'w) sys \<Rightarrow> string \<Rightarrow> bool" where
  "settled had first s n \<longleftrightarrow>
     (\<exists>a. active_view pc (kvs (sy_world s)) n a \<and> deploys (keeps had first n) n (fst a) (view (sy_world s)))"

definition cared :: "(string \<Rightarrow> FlowSpec \<Rightarrow> bool) \<Rightarrow> cluster \<Rightarrow> ('q, 'w) sys \<Rightarrow> string \<Rightarrow> bool" where
  "cared had first s n \<longleftrightarrow> waiting pc kvs pending s n \<or> settled had first s n \<and> idle s n"

lemma kept_job_mono: "keeps had first n ob \<Longrightarrow> (\<And>sp. had n sp \<Longrightarrow> had' n sp) \<Longrightarrow> keeps had' first n ob"
  unfolding kept_job_def by blast

lemma cared_mono:
  assumes "cared had first s n" "\<And>sp. had n sp \<Longrightarrow> had' n sp"
  shows "cared had' first s n"
proof -
  have k: "keeps had first n ob \<Longrightarrow> keeps had' first n ob" for ob using kept_job_mono assms(2) by blast
  have "settled had' first s n" if st: "settled had first s n"
  proof -
    obtain a where a: "active_view pc (kvs (sy_world s)) n a" "deploys (keeps had first n) n (fst a) (view (sy_world s))"
      using st by (auto simp: settled_def)
    have "deploys (keeps had' first n) n (fst a) (view (sy_world s))" by (rule deployed_mono [OF a(2)]) (rule k)
    then show ?thesis using a(1) unfolding settled_def by blast
  qed
  then show ?thesis using assms(1) unfolding cared_def by blast
qed

lemma jobs_inv_mono:
  assumes "jobs_inv had first s" "\<And>n sp. had n sp \<Longrightarrow> had' n sp"
  shows "jobs_inv had' first s"
proof -
  have "keeps had first n ob \<Longrightarrow> keeps had' first n ob" for n ob using kept_job_mono assms(2) by blast
  then show ?thesis using assms unfolding jobs_inv_def by blast
qed

text \<open>The jobs in the cluster are accounted for after every step.\<close>

lemma job_key_in: "job_key c n \<in> runtime_keys (c_runtimeNamespace c) n"
  by (simp add: runtime_keys_def)

lemma jobs_inv_frame:
  assumes "jobs_inv had first s" "view (sy_world t) = view (sy_world s)"
    and "\<And>i n sp v. sy_busy t i = Some (n, Held (Some sp, v)) \<Longrightarrow> sy_busy s i = Some (n, Held (Some sp, v)) \<or> had n sp"
  shows "jobs_inv had first t"
  using assms unfolding jobs_inv_def by metis

lemma sys_step_jobs:
  assumes "sys_step ops c kvs s a t" "shape s" "jobs_inv had first s"
    and had: "\<And>n v sp. spec_of pc (kvs (sy_world s)) n v = Some sp \<Longrightarrow> had n sp"
  shows "jobs_inv had first t"
  using assms(1)
proof (cases rule: sys_step.cases)
  case (sys_api a' r evs)
  then show ?thesis using api_step_view by (intro jobs_inv_frame [OF assms(3)]) auto
next
  case (deliver ev rest e w' now)
  then show ?thesis using watch_event [of ev "sy_world s" "Some e" w'] by (intro jobs_inv_frame [OF assms(3)]) auto
next
  case (skip ev rest w')
  then show ?thesis using watch_event [of ev "sy_world s" None w'] by (intro jobs_inv_frame [OF assms(3)]) auto
next
  case (fetch i k v a' w')
  then have g: "readSpec cli pc k v (sy_world s) = (Inr (fst a', snd a'), w')" by simp
  have "had k sp" if "fst a' = Some sp" for sp using readSpec_view [OF g] that had by metis
  then show ?thesis using fetch reads_keep(2) [OF g] by (intro jobs_inv_frame [OF assms(3)]) (auto split: if_splits)
next
  case (finish i k a' now e w' evs)
  note r = rest_effect [OF assms(2) finish(3,4)]
  have "keeps had first n ob" if "plain n" "view w' (job_key c n) = Some ob" for n ob
  proof (cases "n = k")
    case True
    from r(4) [of ob] that(2) True have "view (sy_world s) (job_key c k) = Some ob
        \<or> (\<exists>sp. fst a' = Some sp \<and> workload_kind sp = JobKind \<and> made_for fill_dp fill_ds fill_jb fill_cj c sp ob)" by simp
    then show ?thesis
    proof
      assume "view (sy_world s) (job_key c k) = Some ob"
      then show ?thesis using jobs_invD(1) [OF assms(3)] that(1) True by blast
    next
      assume "\<exists>sp. fst a' = Some sp \<and> workload_kind sp = JobKind \<and> made_for fill_dp fill_ds fill_jb fill_cj c sp ob"
      then show ?thesis using jobs_invD(2) [OF assms(3) finish(3)] True unfolding kept_job_def by blast
    qed
  next
    case False
    then show ?thesis using r(1) [OF False job_key_in] that jobs_invD(1) [OF assms(3)] by simp
  qed
  then show ?thesis using finish(2) assms(3) unfolding jobs_inv_def by (auto split: if_splits)
qed (use reads_keep in \<open>auto intro!: jobs_inv_frame [OF assms(3)] split: if_splits\<close>)

text \<open>Who cares for a flow that a step is not about.\<close>

lemma cared_frame:
  assumes "cared had first s n" "plain n" "named pc (kvs (sy_world s))"
    and kv: "announced pc (kvs (sy_world s)) (kvs (sy_world t))" "reports evs (kvs (sy_world s)) (kvs (sy_world t))"
    and cl: "\<And>x. x \<in> runtime_keys (c_runtimeNamespace c) n \<Longrightarrow> view (sy_world t) x = view (sy_world s) x"
    and pend: "n \<in> pending (mq_q (sy_queue s)) \<Longrightarrow> n \<in> pending (mq_q (sy_queue t))"
    and evs: "\<And>ev. ev \<in> set (sy_stream s @ evs) \<Longrightarrow> ev_key ev = Some (activeKey n) \<Longrightarrow> eventType_of ev \<noteq> None \<Longrightarrow>
        ev \<in> set (sy_stream t) \<or> n \<in> pending (mq_q (sy_queue t))"
    and busy: "\<And>i x. sy_busy t i = Some (n, x) \<longleftrightarrow> sy_busy s i = Some (n, x)"
  shows "cared had first t n"
proof (cases "kvs (sy_world t) (activeKey n) = kvs (sy_world s) (activeKey n)")
  case True
  note same = announcedD [OF kv(1) assms(2) True]
  have act: "active_of (kvs (sy_world t)) n = active_of (kvs (sy_world s)) n" by (simp add: active_of_def True)
  have "settled had first t n" if st: "settled had first s n"
  proof -
    obtain a where a: "active_view pc (kvs (sy_world s)) n a" "deploys (keeps had first n) n (fst a) (view (sy_world s))"
      using st by (auto simp: settled_def)
    then have "deploys (keeps had first n) n (fst a) (view (sy_world t))"
      using deployed_cong [of c n "view (sy_world t)" "view (sy_world s)", OF cl] active_view_name [OF assms(3,2) a(1)] by blast
    then show ?thesis using a(1) unfolding settled_def same by blast
  qed
  moreover have "waiting pc kvs pending t n" if "waiting pc kvs pending s n"
    using that pend evs busy unfolding waiting_def same act by (metis UnI1 set_append)
  ultimately show ?thesis using assms(1) busy unfolding cared_def idle_def by blast
next
  case False
  then obtain ev where "ev \<in> set evs" "ev_key ev = Some (activeKey n)" "eventType_of ev \<noteq> None"
    using kv(2) activeKey_root [OF assms(2)] by (auto simp: reports_def)
  then show ?thesis using evs by (auto simp: cared_def waiting_def)
qed

lemma reports_none [simp]: "reports [] m m"
  by (simp add: reports_def)

lemma announced_refl [simp]: "announced pc m m"
  by (rule announced_same) simp

lemma pending_cared: "n \<in> pending (mq_q (sy_queue t)) \<Longrightarrow> cared had first t n"
  by (auto simp: cared_def waiting_def)

lemma failed_cared:
  assumes "shape s" "sy_queue t = finish_turn ops now k (Some e) (sy_queue s)"
  shows "cared had first t k"
  by (rule pending_cared) (use finish_turn_view(1) [of now k "Some e" "sy_queue s"] shapeD(3) [OF assms(1)] assms(2) in auto)

text \<open>A flow that is cared for while a worker holds what is no longer its pointer or its spec waits elsewhere.\<close>

lemma cared_elsewhere:
  assumes "shape s" "cared had first s k" "sy_busy s i = Some (k, x)" "x \<noteq> Taken"
    and "\<And>v. x = Pointed v \<Longrightarrow> active_of (kvs (sy_world s)) k \<noteq> Some v" "\<And>a. x = Held a \<Longrightarrow> \<not> active_view pc (kvs (sy_world s)) k a"
  shows "k \<in> pending (mq_q (sy_queue s)) \<or> (\<exists>ev\<in>set (sy_stream s). ev_key ev = Some (activeKey k) \<and> eventType_of ev \<noteq> None)"
proof -
  have one: "y = x" if "sy_busy s j = Some (k, y)" for j y using that assms(3) shapeD(10) [OF assms(1) assms(3) that] by simp
  have "\<not> idle s k" using assms(3) by (auto simp: idle_def)
  then have "waiting pc kvs pending s k" using assms(2) by (simp add: cared_def)
  then show ?thesis unfolding waiting_def using assms(4-6) one by metis
qed

text \<open>Every step keeps every flow cared for.\<close>

lemma finish_cared:
  assumes "shape s" "jobs_inv had first s" "plain n" "cared had first s n" "sy_busy s i = Some (k, Held a)"
    and "reconcile_rest c now k a (sy_world s) = (e, w')" "reports evs (kvs (sy_world s)) (kvs w')"
    and t: "sy_world t = w'" "sy_stream t = sy_stream s @ evs" "sy_busy t = (sy_busy s)(i := None)"
      "sy_queue t = finish_turn ops now k e (sy_queue s)"
  shows "cared had first t n"
proof -
  note sh = shapeD [OF assms(1)] and r = rest_effect [OF assms(1,5,6)] and q = finish_turn_view(1) [of now k e "sy_queue s"]
  have ann: "announced pc (kvs (sy_world s)) (kvs w')" using r(2) announced_same by blast
  consider "n \<noteq> k" | "n = k" "e \<noteq> None" | "n = k" "e = None" "active_view pc (kvs (sy_world s)) k a"
    | "n = k" "e = None" "\<not> active_view pc (kvs (sy_world s)) k a" by blast
  then show ?thesis
  proof cases
    case 1
    then show ?thesis
      using assms(5,7) t ann r(1) q by (intro cared_frame [OF assms(4,3) sh(4), of t evs]) (auto split: if_splits)
  next
    case 2
    then show ?thesis using t(4) failed_cared [OF assms(1)] by blast
  next
    case 3
    have "active_view pc (kvs w') k a" using announcedD [OF ann sh(8) [OF assms(5)]] r(2) 3 by (cases a) auto
    moreover have "deploys (keeps had first k) k (fst a) (view w')"
      using r(3) [OF 3(2)] jobs_invD(1) [OF assms(2) sh(8) [OF assms(5)]] by (blast intro: deployed_mono)
    ultimately have "settled had first t k" using t(1) unfolding settled_def by blast
    moreover have "idle t k" using t(3) sh(10) [OF assms(5)] by (auto simp: idle_def)
    ultimately show ?thesis by (simp add: cared_def 3)
  next
    case 4
    have "k \<in> pending (mq_q (sy_queue s)) \<or> (\<exists>ev\<in>set (sy_stream s). ev_key ev = Some (activeKey k) \<and> eventType_of ev \<noteq> None)"
      using 4 assms(4) by (intro cared_elsewhere [OF assms(1) _ assms(5)]) auto
    then show ?thesis using 4 t q by (auto simp: cared_def waiting_def)
  qed
qed

lemma fetch_cared:
  assumes "shape s" "cared had first s k" "sy_busy s i = Some (k, Pointed v)" "readSpec cli pc k v (sy_world s) = (Inr a, w')"
    and t: "sy_world t = w'" "sy_stream t = sy_stream s" "sy_busy t = (sy_busy s)(i \<mapsto> (k, Held a))" "sy_queue t = sy_queue s"
  shows "cared had first t k"
proof (cases "active_of (kvs (sy_world s)) k = Some v")
  case True
  have "kvs (sy_world s) (activeKey k) \<noteq> None" using True by (auto simp: active_of_def split: option.splits)
  then have "active_view pc (kvs w') k a"
    using True readSpec_view [of k v "sy_world s" "fst a" "snd a" w'] assms(4) readSpec_pure [OF assms(4)]
    by (cases a) (auto simp: active_view_def split: option.splits)
  moreover have "sy_busy t i = Some (k, Held a)" using t(3) by simp
  ultimately show ?thesis using t(1) unfolding cared_def waiting_def by blast
next
  case False
  then show ?thesis using cared_elsewhere [OF assms(1-3)] t by (auto simp: cared_def waiting_def)
qed

lemma sys_step_cared:
  assumes "sys_step ops c kvs s a t" "shape s" "jobs_inv had first s" "\<And>x. a = Api x \<Longrightarrow> action_plain x" "\<not> loses n a" "plain n"
    and "cared had first s n"
  shows "cared had first t n"
proof -
  note sh = shapeD [OF assms(2)] and frame = cared_frame [OF assms(7,6) shapeD(4) [OF assms(2)]]
  from assms(1) show ?thesis
  proof (cases rule: sys_step.cases)
    case (sys_api a' r evs)
    then have "api_step cli pc (sy_api s) a' r" "action_plain a'" using assms(4) by simp_all
    then show ?thesis using sys_api(2,4) api_step_announced api_step_view by (intro frame [of t evs]) auto
  next
    case (deliver ev rest e w' now)
    note we = watch_event [of ev "sy_world s" "Some e" w']
    obtain k f where k: "ev_key ev = Some k" "we_Flow e = Some f" "fl_Name f = path_Base (path_Dir k)" using we deliver(4) by auto
    show ?thesis
      by (rule frame [of t "[]"]) (use deliver we k assms(6) sh(3) runWatch_view [of now "[e]" "sy_queue s"] in auto)
  next
    case (skip ev rest w')
    then show ?thesis using watch_event [of ev "sy_world s" None w'] assms(5) by (intro frame [of t "[]"]) (auto simp: loses_def)
  next
    case (take i now k lag m)
    show ?thesis
    proof (cases "n = k")
      case False
      then show ?thesis using take MQ_Get_key(3) [OF take(4)] by (intro frame [of t "[]"]) auto
    qed (use take in \<open>auto simp: cared_def waiting_def\<close>)
  next
    case (point i k v w')
    then have g: "readActive cli k (sy_world s) = (Inr (Some v), w')" by simp
    show ?thesis
    proof (cases "n = k")
      case True
      then show ?thesis using point(2) readActive_view [OF g] readActive_pure [OF g] by (auto simp: cared_def waiting_def)
    qed (use point(2,3) readActive_pure [OF g] reads_keep(1) [OF g] in \<open>intro frame [of t "[]"]; auto\<close>)
  next
    case (no_pointer i k w')
    then have g: "readActive cli k (sy_world s) = (Inr None, w')" by simp
    show ?thesis
    proof (cases "n = k")
      case True
      then show ?thesis
        using no_pointer(2) readActive_view [OF g] readActive_pure [OF g] by (auto simp: cared_def waiting_def active_view_def)
    qed (use no_pointer(2,3) readActive_pure [OF g] reads_keep(1) [OF g] in \<open>intro frame [of t "[]"]; auto\<close>)
  next
    case (point_failed i k e w' now)
    then have g: "readActive cli k (sy_world s) = (Inl e, w')" by simp
    show ?thesis
    proof (cases "n = k")
      case False
      then show ?thesis
        using point_failed readActive_pure [OF g] reads_keep(1) [OF g] finish_turn_view(1) [of now k "Some (RecStore e)" "sy_queue s"]
        by (intro frame [of t "[]"]) auto
    qed (use point_failed(2) failed_cared [OF assms(2), of t now k "RecStore e"] in simp)
  next
    case (fetch i k v a' w')
    then have g: "readSpec cli pc k v (sy_world s) = (Inr a', w')" by simp
    show ?thesis
    proof (cases "n = k")
      case True
      then show ?thesis using fetch_cared [OF assms(2) _ fetch(3) g] assms(7) fetch(2) by simp
    qed (use fetch(2,3) readSpec_pure [OF g] reads_keep(2) [OF g] in \<open>intro frame [of t "[]"]; auto\<close>)
  next
    case (fetch_failed i k v e w' now)
    then have g: "readSpec cli pc k v (sy_world s) = (Inl e, w')" by simp
    show ?thesis
    proof (cases "n = k")
      case False
      then show ?thesis
        using fetch_failed readSpec_pure [OF g] reads_keep(2) [OF g] finish_turn_view(1) [of now k "Some (RecStore e)" "sy_queue s"]
        by (intro frame [of t "[]"]) auto
    qed (use fetch_failed(2) failed_cared [OF assms(2), of t now k "RecStore e"] in simp)
  next
    case (finish i k a' now e w' evs)
    show ?thesis by (rule finish_cared [OF assms(2,3,6,7) finish(3,4,5)]) (simp_all add: finish(2))
  qed
qed

lemma delivers_cared:
  assumes "sys_step ops c kvs s a t" "shape s" "delivers n a" "plain n"
  shows "cared had first t n"
  using assms(1)
proof (cases rule: sys_step.cases)
  case (deliver ev rest e w' now)
  then have "ev_key ev = Some (activeKey n)" using assms(3) by (auto simp: delivers_def)
  then obtain f where "we_Flow e = Some f" "fl_Name f = n"
    using watch_event [of ev "sy_world s" "Some e" w'] deliver(4) assms(4) by auto
  then show ?thesis
    using deliver(2) shapeD(3) [OF assms(2)] runWatch_view [of now "[e]" "sy_queue s"] by (intro pending_cared) auto
qed (use assms(3) in \<open>auto simp: delivers_def split: if_splits\<close>)

lemma sys_run_cared:
  assumes "sys_run ops c kvs s as t" "shape s" "\<forall>a\<in>set as. \<forall>x. a = Api x \<longrightarrow> action_plain x"
    and "jobs_inv (\<lambda>_ _. False) first s" "cared (\<lambda>_ _. False) first s n" "plain n"
  shows "jobs_inv (once_stored ops c kvs s t) first t \<and> (\<not> lost n as \<longrightarrow> cared (once_stored ops c kvs s t) first t n)"
  using assms
proof (induction rule: sys_run.induct)
  case (sys_none s)
  have "jobs_inv (once_stored ops c kvs s s) first s" by (rule jobs_inv_mono [OF sys_none.prems(3)]) simp
  moreover have "cared (once_stored ops c kvs s s) first s n" by (rule cared_mono [OF sys_none.prems(4)]) simp
  ultimately show ?case by blast
next
  case (sys_more s as t a u)
  have plain: "\<forall>a\<in>set as. \<forall>x. a = Api x \<longrightarrow> action_plain x" "\<And>x. a = Api x \<Longrightarrow> action_plain x" using sys_more.prems(2) by auto
  have sh: "shape t" by (rule sys_run_shape [OF sys_more.hyps(1) sys_more.prems(1) plain(1)])
  let ?h = "once_stored ops c kvs s t" and ?h' = "once_stored ops c kvs s u"
  note IH = sys_more.IH [OF sys_more.prems(1) plain(1) sys_more.prems(3-5)]
  have up: "?h m sp \<Longrightarrow> ?h' m sp" for m sp by (rule once_stored_step [OF _ sys_more.hyps(2)])
  have now: "spec_of pc (kvs (sy_world t)) m v = Some sp \<Longrightarrow> ?h m sp" for m v sp using once_stored_now [OF sys_more.hyps(1), of m v sp] by simp
  have j: "jobs_inv ?h first t" using IH by blast
  have "jobs_inv ?h first u" by (rule sys_step_jobs [OF sys_more.hyps(2) sh j]) (rule now)
  then have "jobs_inv ?h' first u" by (rule jobs_inv_mono) (rule up)
  moreover have "cared ?h' first u n" if "\<not> lost n (as @ [a])"
  proof (cases "delivers n a")
    case True
    then show ?thesis by (rule delivers_cared [OF sys_more.hyps(2) sh _ sys_more.prems(5)])
  next
    case False
    then have "\<not> loses n a" "cared ?h first t n" using that IH by (auto simp: lost_snoc)
    then have "cared ?h first u n" by (intro sys_step_cared [OF sys_more.hyps(2) sh j plain(2) _ sys_more.prems(5)])
    then show ?thesis by (rule cared_mono) (rule up)
  qed
  ultimately show ?case by blast
qed

text \<open>A quiet system has no events on their way, nothing in the queue and no busy worker.\<close>

lemma quiet_settled:
  assumes "cared had first s n" "sy_stream s = []" "pending (mq_q (sy_queue s)) = {}" "sy_busy s = (\<lambda>_. None)"
  shows "settled had first s n"
  using assms by (simp add: cared_def waiting_def)

end

section \<open>A turn of a worker\<close>

text \<open>The turn of \<open>worker_step\<close> that runs a key is a run of the system: the machine only cuts it into its calls.\<close>

context control_system
begin

lemma rest_reports:
  assumes "shape s" "sy_busy s i = Some (k, Held a)" "reconcile_rest c now k a (sy_world s) = (e, w')"
  shows "\<exists>evs. reports evs (kvs (sy_world s)) (kvs w') \<and> (\<forall>ev\<in>set evs. ev_key ev = Some (statusKey k))"
  using rest_effect(2) [OF assms]
proof
  assume "\<exists>b. kvs w' = (kvs (sy_world s))(statusKey k \<mapsto> b)"
  then have "reports [put_event (statusKey k)] (kvs (sy_world s)) (kvs w')"
    using shapeD(8) [OF assms(1,2)] statusKey_root by (auto simp: reports_def put_event_def ev_key_def eventType_of_def split: if_splits)
  then show ?thesis by (intro exI [of _ "[put_event (statusKey k)]"]) (simp add: put_event_def ev_key_def)
qed (metis reports_none empty_iff empty_set)

lemma finish_runs:
  assumes "shape s" "sy_busy s i = Some (k, Held a)" "reconcile_rest c now k a (sy_world s) = (e, w')"
  shows "\<exists>b t. sys_step ops c kvs s b t \<and> sy_queue t = finish_turn ops now k e (sy_queue s) \<and> sy_world t = w'
    \<and> sy_busy t = (sy_busy s)(i := None)"
proof -
  obtain evs where evs: "reports evs (kvs (sy_world s)) (kvs w')" "\<forall>ev\<in>set evs. ev_key ev = Some (statusKey k)"
    using rest_reports [OF assms] by blast
  show ?thesis by (intro exI conjI, rule sys_step.finish [OF assms(2,3) evs]) simp_all
qed

lemma worker_turn_runs:
  assumes "worker_step ops c now False (sy_queue s, sy_world s) = (WorkerRan k e, m', w')" "sy_busy s i = None" "shape s"
  shows "\<exists>as t. sys_run ops c kvs s as t \<and> sy_queue t = m' \<and> sy_world t = w' \<and> sy_busy t = sy_busy s"
proof -
  obtain lag m1 where g: "MQ_Get ops now (sy_queue s) = (Some (k, lag, True), m1)"
    and rec: "reconcile c now k (sy_world s) = (e, w')" and m': "m' = finish_turn ops now k e m1"
    using assms(1) by (auto simp: worker_step_def split: if_splits prod.splits option.splits)
  define s1 where "s1 = s\<lparr>sy_queue := m1, sy_busy := (sy_busy s)(i \<mapsto> (k, Taken))\<rparr>"
  have st1: "sys_step ops c kvs s Take s1" unfolding s1_def by (rule sys_step.take [OF assms(2) g])
  have s1: "sy_busy s1 i = Some (k, Taken)" "sy_world s1 = sy_world s" "sy_queue s1 = m1" "(sy_busy s1)(i := None) = sy_busy s"
    using assms(2) by (auto simp: s1_def)
  have r1: "sys_run ops c kvs s [Take] s1" by (rule sys_run_one [OF st1])
  have sh1: "shape s1" by (rule sys_step_shape [OF st1 assms(3)]) simp
  have rest: "\<exists>as t. sys_run ops c kvs s as t \<and> sy_queue t = m' \<and> sy_world t = w' \<and> sy_busy t = sy_busy s"
    if "sys_run ops c kvs s as u" "shape u" "sy_busy u i = Some (k, Held a)" "sy_queue u = m1" "(sy_busy u)(i := None) = sy_busy s"
      "reconcile_rest c now k a (sy_world u) = (e, w')" for as u a
    using finish_runs [OF that(2,3,6)] sys_more [OF that(1)] that(4,5) m' by metis
  obtain p w1 where p: "readActive (c_cli c) k (sy_world s1) = (p, w1)" by fastforce
  show ?thesis
  proof (cases p)
    case (Inl x)
    then have x: "e = Some (RecStore x)" "w' = w1" using rec p s1(2) by (auto simp: reconcile_def GetActiveFlow_def)
    show ?thesis
      by (intro exI conjI, rule sys_more [OF r1 sys_step.point_failed [OF s1(1) p [unfolded Inl], of ops kvs now]])
        (simp_all add: x s1(3,4) m')
  next
    case (Inr q)
    show ?thesis
    proof (cases q)
      case None
      define s2 where "s2 = set_world w1 s1\<lparr>sy_busy := (sy_busy s1)(i \<mapsto> (k, Held (None, 0)))\<rparr>"
      have st: "sys_step ops c kvs s1 Look s2" unfolding s2_def by (rule sys_step.no_pointer [OF s1(1) p [unfolded Inr None]])
      have "reconcile_rest c now k (None, 0) (sy_world s2) = (e, w')"
        using rec p s1(2) Inr None by (simp add: reconcile_def GetActiveFlow_def s2_def)
      then show ?thesis
        using rest [OF sys_more [OF r1 st] sys_step_shape [OF st sh1], of "(None, 0)"] s1(3,4) by (simp add: s2_def)
    next
      case (Some v)
      define s2 where "s2 = set_world w1 s1\<lparr>sy_busy := (sy_busy s1)(i \<mapsto> (k, Pointed v))\<rparr>"
      have st: "sys_step ops c kvs s1 Look s2" unfolding s2_def by (rule sys_step.point [OF s1(1) p [unfolded Inr Some]])
      have s2: "sy_busy s2 i = Some (k, Pointed v)" "sy_world s2 = w1" "sy_queue s2 = m1" "(sy_busy s2)(i := None) = sy_busy s"
        using s1 by (simp_all add: s2_def)
      have sh2: "shape s2" by (rule sys_step_shape [OF st sh1]) simp
      note r2 = sys_more [OF r1 st]
      obtain r w2 where r: "readSpec (c_cli c) (c_pc c) k v (sy_world s2) = (r, w2)" by fastforce
      have get: "GetActiveFlow (c_cli c) (c_pc c) k (sy_world s) = (r, w2)" using p s1(2) Inr Some r s2(2) by (simp add: GetActiveFlow_def)
      show ?thesis
      proof (cases r)
        case (Inl x)
        then have x: "e = Some (RecStore x)" "w' = w2" using rec get by (auto simp: reconcile_def)
        show ?thesis
          by (intro exI conjI, rule sys_more [OF r2 sys_step.fetch_failed [OF s2(1) r [unfolded Inl], of ops kvs now]])
            (simp_all add: x s2(3,4) m')
      next
        case (Inr a)
        define s3 where "s3 = set_world w2 s2\<lparr>sy_busy := (sy_busy s2)(i \<mapsto> (k, Held a))\<rparr>"
        have st3: "sys_step ops c kvs s2 Look s3" unfolding s3_def by (rule sys_step.fetch [OF s2(1) r [unfolded Inr]])
        have "reconcile_rest c now k a (sy_world s3) = (e, w')" using rec get Inr by (simp add: reconcile_def s3_def)
        then show ?thesis
          using rest [OF sys_more [OF r2 st3] sys_step_shape [OF st3 sh2], of a] s2(3,4) by (simp add: s3_def)
      qed
    qed
  qed
qed

end

section \<open>How much is left to do\<close>

text \<open>
  A bound on the steps the controller can still take on its own: a worker that holds a spec finishes, and its status
  write comes back as one event, which the watch loop drops; a read of the spec comes before that, a read of the pointer before
  it, the queue before it, and the event of a pointer before the queue.
\<close>

definition ev_cost :: "etcd_event \<Rightarrow> nat" where
  "ev_cost ev = (case ev_key ev of None \<Rightarrow> 1 | Some k \<Rightarrow> if HasSuffix k ''/active'' then 6 else 1)"

fun stage_cost :: "progress \<Rightarrow> nat" where
  "stage_cost Taken = 4"
| "stage_cost (Pointed v) = 3"
| "stage_cost (Held a) = 2"

definition busy_cost :: "(nat \<Rightarrow> (string \<times> progress) option) \<Rightarrow> nat" where
  "busy_cost b = (\<Sum>i\<in>dom b. stage_cost (snd (the (b i))))"

definition work_left :: "('q \<Rightarrow> string set) \<Rightarrow> ('q \<Rightarrow> string set) \<Rightarrow> ('q, 'w) sys \<Rightarrow> nat" where
  "work_left queued delayed s = sum_list (map ev_cost (sy_stream s))
     + 5 * (card (queued (mq_q (sy_queue s))) + card (delayed (mq_q (sy_queue s)))) + busy_cost (sy_busy s)"

definition finitely_busy :: "('q \<Rightarrow> string set) \<Rightarrow> ('q \<Rightarrow> string set) \<Rightarrow> ('q, 'w) sys \<Rightarrow> bool" where
  "finitely_busy queued delayed s \<longleftrightarrow>
     finite (queued (mq_q (sy_queue s))) \<and> finite (delayed (mq_q (sy_queue s))) \<and> finite (dom (sy_busy s))"

lemma busy_cost_set: "finite (dom b) \<Longrightarrow> busy_cost (b(i \<mapsto> (k, x))) = stage_cost x + busy_cost (b(i := None))"
proof -
  assume f: "finite (dom b)"
  have "busy_cost (b(i \<mapsto> (k, x))) = stage_cost x + (\<Sum>j\<in>dom b - {i}. stage_cost (snd (the ((b(i \<mapsto> (k, x))) j))))"
    using f by (simp add: busy_cost_def sum.insert_remove)
  also have "(\<Sum>j\<in>dom b - {i}. stage_cost (snd (the ((b(i \<mapsto> (k, x))) j)))) = busy_cost (b(i := None))"
    unfolding busy_cost_def by (rule sum.cong) auto
  finally show ?thesis .
qed

lemma busy_cost_split: "finite (dom b) \<Longrightarrow> b i = Some (k, x) \<Longrightarrow> busy_cost b = stage_cost x + busy_cost (b(i := None))"
  using busy_cost_set [of b i k x] by (simp add: map_upd_triv)

lemma ev_cost_pos: "1 \<le> ev_cost ev"
  by (simp add: ev_cost_def split: option.splits)

lemma status_cost:
  assumes "reports evs m m'" "\<forall>ev\<in>set evs. ev_key ev = Some (statusKey k)"
  shows "sum_list (map ev_cost evs) \<le> 1"
proof (cases evs)
  case (Cons ev evs')
  then have "evs' = []" using assms by (cases evs') (auto simp: reports_def)
  then show ?thesis using Cons assms(2) by (simp add: ev_cost_def)
qed simp

context control_system
begin

lemma take_cost:
  assumes "MQ_Get ops now m = (Some (k, lag, True), m')" "finite (queued (mq_q m))" "finite (delayed (mq_q m))"
  shows "finite (queued (mq_q m')) \<and> finite (delayed (mq_q m'))
    \<and> card (queued (mq_q m')) + card (delayed (mq_q m')) < card (queued (mq_q m)) + card (delayed (mq_q m))"
proof -
  obtain due where d: "due \<subseteq> delayed (mq_q m)" "k \<in> queued (mq_q m) \<union> due" "queued (mq_q m') = queued (mq_q m) \<union> due - {k}"
    "delayed (mq_q m') = delayed (mq_q m) - due"
    using Get_Got [OF MQ_Get_law(1) [OF assms(1)]] by auto
  have f: "finite due" using d(1) assms(3) finite_subset by blast
  have "card (delayed (mq_q m')) = card (delayed (mq_q m)) - card due" "card due \<le> card (delayed (mq_q m))"
    using d(1,4) assms(3) f by (simp_all add: card_Diff_subset card_mono)
  moreover have "card (queued (mq_q m')) < card (queued (mq_q m) \<union> due)"
    unfolding d(3) using d(2) assms(2) f by (intro card_Diff1_less) auto
  moreover have "card (queued (mq_q m) \<union> due) \<le> card (queued (mq_q m)) + card due" by (rule card_Un_le)
  ultimately show ?thesis using d(3,4) assms(2,3) f by auto
qed

lemma deliver_cost:
  assumes "we_Flow e = Some f" "finite (queued (mq_q m))"
  shows "finite (queued (mq_q (runWatch ops now [e] m))) \<and> card (queued (mq_q (runWatch ops now [e] m))) \<le> card (queued (mq_q m)) + 1"
proof -
  have "{fl_Name f' | ev f'. ev \<in> set [e] \<and> we_Flow ev = Some f'} = {fl_Name f}" using assms(1) by auto
  then have sub: "queued (mq_q (runWatch ops now [e] m)) \<subseteq> insert (fl_Name f) (queued (mq_q m))"
    using runWatch_view [of now "[e]" m] by auto
  have "card (insert (fl_Name f) (queued (mq_q m))) \<le> card (queued (mq_q m)) + 1" using assms(2) by (simp add: card_insert_if)
  then show ?thesis using sub assms(2) card_mono [OF _ sub] finite_subset [OF sub] by simp
qed

lemma sys_step_work:
  assumes "sys_step ops c kvs s a t" "a \<noteq> Fail" "\<forall>x. a \<noteq> Api x" "finitely_busy queued delayed s"
  shows "finitely_busy queued delayed t \<and> work_left queued delayed t < work_left queued delayed s"
  using assms(1)
proof (cases rule: sys_step.cases)
  case (deliver ev rest e w' now)
  obtain k f where k: "ev_key ev = Some k" "HasSuffix k ''/active''" "we_Flow e = Some f"
    using watch_event [of ev "sy_world s" "Some e" w'] deliver(4) by auto
  have "ev_cost ev = 6" using k by (simp add: ev_cost_def)
  then show ?thesis
    using deliver(2,3) deliver_cost [OF k(3), of "sy_queue s" now] runWatch_view [of now "[e]" "sy_queue s"] assms(4)
    by (auto simp: work_left_def finitely_busy_def)
next
  case (skip ev rest w')
  then show ?thesis using assms(4) ev_cost_pos [of ev] by (simp add: work_left_def finitely_busy_def)
next
  case (take i now k lag m)
  then have "busy_cost (sy_busy t) = 4 + busy_cost (sy_busy s)"
    using assms(4) busy_cost_set [of "sy_busy s" i k Taken] by (simp add: finitely_busy_def fun_upd_idem)
  then show ?thesis using take(2) take_cost [OF take(4)] assms(4) by (auto simp: work_left_def finitely_busy_def)
next
  case (point i k v w')
  then show ?thesis using assms(4) busy_cost_split [of "sy_busy s" i k] busy_cost_set [of "sy_busy s" i k]
    by (simp add: work_left_def finitely_busy_def)
next
  case (no_pointer i k w')
  then show ?thesis using assms(4) busy_cost_split [of "sy_busy s" i k] busy_cost_set [of "sy_busy s" i k]
    by (simp add: work_left_def finitely_busy_def)
next
  case (fetch i k v a' w')
  then show ?thesis using assms(4) busy_cost_split [of "sy_busy s" i k] busy_cost_set [of "sy_busy s" i k]
    by (simp add: work_left_def finitely_busy_def)
next
  case (finish i k a' now e w' evs)
  then have e: "e = None" using assms(2) by (simp split: if_splits)
  then show ?thesis
    using finish assms(4) busy_cost_split [of "sy_busy s" i k] status_cost [OF finish(5,6)] finish_turn_view(2) [of e "sy_queue s" now k]
    by (simp add: work_left_def finitely_busy_def)
qed (use assms(2,3) in auto)

lemma sys_run_work:
  assumes "sys_run ops c kvs s as t" "\<forall>a\<in>set as. a \<noteq> Fail \<and> (\<forall>x. a \<noteq> Api x)" "finitely_busy queued delayed s"
  shows "finitely_busy queued delayed t \<and> length as + work_left queued delayed t \<le> work_left queued delayed s"
  using assms
proof (induction rule: sys_run.induct)
  case (sys_more s as t a u)
  then show ?case using sys_step_work [OF sys_more.hyps(2)] by fastforce
qed simp

end

section \<open>Convergence\<close>

text \<open>
  The controller has just synchronized: no request and no worker is under way, every stored pointer belongs to a plain name, every spec
  carries the name of its flow, and a flow that is not in the queue neither has a pointer nor an object in the cluster.
\<close>

definition synchronized ::
  "proto_codec \<Rightarrow> ('w \<Rightarrow> keyspace) \<Rightarrow> ('w \<Rightarrow> cluster) \<Rightarrow> ('q \<Rightarrow> string set) \<Rightarrow> ('q \<Rightarrow> string set) \<Rightarrow> ('q \<Rightarrow> string set) \<Rightarrow> ('q \<Rightarrow> bool)
     \<Rightarrow> 'w Controller \<Rightarrow> ('q, 'w) sys \<Rightarrow> bool" where
  "synchronized pc kvs view queued delayed processing down c s \<longleftrightarrow>
     named pc (kvs (sy_world s)) \<and> plain_pointers (kvs (sy_world s))
     \<and> as_read (sy_api s) = (\<lambda>_. None) \<and> as_check (sy_api s) = (\<lambda>_. None) \<and> sy_stream s = [] \<and> sy_busy s = (\<lambda>_. None)
     \<and> \<not> down (mq_q (sy_queue s)) \<and> processing (mq_q (sy_queue s)) = {}
     \<and> (\<forall>n\<in>queued (mq_q (sy_queue s)) \<union> delayed (mq_q (sy_queue s)). plain n)
     \<and> (\<forall>n. plain n \<and> n \<notin> queued (mq_q (sy_queue s)) \<union> delayed (mq_q (sy_queue s)) \<longrightarrow> kvs (sy_world s) (activeKey n) = None
          \<and> (\<forall>k\<in>runtime_keys (c_runtimeNamespace c) n. view (sy_world s) k = None))"

context control_system
begin

lemma synchronized_shape:
  assumes "synchronized pc kvs view queued delayed processing down c s"
  shows "shape s"
  using assms by (simp add: synchronized_def shape_def store_inv_def queue_inv_def workers_of_def held_def ran_def)

lemma synchronized_jobs:
  assumes "synchronized pc kvs view queued delayed processing down c s"
  shows "jobs_inv had (view (sy_world s)) s"
  using assms by (simp add: jobs_inv_def kept_job_def synchronized_def)

lemma synchronized_cared:
  assumes "synchronized pc kvs view queued delayed processing down c s" "plain n"
  shows "cared had first s n"
proof (cases "n \<in> pending (mq_q (sy_queue s))")
  case False
  then have "active_view pc (kvs (sy_world s)) n (None, 0)" "deploys (keeps had first n) n None (view (sy_world s))"
    using assms by (auto simp: synchronized_def active_view_def deployed_def)
  then have "settled had first s n" unfolding settled_def by fastforce
  then show ?thesis using assms by (simp add: cared_def idle_def synchronized_def)
qed (rule pending_cared)

lemma settled_cases:
  assumes "settled had first s n"
  shows "(spec_missing (kvs (sy_world s)) n \<and> (\<forall>k\<in>runtime_keys (c_runtimeNamespace c) n. view (sy_world s) k = None))
    \<or> (\<exists>v sp. active_of (kvs (sy_world s)) n = Some v \<and> spec_of pc (kvs (sy_world s)) n v = Some sp
        \<and> deploys (keeps had first n) n (Some sp) (view (sy_world s)))"
proof -
  obtain so v where a: "active_view pc (kvs (sy_world s)) n (so, v)" "deploys (keeps had first n) n so (view (sy_world s))"
    using assms by (fastforce simp: settled_def)
  show ?thesis
  proof (cases so)
    case None
    then show ?thesis using a by (auto simp: active_view_def spec_missing_def deployed_def split: option.splits)
  next
    case (Some sp)
    then have "active_of (kvs (sy_world s)) n = Some v" "spec_of pc (kvs (sy_world s)) n v = Some sp"
      using a(1) by (auto simp: active_view_def split: option.splits)
    then show ?thesis using a(2) Some by blast
  qed
qed

lemma quiet_converged:
  assumes "synchronized pc kvs view queued delayed processing down c s" "sys_run ops c kvs s as t"
    and "\<forall>a\<in>set as. \<forall>x. a = Api x \<longrightarrow> action_plain x" "plain n" "\<not> lost n as"
    and "sy_stream t = []" "queued (mq_q (sy_queue t)) = {}" "delayed (mq_q (sy_queue t)) = {}" "sy_busy t = (\<lambda>_. None)"
  shows "settled (once_stored ops c kvs s t) (view (sy_world s)) t n"
proof -
  have "cared (once_stored ops c kvs s t) (view (sy_world s)) t n"
    using sys_run_cared [OF assms(2) synchronized_shape [OF assms(1)] assms(3) synchronized_jobs [OF assms(1)]
        synchronized_cared [OF assms(1,4)] assms(4)] assms(5) by blast
  then show ?thesis by (rule quiet_settled) (use assms(6-9) in simp_all)
qed

end

interpretation bothsys: control_system both_etcd both_kvs mini_codec both_kube both_view "(=)" "(=)" "(=)" "(=)"
  lq_ops lq_queued lq_later lq_busy lq_down ctl0
proof -
  have "control_system_axioms both_etcd mini_codec both_kube both_view ctl0"
    using ctl0_runs by unfold_locales (auto simp: both_etcd_def on_fst_iff both_view_def)
  then show "control_system both_etcd both_kvs mini_codec both_kube both_view (=) (=) (=) (=) lq_ops lq_queued lq_later lq_busy lq_down ctl0"
    unfolding control_system_def using both.control_plane_axioms listq.work_queue_axioms by blast
qed

section \<open>Properties\<close>

text \<open>
  C6: the controller converges. The API and the controller start synchronized and run in any interleaving of any number of requests with
  plain names and any number of workers, with any of their calls failing. Take a flow such that every event of its pointer that the watch
  loop has dropped, because its read of the store failed, was followed by another event of the pointer that got through. Whenever no event is
  on its way, no key is queued or delayed and no worker is busy, the cluster is what the store asks for: either the flow has no spec to
  run, and none of its objects is left, or its active spec is deployed: its configuration is in the config map, and its workload runs the
  active spec. A job is not replaced: the workload of a spec that runs as a job may also be the job that was there at the start of the run, or one made for a
  spec that was stored for the flow in the course of it.
\<close>

theorem controller_converges:
  assumes "control_system cli kvs pc kc view fill_dp fill_ds fill_jb fill_cj ops queued delayed processing down c"
    and "synchronized pc kvs view queued delayed processing down c s"
    and "sys_run ops c kvs s as t" "\<forall>a\<in>set as. \<forall>x. a = Api x \<longrightarrow> action_plain x" "plain n" "\<not> lost n as"
    and "sy_stream t = []" "queued (mq_q (sy_queue t)) = {}" "delayed (mq_q (sy_queue t)) = {}" "sy_busy t = (\<lambda>_. None)"
  shows "(spec_missing (kvs (sy_world t)) n \<and> (\<forall>k\<in>runtime_keys (c_runtimeNamespace c) n. view (sy_world t) k = None))
    \<or> (\<exists>v sp. active_of (kvs (sy_world t)) n = Some v \<and> spec_of pc (kvs (sy_world t)) n v = Some sp
        \<and> deployed fill_dp fill_ds fill_jb fill_cj c
            (kept_job fill_dp fill_ds fill_jb fill_cj c (once_stored ops c kvs s t) (view (sy_world s)) n) n (Some sp) (view (sy_world t)))"
  by (rule control_system.settled_cases [OF assms(1) control_system.quiet_converged [OF assms]])

text \<open>A flow is created, its event reaches the queue, a worker takes it, reads the store and deploys it.\<close>

definition changed :: "(string \<times> string) list \<Rightarrow> (string \<times> string) list \<Rightarrow> string list" where
  "changed l l' = filter (\<lambda>k. map_of l' k \<noteq> map_of l k) (remdups (map fst (l @ l')))"

lemma distinct_changed: "distinct (map ev_key (map put_event (changed l l')))"
proof -
  have "ev_key (put_event k) = Some k" for k by (simp add: put_event_def ev_key_def)
  then show ?thesis by (simp add: changed_def distinct_map inj_on_def)
qed

lemma changed_reports:
  assumes "list_all (prefix (ctl_rootPrefix @ ''/'')) (changed l l')"
  shows "reports (map put_event (changed l l')) (map_of l) (map_of l')"
proof -
  have "k \<in> set (changed l l')" if "map_of l' k \<noteq> map_of l k" for k
  proof -
    have "\<not> (map_of l k = None \<and> map_of l' k = None)" using that by metis
    then have "k \<in> fst ` set (l @ l')" unfolding map_of_eq_None_iff by auto
    then show ?thesis using that by (auto simp: changed_def)
  qed
  moreover have "map_of l k \<noteq> None \<or> map_of l' k \<noteq> None" if "k \<in> set (changed l l')" for k
    using that by (cases "map_of l k") (auto simp: changed_def)
  ultimately show ?thesis
    using assms distinct_changed unfolding reports_def list_all_iff
    by (fastforce simp: put_event_def ev_key_def eventType_of_def)
qed

definition conv_w1 :: "etcd_mem \<times> kube_mem" where
  "conv_w1 = snd (commitVersion both_etcd mini_codec ''f'' demo_spec [] (mem0, km0))"

definition conv_read :: "FlowSpec option \<times> u64" where
  "conv_read = projr (fst (readSpec both_etcd mini_codec ''f'' 1 conv_w1))"

definition conv_w2 :: "etcd_mem \<times> kube_mem" where
  "conv_w2 = snd (reconcile_rest ctl0 0 ''f'' conv_read conv_w1)"

definition conv ::
  "etcd_mem \<times> kube_mem \<Rightarrow> (nat \<Rightarrow> (string \<times> FlowSpec \<times> kv list) option) \<Rightarrow> Flow list \<Rightarrow> list_queue MemoryQueue \<Rightarrow> string list
     \<Rightarrow> (nat \<Rightarrow> (string \<times> progress) option) \<Rightarrow> (list_queue, etcd_mem \<times> kube_mem) sys" where
  "conv w rd acks q ks b = \<lparr>sy_api = \<lparr>as_world = w, as_read = rd, as_check = (\<lambda>_. None), as_acked = acks\<rparr>,
     sy_queue = q, sy_stream = map put_event ks, sy_busy = b\<rparr>"

definition conv_queue :: "string list \<Rightarrow> string list \<Rightarrow> (string \<times> int) list \<Rightarrow> list_queue MemoryQueue" where
  "conv_queue ws ps es = \<lparr>mq_q = \<lparr>lq_waiting = ws, lq_delayed = [], lq_processing = ps, lq_down = False\<rparr>, mq_enqueued = es\<rparr>"

abbreviation conv_step :: "(list_queue, etcd_mem \<times> kube_mem) sys \<Rightarrow> sys_action \<Rightarrow> (list_queue, etcd_mem \<times> kube_mem) sys \<Rightarrow> bool" where
  "conv_step \<equiv> sys_step lq_ops ctl0 both_kvs"

abbreviation nobody :: "nat \<Rightarrow> 'a option" where
  "nobody \<equiv> (\<lambda>_. None)"

lemma conv_synchronized:
  "synchronized mini_codec both_kvs both_view lq_queued lq_later lq_busy lq_down ctl0
     (conv (mem0, km0) nobody [] (conv_queue [] [] []) [] nobody)"
  by (simp add: synchronized_def conv_def conv_queue_def both_kvs_def both_view_def mem0_def km0_def mem_view_def km_view_def
      named_def plain_pointers_def spec_of_def)

lemma both_reports:
  assumes "list_all (prefix (ctl_rootPrefix @ ''/'')) (changed (mem_kvs (fst w)) (mem_kvs (fst w')))"
  shows "reports (map put_event (changed (mem_kvs (fst w)) (mem_kvs (fst w')))) (both_kvs w) (both_kvs w')"
  using changed_reports [OF assms] by (simp add: both_kvs_def mem_view_def)

lemma conv_create:
  "\<exists>f. conv_step (conv (mem0, km0) nobody [] q [] b) (Api (BeginCreate ''f'')) (conv (mem0, km0) [0 \<mapsto> (''f'', demo_spec, [])] [] q [] b)
     \<and> conv_step (conv (mem0, km0) [0 \<mapsto> (''f'', demo_spec, [])] [] q [] b) (Api CommitCreate)
         (conv conv_w1 nobody [f] q [versionSpecKey ''f'' 1, activeKey ''f''] b)"
proof -
  let ?s = "conv (mem0, km0) nobody [] q [] b" and ?t = "conv (mem0, km0) [0 \<mapsto> (''f'', demo_spec, [])] [] q [] b"
  have read: "cli_Get both_etcd (activeKey ''f'') (mem0, km0) = (Inr [], (mem0, km0))"
    and ok: "\<not> isl (fst (commitVersion both_etcd mini_codec ''f'' demo_spec [] (mem0, km0)))"
    and ch: "changed (mem_kvs mem0) (mem_kvs (fst conv_w1)) = [versionSpecKey ''f'' 1, activeKey ''f'']"
    and pre: "list_all (prefix (ctl_rootPrefix @ ''/'')) [versionSpecKey ''f'' 1, activeKey ''f'']" by code_simp+
  have "conv_step ?s (Api (BeginCreate ''f'')) ?t"
    using sys_step.sys_api [of ctl0 ?s "BeginCreate ''f''" "sy_api ?t" "[]" both_kvs lq_ops]
      begin_ok [of "sy_api ?s" 0 demo_spec "''f''" both_etcd "[]" "(mem0, km0)"] read
    by (simp add: conv_def ctl0_def reports_def demo_spec_def)
  moreover
  obtain f where f: "commitVersion both_etcd mini_codec ''f'' demo_spec [] (mem0, km0) = (Inr f, conv_w1)"
    using ok by (metis conv_w1_def prod.collapse sum.collapse(2))
  let ?u = "conv conv_w1 nobody [f] q [versionSpecKey ''f'' 1, activeKey ''f''] b"
  have "reports (map put_event [versionSpecKey ''f'' 1, activeKey ''f'']) (both_kvs (mem0, km0)) (both_kvs conv_w1)"
    using both_reports [of "(mem0, km0)" conv_w1] ch pre by (simp only: fst_conv)
  then have "conv_step ?t (Api CommitCreate) ?u"
    using sys_step.sys_api [of ctl0 ?t CommitCreate "sy_api ?u" "map put_event [versionSpecKey ''f'' 1, activeKey ''f'']" both_kvs lq_ops]
      commit_ok [of "sy_api ?t" 0 "''f''" demo_spec "[]" both_etcd mini_codec f conv_w1] f
    by (simp add: conv_def ctl0_def)
  ultimately show ?thesis by blast
qed

lemma conv_watch:
  "conv_step (conv conv_w1 nobody acks q (versionSpecKey ''f'' 1 # ks) b) (Skip (put_event (versionSpecKey ''f'' 1))) (conv conv_w1 nobody acks q ks b)"
  "conv_step (conv conv_w1 nobody acks (conv_queue [] [] []) (activeKey ''f'' # ks) b) (Deliver (put_event (activeKey ''f'')))
     (conv conv_w1 nobody acks (conv_queue [''f''] [] [(''f'', 0)]) ks b)"
  "conv_step (conv conv_w2 nobody acks q (statusKey ''f'' # ks) b) (Skip (put_event (statusKey ''f''))) (conv conv_w2 nobody acks q ks b)"
proof -
  have b: "buildWatchEvent f (Some (put_event k)) w = (None, w)" if "\<not> HasSuffix k ''/active''" for k w and f :: "(etcd_mem \<times> kube_mem) fetch"
    using that by (simp add: buildWatchEvent_def put_event_def)
  show "conv_step (conv conv_w1 nobody acks q (versionSpecKey ''f'' 1 # ks) b) (Skip (put_event (versionSpecKey ''f'' 1))) (conv conv_w1 nobody acks q ks b)"
    using sys_step.skip [of "conv conv_w1 nobody acks q (versionSpecKey ''f'' 1 # ks) b"] b by (simp add: conv_def set_world_def)
  show "conv_step (conv conv_w2 nobody acks q (statusKey ''f'' # ks) b) (Skip (put_event (statusKey ''f''))) (conv conv_w2 nobody acks q ks b)"
    using sys_step.skip [of "conv conv_w2 nobody acks q (statusKey ''f'' # ks) b"] b by (simp add: conv_def set_world_def)
  let ?b = "buildWatchEvent (GetActiveFlow both_etcd mini_codec) (Some (put_event (activeKey ''f''))) conv_w1"
  have e: "fst ?b \<noteq> None" "snd ?b = conv_w1" and
    q: "runWatch lq_ops 0 [the (fst ?b)] (conv_queue [] [] []) = conv_queue [''f''] [] [(''f'', 0)]" by code_simp+
  then have "?b = (Some (the (fst ?b)), conv_w1)" by (metis option.collapse prod.collapse)
  then show "conv_step (conv conv_w1 nobody acks (conv_queue [] [] []) (activeKey ''f'' # ks) b) (Deliver (put_event (activeKey ''f'')))
     (conv conv_w1 nobody acks (conv_queue [''f''] [] [(''f'', 0)]) ks b)"
    using sys_step.deliver [of "conv conv_w1 nobody acks (conv_queue [] [] []) (activeKey ''f'' # ks) b" "put_event (activeKey ''f'')" "map put_event ks"
        ctl0 "the (fst ?b)" conv_w1 lq_ops both_kvs 0] q
    by (simp add: conv_def set_world_def ctl0_def)
qed

lemma conv_work:
  "conv_step (conv conv_w1 nobody acks (conv_queue [''f''] [] [(''f'', 0)]) [] nobody) Take
     (conv conv_w1 nobody acks (conv_queue [] [''f''] []) [] [0 \<mapsto> (''f'', Taken)])"
  "conv_step (conv conv_w1 nobody acks q ks [0 \<mapsto> (''f'', Taken)]) Look (conv conv_w1 nobody acks q ks [0 \<mapsto> (''f'', Pointed 1)])"
  "conv_step (conv conv_w1 nobody acks q ks [0 \<mapsto> (''f'', Pointed 1)]) Look (conv conv_w1 nobody acks q ks [0 \<mapsto> (''f'', Held conv_read)])"
  "conv_step (conv conv_w1 nobody acks (conv_queue [] [''f''] []) [] [0 \<mapsto> (''f'', Held conv_read)]) Finish
     (conv conv_w2 nobody acks (conv_queue [] [] []) [statusKey ''f''] nobody)"
proof -
  have get: "MQ_Get lq_ops 0 (conv_queue [''f''] [] [(''f'', 0)]) = (Some (''f'', 0, True), conv_queue [] [''f''] [])"
    and forget: "finish_turn lq_ops 0 ''f'' None (conv_queue [] [''f''] []) = conv_queue [] [] []" by code_simp+
  show "conv_step (conv conv_w1 nobody acks (conv_queue [''f''] [] [(''f'', 0)]) [] nobody) Take
     (conv conv_w1 nobody acks (conv_queue [] [''f''] []) [] [0 \<mapsto> (''f'', Taken)])"
    using sys_step.take [of "conv conv_w1 nobody acks (conv_queue [''f''] [] [(''f'', 0)]) [] nobody" 0 lq_ops 0 "''f''" 0 _ ctl0 both_kvs] get
    by (simp add: conv_def)
  let ?p = "readActive both_etcd ''f'' conv_w1" and ?g = "readSpec both_etcd mini_codec ''f'' 1 conv_w1"
  have "fst ?p = Inr (Some 1)" "snd ?p = conv_w1" by code_simp+
  then have "?p = (Inr (Some 1), conv_w1)" by (metis prod.collapse)
  then show "conv_step (conv conv_w1 nobody acks q ks [0 \<mapsto> (''f'', Taken)]) Look (conv conv_w1 nobody acks q ks [0 \<mapsto> (''f'', Pointed 1)])"
    using sys_step.point [of "conv conv_w1 nobody acks q ks [0 \<mapsto> (''f'', Taken)]" 0 "''f''" ctl0 1 conv_w1 lq_ops both_kvs]
    by (simp add: conv_def set_world_def ctl0_def)
  have "\<not> isl (fst ?g)" "snd ?g = conv_w1" by code_simp+
  then have "?g = (Inr conv_read, conv_w1)" by (metis conv_read_def prod.collapse sum.collapse(2))
  then show "conv_step (conv conv_w1 nobody acks q ks [0 \<mapsto> (''f'', Pointed 1)]) Look (conv conv_w1 nobody acks q ks [0 \<mapsto> (''f'', Held conv_read)])"
    using sys_step.fetch [of "conv conv_w1 nobody acks q ks [0 \<mapsto> (''f'', Pointed 1)]" 0 "''f''" 1 ctl0 conv_read conv_w1 lq_ops both_kvs]
    by (simp add: conv_def set_world_def ctl0_def)
  have ok: "fst (reconcile_rest ctl0 0 ''f'' conv_read conv_w1) = None"
    and ch: "changed (mem_kvs (fst conv_w1)) (mem_kvs (fst conv_w2)) = [statusKey ''f'']"
    and pre: "list_all (prefix (ctl_rootPrefix @ ''/'')) [statusKey ''f'']" by code_simp+
  have "reports (map put_event [statusKey ''f'']) (both_kvs conv_w1) (both_kvs conv_w2)" using both_reports [of conv_w1 conv_w2] ch pre by simp
  moreover have "reconcile_rest ctl0 0 ''f'' conv_read conv_w1 = (None, conv_w2)" using ok by (metis conv_w2_def prod.collapse)
  moreover have "ev_key (put_event (statusKey ''f'')) = Some (statusKey ''f'')" by (simp add: put_event_def ev_key_def)
  ultimately show "conv_step (conv conv_w1 nobody acks (conv_queue [] [''f''] []) [] [0 \<mapsto> (''f'', Held conv_read)]) Finish
     (conv conv_w2 nobody acks (conv_queue [] [] []) [statusKey ''f''] nobody)"
    using sys_step.finish [of "conv conv_w1 nobody acks (conv_queue [] [''f''] []) [] [0 \<mapsto> (''f'', Held conv_read)]" 0 "''f''" conv_read ctl0 0
        None conv_w2 "map put_event [statusKey ''f'']" both_kvs lq_ops] forget
    by (simp add: conv_def set_world_def)
qed

definition conv_created :: "Flow \<Rightarrow> (list_queue, etcd_mem \<times> kube_mem) sys" where
  "conv_created f = conv conv_w1 nobody [f] (conv_queue [] [] []) [versionSpecKey ''f'' 1, activeKey ''f''] nobody"

definition conv_done :: "Flow \<Rightarrow> (list_queue, etcd_mem \<times> kube_mem) sys" where
  "conv_done f = conv conv_w2 nobody [f] (conv_queue [] [] []) [] nobody"

definition conv_actions :: "sys_action list" where
  "conv_actions = [Skip (put_event (versionSpecKey ''f'' 1)), Deliver (put_event (activeKey ''f'')), Take, Look, Look, Finish,
     Skip (put_event (statusKey ''f''))]"

lemma conv_works: "sys_run lq_ops ctl0 both_kvs (conv_created f) conv_actions (conv_done f)"
  unfolding conv_created_def conv_done_def
  using sys_more [OF sys_more [OF sys_more [OF sys_more [OF sys_more [OF sys_more [OF sys_more [OF sys_none
    conv_watch(1)] conv_watch(2)] conv_work(1)] conv_work(2)] conv_work(3)] conv_work(4)] conv_watch(3)]
  by (simp add: conv_actions_def)

lemma conv_runs:
  "\<exists>f as. sys_run lq_ops ctl0 both_kvs (conv (mem0, km0) nobody [] (conv_queue [] [] []) [] nobody) as (conv_done f)
     \<and> \<not> lost ''f'' as \<and> (\<forall>a\<in>set as. \<forall>x. a = Api x \<longrightarrow> action_plain x)"
proof -
  obtain f where c: "conv_step (conv (mem0, km0) nobody [] (conv_queue [] [] []) [] nobody) (Api (BeginCreate ''f''))
        (conv (mem0, km0) [0 \<mapsto> (''f'', demo_spec, [])] [] (conv_queue [] [] []) [] nobody)"
      "conv_step (conv (mem0, km0) [0 \<mapsto> (''f'', demo_spec, [])] [] (conv_queue [] [] []) [] nobody) (Api CommitCreate) (conv_created f)"
    using conv_create unfolding conv_created_def by blast
  have "sys_run lq_ops ctl0 both_kvs (conv (mem0, km0) nobody [] (conv_queue [] [] []) [] nobody)
      ([Api (BeginCreate ''f''), Api CommitCreate] @ conv_actions) (conv_done f)"
    using sys_run_append [OF conv_works sys_more [OF sys_run_one [OF c(1)] c(2)]] by simp
  moreover have "\<not> lost ''f'' ([Api (BeginCreate ''f''), Api CommitCreate] @ conv_actions)"
  proof -
    have "\<not> loses ''f'' a" if "a \<in> set ([Api (BeginCreate ''f''), Api CommitCreate] @ conv_actions)" for a
      using that by (auto simp: conv_actions_def loses_def put_event_def ev_key_def)
    then show ?thesis unfolding lost_def by (metis in_set_conv_decomp)
  qed
  moreover have "plain ''f''" by (simp add: plain_def)
  ultimately show ?thesis by (intro exI conjI) (auto simp: conv_actions_def)
qed

theorem controller_converges_witness:
  "\<exists>f sp. active_of (both_kvs conv_w2) ''f'' = Some 1 \<and> spec_of mini_codec (both_kvs conv_w2) ''f'' 1 = Some sp
     \<and> deployed (=) (=) (=) (=) ctl0
         (kept_job (=) (=) (=) (=) ctl0
            (once_stored lq_ops ctl0 both_kvs (conv (mem0, km0) nobody [] (conv_queue [] [] []) [] nobody) (conv_done f)) (both_view (mem0, km0)) ''f'')
         ''f'' (Some sp) (both_view conv_w2)"
proof -
  let ?s = "conv (mem0, km0) nobody [] (conv_queue [] [] []) [] nobody"
  obtain f as where r: "sys_run lq_ops ctl0 both_kvs ?s as (conv_done f)" "\<not> lost ''f'' as"
    "\<forall>a\<in>set as. \<forall>x. a = Api x \<longrightarrow> action_plain x" using conv_runs by blast
  have a: "active_of (mem_view (fst conv_w2)) ''f'' = Some 1" "mem_view (fst conv_w2) (versionSpecKey ''f'' 1) \<noteq> None"
    "mem_view (fst conv_w2) (activeKey ''f'') \<noteq> None" by code_simp+
  then have "\<not> spec_missing (both_kvs conv_w2) ''f''" by (simp add: spec_missing_def both_kvs_def)
  moreover have "plain ''f''" by (simp add: plain_def)
  ultimately show ?thesis
    using controller_converges [OF bothsys.control_system_axioms conv_synchronized r(1,3) _ r(2)] a(1)
    by (fastforce simp: conv_done_def conv_def conv_queue_def both_kvs_def)
qed

text \<open>
  C7: the controller comes to rest. From any state with finitely many waiting keys and busy workers, the controller can take only a bounded number of steps
  on its own as long as no request comes in and no reconcile fails: at most \<open>work_left\<close>, which is one for each event on its way that is not
  of a pointer, six for each pointer event, five for each waiting key and at most four for each busy worker. In particular its own status writes, which
  come back to it as events of the watched prefix, do not keep it going.
\<close>

theorem controller_comes_to_rest:
  assumes "control_system cli kvs pc kc view fill_dp fill_ds fill_jb fill_cj ops queued delayed processing down c"
    and "sys_run ops c kvs s as t" "\<forall>a\<in>set as. a \<noteq> Fail \<and> (\<forall>x. a \<noteq> Api x)" "finitely_busy queued delayed s"
  shows "length as + work_left queued delayed t \<le> work_left queued delayed s"
  using control_system.sys_run_work [OF assms] by blast

theorem controller_comes_to_rest_witness:
  "\<exists>f. length conv_actions + work_left lq_queued lq_later (conv_done f) \<le> work_left lq_queued lq_later (conv_created f)
     \<and> work_left lq_queued lq_later (conv_created f) = 7 \<and> length conv_actions = 7"
proof -
  obtain f :: Flow where True by simp
  have "\<forall>a\<in>set conv_actions. a \<noteq> Fail \<and> (\<forall>x. a \<noteq> Api x)" by (simp add: conv_actions_def)
  moreover have "finitely_busy lq_queued lq_later (conv_created f)" by (simp add: finitely_busy_def conv_created_def conv_def)
  moreover have "plain ''f''" by (simp add: plain_def)
  then have "work_left lq_queued lq_later (conv_created f) = 7"
    by (simp add: work_left_def conv_created_def conv_def conv_queue_def busy_cost_def ev_cost_def put_event_def ev_key_def)
  ultimately show ?thesis using controller_comes_to_rest [OF bothsys.control_system_axioms conv_works] by (auto simp: conv_actions_def)
qed

end
