(* ===== verification/Flow_Codec.thy ===== *)
theory Flow_Codec
  imports Etcd_Client
begin

text \<open>
  The JSON form of a message (\<^verbatim>\<open>pkg/flow/codec\<close>) and the metadata type of the API (\<^verbatim>\<open>api/internal/model/meta.go\<close>). The encoder and decoder are
  those of protojson, which is not part of the repository: they are parameters, and the locale \<open>protojson\<close> states that decoding
  undoes encoding, with whatever options.
\<close>

section \<open>Messages as JSON\<close>

record MarshalOptions =
  mo_Multiline :: bool
  mo_Indent :: string
  mo_EmitUnpopulated :: bool
  mo_UseProtoNames :: bool

record 'm json_lib =
  pj_Marshal :: "MarshalOptions \<Rightarrow> 'm \<Rightarrow> string + string"
  pj_Unmarshal :: "string \<Rightarrow> string + 'm"

definition ToJSON :: "'m json_lib \<Rightarrow> 'm \<Rightarrow> string + string" where
  "ToJSON pj msg = pj_Marshal pj \<lparr>mo_Multiline = True, mo_Indent = ''  '', mo_EmitUnpopulated = False, mo_UseProtoNames = False\<rparr> msg"

definition FromJSON :: "'m json_lib \<Rightarrow> string \<Rightarrow> string + 'm" where
  "FromJSON pj data = pj_Unmarshal pj data"

locale protojson =
  fixes pj :: "'m json_lib"
  assumes Unmarshal_Marshal: "pj_Marshal pj opts msg = Inr data \<Longrightarrow> pj_Unmarshal pj data = Inr msg"
begin

lemma FromJSON_ToJSON: "ToJSON pj msg = Inr data \<Longrightarrow> FromJSON pj data = Inr msg"
  unfolding ToJSON_def FromJSON_def by (rule Unmarshal_Marshal)

lemma ToJSON_inject: "ToJSON pj a = Inr data \<Longrightarrow> ToJSON pj b = Inr data \<Longrightarrow> a = b"
  by (metis FromJSON_ToJSON sum.inject(2))

end

section \<open>Metadata\<close>

text \<open>The type is declared for the key \<^verbatim>\<open>meta\<close> of a flow; no operation reads or writes it.\<close>

record FlowMeta =
  fm_UID :: string
  fm_CreatedAt :: int
  fm_Labels :: "(string \<times> string) list"
  fm_Deleted :: bool

section \<open>A small library\<close>

definition mini_pj :: "FlowSpec json_lib" where
  "mini_pj = \<lparr>pj_Marshal = (\<lambda>_. marshal_spec mini_codec), pj_Unmarshal = unmarshal_spec mini_codec\<rparr>"

interpretation mini_pj: protojson mini_pj
  by unfold_locales (simp add: mini_pj_def mini.spec_roundtrip)

lemma FromJSON_ToJSON_example: "\<exists>data. ToJSON mini_pj demo_spec = Inr data \<and> FromJSON mini_pj data = Inr demo_spec"
proof -
  have "\<not> isl (ToJSON mini_pj demo_spec)" by code_simp
  then show ?thesis using mini_pj.FromJSON_ToJSON [of demo_spec] by (cases "ToJSON mini_pj demo_spec") auto
qed

end
