(* ===== verification/Spec2Isabelle.thy ===== *)
theory Spec2Isabelle
  imports Cli_Tool Api_Gateway Programs Ctl_Machine Flow_Codec
begin

text \<open>
  The control plane of flow-pipe, a pipeline runtime on Kubernetes, as a model of its Go code.

  \<^bold>\<open>The program.\<close> A user writes a flow (a pipeline of stages and queues) and submits it with \<^verbatim>\<open>flowctl\<close>, which loads,
  normalizes and validates it and calls the API over gRPC. The API server checks the API key, and stores each version of the
  flow in etcd under a key of its own with an active pointer beside them; it also serves a registry of versioned queue
  schemas, and both services over REST through a gateway. The controller watches the pointers in etcd, puts the
  names of changed flows into a work queue, and its workers reconcile each name: they read the active spec, bring the
  Kubernetes objects of the flow to it (or remove them), and write the status of the flow back to etcd, where
  the API serves it. The runtime in the pods, in C++, is not part of the control plane.

  \<^bold>\<open>Theories and sources\<close> (below \<^verbatim>\<open>src/\<close>).
  \<^item> \<open>Flow_Prelude\<close>, \<open>Go_Strings\<close>, \<open>Go_Path\<close>, \<open>Go_Flag\<close>: shared lemmas and collections, and what the code uses of Go's standard
    library: \<^verbatim>\<open>strings\<close>, \<^verbatim>\<open>strconv\<close>, \<^verbatim>\<open>path.Join\<close>, \<^verbatim>\<open>time.ParseDuration\<close>, \<^verbatim>\<open>flag\<close>. Strings are byte strings.
  \<^item> \<open>Flow_Types\<close>: the messages of \<^verbatim>\<open>gen/go/flowpipe/v1\<close> as records and datatypes; a nil pointer is \<open>None\<close>, integers keep
    their width as words where they are stored or computed with.
  \<^item> \<open>Flow_Spec\<close>: \<^verbatim>\<open>pkg/flow\<close>: \<^verbatim>\<open>Normalize\<close>, \<^verbatim>\<open>Validate\<close>, \<^verbatim>\<open>Diff\<close>, \<^verbatim>\<open>Fingerprint\<close>. \<open>Flow_Codec\<close>: \<^verbatim>\<open>pkg/flow/codec\<close> and the type \<^verbatim>\<open>FlowMeta\<close>.
  \<^item> \<open>Etcd_Client\<close>: the interface of the etcd client and of the protobuf codec, as records of functions and the locales \<open>etcd\<close>
    and \<open>proto_spec\<close>, with a client over a key space in memory, which can be told to fail, and a small codec as instances.
  \<^item> \<open>Api_Store\<close>, \<open>Schema_Store\<close>: \<^verbatim>\<open>api/internal/store\<close>: flows and schemas in etcd, and the contracts of the Go interfaces as the
    locales \<open>flow_store\<close> and \<open>schema_registry\<close>. \<open>Store_Machine\<close>: the store under concurrent requests: creates, rollbacks and deletions
    interleave at the level of their etcd calls, as steps labelled with the call.
  \<^item> \<open>Api_Service\<close>, \<open>Api_Server\<close>, \<open>Api_Gateway\<close>: \<^verbatim>\<open>api/internal/service\<close>, \<^verbatim>\<open>api/internal/server\<close> and \<^verbatim>\<open>service.pb.gw.go\<close>: the gRPC
    methods, authentication and the servers, and the REST gateway.
  \<^item> \<open>Program_Config\<close>, \<open>Programs\<close>: the \<^verbatim>\<open>config\<close> and \<^verbatim>\<open>observability\<close> packages and the \<^verbatim>\<open>main\<close> functions of the API and of the controller.
  \<^item> \<open>Cli\<close>, \<open>Cli_Tool\<close>: \<^verbatim>\<open>cli/cmd/flowctl\<close> and \<^verbatim>\<open>cli/internal/loader\<close>: the commands, and the program around them: the tree of
    commands with their flags and defaults, \<^verbatim>\<open>Execute\<close> and \<^verbatim>\<open>main\<close>, over a parser of command lines (the locale \<open>cobra\<close>).
  \<^item> \<open>Ctl_Store\<close>, \<open>Kube_Client\<close>, \<open>Ctl_Runtime\<close>, \<open>Ctl_Queue\<close>, \<open>Ctl_Reconcile\<close>, \<open>Ctl_Run\<close>: the controller: its store with the watch
    events, the interface of the Kubernetes client, the runtime objects of a flow (\<^verbatim>\<open>runtime.go\<close>), the work queue, the
    reconciler with its workers and watch loop, and the runs of the controller under leader election.
  \<^item> \<open>Ctl_Machine\<close>: the API and the controller as one transition system: the steps of \<open>Store_Machine\<close>, the stream of watch events, the
    queue, and workers whose two reads of the store and whose effect on the cluster are separate steps (the locale \<open>control_system\<close>).
  \<^item> This theory: the path of a flow from the tool to the cluster, across all of them.

  \<^bold>\<open>How state and errors are modelled.\<close> An operation that talks to etcd or to Kubernetes takes the client as an argument and threads a
  world \<open>'w\<close> through its calls in the order of the code; its result is a sum with the error on the left. Nothing is known of
  a world but through a view (the key space of etcd, the objects of the cluster) and the laws of the client's
  locale: a failed read changes nothing, a failed write may or may not have happened, a transaction is atomic. So every theorem
  about an operation holds for every client that keeps the laws, whatever fails; the memory clients show that the laws
  can be kept, and run the witnesses. A read of the clock, the order in which Go visits a map, and the
  result of an unstable sort are arguments.

  \<^bold>\<open>What the lemmas show.\<close>
  \<^item> Flow specs: \<open>Validate\<close> accepts exactly the well-formed flows and every error is justified; \<open>Normalize\<close> is canonical, idempotent,
    independent of the order of the input and keeps the verdict.
  \<^item> The stores: each operation refines an operation on an abstract registry (\<open>aflow\<close>: active version, specs by version, status),
    on every outcome; round trips between writing and reading; the listing is exact; and for every interleaving of concurrent
    requests the versions of a flow stay the numbers from 1 to the active one and no two requests get the same one; with rollbacks
    too, an active pointer always names a stored spec, but a rollback that races a deletion leaves one that does not. The extent of
    a deletion, and what a rollback lets be overwritten, are stated as the code does them.
  \<^item> The servers: no call of the two services passes without the key; which keys of the tool the server accepts (its own key after trimming, with or
    without a bearer prefix, and never when the server's key has spaces around it); the gateway
    serves the REST mapping of the service and refuses every other request without a call; and the configuration obeys flags before environment before defaults. The tool handles
    every command line without a panic, and its commands find their documented defaults.
  \<^item> The controller: \<open>ensureRuntime\<close> brings the cluster to the spec and touches only the objects of its flow, \<open>reconcile\<close> reaches
    the spec, the queue neither loses nor duplicates a key, a worker that alone serves a queue without delayed keys, and whose reconciles do not fail, empties it, and ends after a shutdown; and a
    controller that is elected again finds its queue shut down.
  \<^item> Together: a flow that is submitted by a command line that exits with 0, and whose event and turn come without error, runs in its
    normalized form and its status says so. And for every interleaving of requests with plain names, events and workers, failures included,
    the controller converges: when nothing is left to do, the cluster runs the active spec of a flow, or nothing of it when there is none. This
    holds of the flows of which the watch loop has not dropped an event for good, which it does when its read of a changed flow fails, and with
    a job that is already there kept. Left alone, the controller comes to rest within a number of steps that is
    stated. The steps of the queue are those of the machine of \<open>Ctl_Queue\<close>, whose invariant it reuses.

  \<^bold>\<open>Fuel and bounds.\<close> No definition needs fuel: loops run over finite lists, and those that wait (workers, the watch, leader election) are
  given the sequence of their turns or events, or are inductive relations. Version numbers are 64-bit (32-bit for schemas)
  and wrap as in Go; the invariant of \<open>Store_Machine\<close> is for fewer than \<open>2 ^ 64\<close> steps.

  \<^bold>\<open>Not modelled.\<close> Logging and tracing calls inside operations and the metrics of the controller, which do not influence results; timeouts and
  cancellation, other than as errors of calls, as the deadline the tool hands to the network, and as a finished context; the encodings of protobuf, JSON and YAML, TLS, the etcd and Kubernetes clients,
  client-go's queue (a key added again after a failure is delayed for a time the queue chooses) and elector, the runtime of the gateway and cobra, which are parameters with their documented
  behaviour; the getters and reflection code of the generated messages that no modelled code calls; the test files; the C++ runtime and stages.
  Kubernetes is idealised where the locale \<open>kube_resource\<close> says so: an object is gone once its deletion has been accepted (no finalizers, no
  orphaned pods). What the server fills in on its own, the labels it generates for the pods of a job included, is a relation between the spec that was sent and
  the one that is stored. The reflection service of gRPC is a parameter of the server, and asks for no key.
\<close>

section \<open>From the tool to the cluster\<close>

text \<open>The API server as the network of the tool: every call passes the interceptor and reaches the service.\<close>

definition served :: "'w network \<Rightarrow> string \<Rightarrow> Config \<Rightarrow> 'w Store \<Rightarrow> bool" where
  "served net addr cfg st \<longleftrightarrow> (\<forall>md. nw_call net addr md = apiKeyUnaryInterceptor cfg md (handle_rpc st))"

lemma served_create:
  assumes "served net addr cfg (etcd_as_store cli pc jc srt)" "dialAPI net fl addr = Inr cn"
    "client_call net cn (RpcCreateFlow \<lparr>cfr_Spec = Some sp\<rparr>) w = (Inr r, w')"
  shows "\<exists>f. CreateFlow cli pc (Some sp) w = (Inr f, w')"
proof -
  have "cn_addr cn = addr" using dialAPI_conn [OF assms(2)] by simp
  with assms(1,3) obtain y where "handle_rpc (etcd_as_store cli pc jc srt) (RpcCreateFlow \<lparr>cfr_Spec = Some sp\<rparr>) w = (Inr y, w')"
    by (auto simp: served_def client_call_def apiKeyUnaryInterceptor_def Let_def split: if_splits)
  moreover obtain a w1 where "CreateFlow cli pc (Some sp) w = (a, w1)" by fastforce
  ultimately show ?thesis
    by (cases a) (auto simp: rpc_result_def FlowServer_CreateFlow_def etcd_as_store_def)
qed

lemma submit_main:
  assumes "parse (rootCmd env) args = CobraRun DoSubmit vals [path]" "tool_main parse env td args w = ((0, out), w')"
  shows "submitCmd (tl_net td (duration_flag vals ''timeout'')) (connection_flags vals) (tl_loader td) (tl_sq td) (tl_ss td)
    (string_flag vals ''api'') path w = ((None, out), w')"
  using assms by (auto simp: tool_main_def Execute_def run_action_def arg_def Let_def split: option.splits prod.splits)

lemma created_flow_readable:
  assumes "etcd_store cli kvs pc" "CreateFlow cli pc (Some sp) w = (Inr f, w')"
  shows "\<exists>v. active_of (kvs w') (fs_Name sp) = Some v \<and> spec_of pc (kvs w') (fs_Name sp) v = Some (sp\<lparr>fs_Version := v\<rparr>)
    \<and> fs_Name sp \<noteq> ''''"
proof -
  have st: "stored (aflow_of pc (kvs w)) (\<lambda>n n'. flow_id n = flow_id n') (fs_Name sp) sp f (aflow_of pc (kvs w'))" "fs_Name sp \<noteq> ''''"
    using etcd_store.CreateFlow_cases [OF assms] by auto
  then have "aflow_of pc (kvs w') (fs_Name sp) = a_create sp (aflow_of pc (kvs w) (fs_Name sp))" by (simp add: stored_def)
  then have "a_active (aflow_of pc (kvs w') (fs_Name sp)) = Some (a_next (aflow_of pc (kvs w) (fs_Name sp)))"
    "a_specs (aflow_of pc (kvs w') (fs_Name sp)) (a_next (aflow_of pc (kvs w) (fs_Name sp)))
      = Some (sp\<lparr>fs_Version := a_next (aflow_of pc (kvs w) (fs_Name sp))\<rparr>)"
    by (simp_all add: a_create_def)
  then show ?thesis using st(2) by (auto simp: aflow_of_sels)
qed


text \<open>
  C4: a flow that is submitted ends up running. The tool is called on a command line that submits a flow to an API server over etcd, and
  exits with code 0;
  the controller watches the same etcd, builds the event of the new active pointer and puts the flow into its idle queue; a worker
  takes its turn and reports no error. Then the flow it took is the submitted one, the cluster runs the normalized
  and valid form of the loaded flow, in the version the API gave it, and the status of the flow says so.
\<close>

theorem submitted_flow_runs:
  assumes cp: "control_plane cli kvs pc kc view fill_dp fill_ds fill_jb fill_cj" and c: "runs_on c cli pc kc"
    and args: "parse (rootCmd env) args = CobraRun DoSubmit vals [path]" and main: "tool_main parse env td args w0 = ((0, out), w1)"
    and sv: "served (tl_net td (duration_flag vals ''timeout'')) (string_flag vals ''api'') cfg (etcd_as_store cli pc jc srt)"
    and ld: "LoadFlowSpec (tl_loader td) path = Inr loaded"
    and nm: "plain (fs_Name loaded)"
    and ev: "buildWatchEvent (GetActiveFlow cli pc) (Some \<lparr>ee_Type = EventTypePut,
        ee_Kv = Some \<lparr>kv_Key = activeKey (fs_Name loaded), kv_Value = b\<rparr>, ee_IsCreate = cr\<rparr>) w1 = (Some event, w2)"
    and wq: "work_queue ops queued delayed processing down"
    and idle: "queued (mq_q m) = {}" "delayed (mq_q m) = {}" "\<not> down (mq_q m)"
    and turn: "worker_step ops c now False (runWatch ops now [event] m, w2) = (WorkerRan n None, m', w3)"
  shows "n = fs_Name loaded \<and> (\<exists>v. let sp = (normalized (tl_sq td) (tl_ss td) loaded)\<lparr>fs_Version := v\<rparr> in
      valid_spec (normalized (tl_sq td) (tl_ss td) loaded)
      \<and> runtime_ready fill_dp fill_ds fill_jb fill_cj (c_cc c) (c_runtimeNamespace c) sp (pullPolicyFromSpec (Some sp))
          (c_observabilityEnabled c) (c_otelEndpoint c) (view w2) (view w3)
      \<and> active_of (kvs w3) n = Some v
      \<and> status_of pc (kvs w3) n = Some (deploying_status now v (workload_name sp)))"
proof -
  let ?sp = "normalized (tl_sq td) (tl_ss td) loaded" and ?net = "tl_net td (duration_flag vals ''timeout'')"
  have es: "etcd_store cli kvs pc" using cp by (simp add: control_plane_def)
  note sub = submit_main [OF args main]
  have lv: "load_valid (tl_loader td) (tl_sq td) (tl_ss td) path = Inr ?sp" "valid_spec ?sp"
    using sub ld by (auto simp: submitCmd_def load_valid_iff split: sum.splits)
  obtain cn r where cn: "dialAPI ?net (connection_flags vals) (string_flag vals ''api'') = Inr cn"
    "client_call ?net cn (RpcCreateFlow \<lparr>cfr_Spec = Some ?sp\<rparr>) w0 = (Inr r, w1)"
    using sub lv(1) by (auto simp: submitCmd_def split: sum.splits prod.splits)
  obtain f where f: "CreateFlow cli pc (Some ?sp) w0 = (Inr f, w1)" using served_create [OF sv cn] by blast
  obtain v where v: "active_of (kvs w1) (fs_Name loaded) = Some v" "spec_of pc (kvs w1) (fs_Name loaded) v = Some (?sp\<lparr>fs_Version := v\<rparr>)"
    using created_flow_readable [OF es f] by auto
  obtain g w2' where g: "GetActiveFlow cli pc (fs_Name loaded) w1 = (g, w2')" by fastforce
  have w2: "w2 = w2'" "we_Flow event = Some \<lparr>fl_Name = fs_Name loaded, fl_Version = 0,
      fl_Spec = (case g of Inr x \<Rightarrow> fst x), fl_Status = None\<rparr>"
    using ev g active_key_name [OF nm] by (auto simp: buildWatchEvent_def eventType_of_def Let_def split: sum.splits prod.splits if_splits)
  have k2: "kvs w2 = kvs w1" using etcd_store.GetActiveFlow_pure [OF es g] w2(1) by simp
  note t = work_queue.worker_step_ran [OF wq turn]
  have n: "n = fs_Name loaded" using t(1) work_queue.runWatch_view [OF wq, of now "[event]" m] idle w2(2) by auto
  have "\<not> spec_missing (kvs w2) n"
    using v n k2 by (auto simp: spec_missing_def active_of_def spec_of_def split: option.splits)
  with control_plane.reconcile_converges [OF cp t(5) c]
  obtain v' sp' where r: "active_of (kvs w2) n = Some v'" "spec_of pc (kvs w2) n v' = Some sp'"
    "runtime_ready fill_dp fill_ds fill_jb fill_cj (c_cc c) (c_runtimeNamespace c) sp' (pullPolicyFromSpec (Some sp'))
       (c_observabilityEnabled c) (c_otelEndpoint c) (view w2) (view w3)"
    "aflow_of pc (kvs w3) n = (aflow_of pc (kvs w2) n)\<lparr>a_status := Some (deploying_status now v' (workload_name sp'))\<rparr>"
    by auto
  have e: "v' = v" "sp' = ?sp\<lparr>fs_Version := v\<rparr>" using r(1,2) v n k2 by auto
  have "a_active (aflow_of pc (kvs w3) n) = Some v"
    "a_status (aflow_of pc (kvs w3) n) = Some (deploying_status now v (workload_name sp'))"
    using r(1,4) e by (simp_all add: aflow_of_sels)
  then show ?thesis using n lv(2) r(3) e by (auto simp: aflow_of_sels Let_def)
qed


definition both_net :: "(etcd_mem \<times> kube_mem) network" where
  "both_net = direct_net auth_cfg (handle_rpc (etcd_as_store both_etcd mini_codec mini_json (sort_key ms_Version)))"

definition both_tool :: "(unit, etcd_mem \<times> kube_mem) tool" where
  "both_tool = \<lparr>tl_net = (\<lambda>_. both_net), tl_loader = file_loader demo_spec, tl_sq = sort_key q_Name, tl_ss = sort_key st_Name,
     tl_enc = (\<lambda>_. Inr ''ok''), tl_stdin = Inr '''', tl_exe = (\<lambda>_ _ w. (None, w))\<rparr>"

definition submit_args :: "string list" where
  "submit_args = [''submit'', ''f.yaml'', ''--api=a:1'', ''--api-key=k1'']"

definition submit_run :: "(nat \<times> cli_output list) \<times> etcd_mem \<times> kube_mem" where
  "submit_run = tool_main mini_cmdline (\<lambda>_. None) both_tool submit_args (mem0, km0)"

definition watch_run :: "WatchEvent option \<times> etcd_mem \<times> kube_mem" where
  "watch_run = buildWatchEvent (GetActiveFlow both_etcd mini_codec) (Some \<lparr>ee_Type = EventTypePut,
     ee_Kv = Some \<lparr>kv_Key = activeKey (fs_Name demo_spec), kv_Value = ''1''\<rparr>, ee_IsCreate = True\<rparr>) (snd submit_run)"

definition idle_queue :: "list_queue MemoryQueue" where
  "idle_queue = NewMemoryQueue \<lparr>lq_waiting = [], lq_delayed = [], lq_processing = [], lq_down = False\<rparr>"

definition turn_run :: "worker_turn \<times> list_queue MemoryQueue \<times> etcd_mem \<times> kube_mem" where
  "turn_run = worker_step lq_ops ctl0 0 False (runWatch lq_ops 0 [the (fst watch_run)] idle_queue, snd watch_run)"

theorem submitted_flow_runs_witness:
  "fst submit_run = (0, [SubmittedTo ''f'' ''a:1'']) \<and> fst turn_run = WorkerRan ''f'' None
   \<and> (\<exists>v. status_of mini_codec (both_kvs (snd (snd turn_run))) ''f'' = Some (deploying_status 0 v ''f-runtime''))"
proof -
  have s: "fst submit_run = (0, [SubmittedTo ''f'' ''a:1''])" by code_simp
  have c: "(case mini_cmdline (rootCmd (\<lambda>_. None)) submit_args of CobraRun act _ as \<Rightarrow> act = DoSubmit \<and> as = [''f.yaml''] | _ \<Rightarrow> False)" by code_simp
  obtain vals where par: "mini_cmdline (rootCmd (\<lambda>_. None)) submit_args = CobraRun DoSubmit vals [''f.yaml'']"
    using c by (auto split: cobra_result.splits)
  have w: "fst watch_run \<noteq> None" by code_simp
  have t: "fst turn_run = WorkerRan ''f'' None" by code_simp
  have sub: "tool_main mini_cmdline (\<lambda>_. None) both_tool submit_args (mem0, km0) = ((0, [SubmittedTo ''f'' ''a:1'']), snd submit_run)"
    using s unfolding submit_run_def by (metis prod.collapse)
  obtain event where ev: "watch_run = (Some event, snd watch_run)" using w by (metis not_None_eq prod.collapse)
  have turn: "worker_step lq_ops ctl0 0 False (runWatch lq_ops 0 [event] idle_queue, snd watch_run)
      = (WorkerRan ''f'' None, fst (snd turn_run), snd (snd turn_run))"
    using t ev unfolding turn_run_def by (metis option.sel prod.collapse fst_conv)
  have sv: "served (tl_net both_tool (duration_flag vals ''timeout'')) (string_flag vals ''api'') auth_cfg
      (etcd_as_store both_etcd mini_codec mini_json (sort_key ms_Version))"
    by (simp add: served_def both_tool_def both_net_def direct_net_def)
  have ld: "LoadFlowSpec (tl_loader both_tool) ''f.yaml'' = Inr demo_spec" by (simp add: LoadFlowSpec_def file_loader_def both_tool_def)
  have pl: "plain (fs_Name demo_spec)" by (simp add: plain_def demo_spec_def)
  have iq: "lq_queued (mq_q idle_queue) = {}" "lq_later (mq_q idle_queue) = {}" "\<not> lq_down (mq_q idle_queue)" by (simp_all add: idle_queue_def NewMemoryQueue_def)
  have wn: "workload_name ((normalized (tl_sq both_tool) (tl_ss both_tool) demo_spec)\<lparr>fs_Version := v\<rparr>) = ''f-runtime''" for v
    by (simp add: workload_name_def workload_kind_def exec_mode_def wants_daemonset_def demo_spec_def empty_spec_def)
  from submitted_flow_runs [OF both.control_plane_axioms ctl0_runs par sub sv ld pl ev [unfolded watch_run_def] listq.work_queue_axioms iq
      turn [unfolded watch_run_def]] s t
  show ?thesis by (auto simp: Let_def wn)
qed

end
